(* ===== verification/Prelude.thy ===== *)
theory Prelude
  imports Main "HOL-Library.Word"
begin

unbundle bit_operations_syntax

text \<open>
  The prelude of the development: the machine types the components share, the little-endian
  byte encodings of \<^verbatim>\<open>src/src/crypto/common.h\<close>, the wrap-around of signed 64-bit arithmetic, and
  the generic facts on byte lists that the component theories use.
\<close>

declare of_nat_unat [simp del]

section \<open>Machine types\<close>

type_synonym byte = "8 word"
type_synonym u16 = "16 word"
type_synonym u32 = "32 word"
type_synonym u64 = "64 word"
type_synonym bytes = "byte list"

text \<open>
  A value of \<^verbatim>\<open>int64_t\<close> is an \<^typ>\<open>int\<close>; \<open>wrap64\<close> reduces the exact result of an
  operation to the two's complement range, which is what the compiled code computes.
\<close>

definition wrap64 :: "int \<Rightarrow> int" where
  "wrap64 x = signed_take_bit 63 x"

definition int64_range :: "int \<Rightarrow> bool" where
  "int64_range x \<longleftrightarrow> - (2 ^ 63) \<le> x \<and> x < 2 ^ 63"

lemma wrap64_id: "int64_range x \<Longrightarrow> wrap64 x = x"
  unfolding wrap64_def int64_range_def by (rule signed_take_bit_int_eq_self) simp_all

lemma wrap64_range: "int64_range (wrap64 x)"
  unfolding wrap64_def int64_range_def
  using signed_take_bit_int_greater_eq_minus_exp[of 63 x] signed_take_bit_int_less_exp[of 63 x]
  by (simp only: power_one_right)

named_theorems bytes_simps \<open>evaluation of byte encodings\<close>

section \<open>Little-endian numbers\<close>

primrec le_nat :: "bytes \<Rightarrow> nat" where
  "le_nat [] = 0"
| "le_nat (b # bs) = unat b + 256 * le_nat bs"

primrec le_bytes :: "nat \<Rightarrow> nat \<Rightarrow> bytes" where
  "le_bytes 0 n = []"
| "le_bytes (Suc k) n = word_of_nat n # le_bytes k (n div 256)"

lemma length_le_bytes [simp]: "length (le_bytes k n) = k"
  by (induction k arbitrary: n) simp_all

lemma unat_byte_of_nat [simp]: "unat (word_of_nat n :: byte) = n mod 256"
  by (simp add: unat_of_nat)

lemma unat_byte_less [simp]: "unat (b :: byte) < 256"
  using unsigned_less[of b] by simp

lemma le_nat_less: "le_nat bs < 256 ^ length bs"
proof (induction bs)
  case (Cons b bs)
  then have "le_nat bs + 1 \<le> 256 ^ length bs" by simp
  then have "256 * le_nat bs + 256 \<le> 256 * 256 ^ length bs" by simp
  moreover have "unat b < 256" by (rule unat_byte_less)
  ultimately show ?case by (simp del: unat_byte_less)
qed simp

lemma le_nat_le_bytes: "le_nat (le_bytes k n) = n mod 256 ^ k"
proof (induction k arbitrary: n)
  case (Suc k)
  have "n mod (256 * 256 ^ k) = 256 * (n div 256 mod 256 ^ k) + n mod 256"
    by (rule mod_mult2_eq)
  with Suc show ?case by simp
qed simp

lemma le_nat_le_bytes_id: "n < 256 ^ k \<Longrightarrow> le_nat (le_bytes k n) = n"
  by (simp add: le_nat_le_bytes)

lemma le_bytes_le_nat: "le_bytes (length bs) (le_nat bs) = bs"
proof (induction bs)
  case (Cons b bs)
  have "(unat b + 256 * le_nat bs) div 256 = le_nat bs" by simp
  moreover have "(word_of_nat (unat b + 256 * le_nat bs) :: byte) = b"
  proof (rule word_unat_eq_iff[THEN iffD2])
    show "unat (word_of_nat (unat b + 256 * le_nat bs) :: byte) = unat b"
      by (simp only: unat_byte_of_nat mod_mult_self2 mod_less unat_byte_less)
  qed
  ultimately show ?case using Cons by simp
qed simp

lemma le_nat_append: "le_nat (xs @ ys) = le_nat xs + 256 ^ length xs * le_nat ys"
  by (induction xs) (simp_all add: algebra_simps)

section \<open>Bits of bytes and words\<close>

lemma or_push_bit_nat: "a < 2 ^ k \<Longrightarrow> a OR push_bit k c = a + push_bit k (c::nat)"
proof -
  assume "a < 2 ^ k"
  then have a: "take_bit k a = a" by (simp add: take_bit_nat_eq_self_iff)
  have "a AND push_bit k c = 0"
    by (rule bit_eqI) (metis a bit_and_iff bit_push_bit_iff bit_take_bit_iff bit_0_eq bot_apply bot_bool_def leD)
  then show ?thesis by (simp add: disjunctive_add_eq_or)
qed

lemma unat_or_push_bit:
  assumes "unat r < 256 ^ i" and "i < 8"
  shows "unat (r OR push_bit (8 * i) (ucast (b :: byte)) :: u64) = unat r + 256 ^ i * unat b"
proof -
  have pow: "(256::nat) ^ i = 2 ^ (8 * i)" by (simp add: power_mult)
  have "unat b * 2 ^ (8 * i) < 256 * 2 ^ (8 * i)" by (rule mult_strict_right_mono) simp_all
  also have "\<dots> = 2 ^ (8 + 8 * i)" by (simp add: power_add)
  also have "\<dots> \<le> 2 ^ 64" using assms(2) by (intro power_increasing) simp_all
  finally have lt: "push_bit (8 * i) (unat b) < 2 ^ 64" by (simp add: push_bit_eq_mult)
  have "unat (push_bit (8 * i) (ucast b) :: u64) = push_bit (8 * i) (unat b)"
    using lt unat_byte_less[of b]
    by (simp add: unsigned_push_bit_eq unsigned_ucast_eq take_bit_nat_eq_self del: unat_byte_less)
  then show ?thesis using assms(1) pow
    by (simp add: unsigned_or_eq or_push_bit_nat) (simp add: push_bit_eq_mult)
qed

lemma byte_and_0x80: "(b :: byte) AND 0x80 \<noteq> 0 \<longleftrightarrow> 128 \<le> unat b"
proof -
  have "b AND 0x80 = b AND 2 ^ 7" by simp
  then have "b AND 0x80 \<noteq> 0 \<longleftrightarrow> bit b 7" by (simp only: and_exp_eq_0_iff_not_bit) simp
  also have "\<dots> \<longleftrightarrow> bit (unat b) 7" by (simp add: bit_unsigned_iff)
  also have "\<dots> \<longleftrightarrow> odd (unat b div 2 ^ 7)" by (rule bit_iff_odd)
  also have "\<dots> \<longleftrightarrow> 128 \<le> unat b"
  proof -
    have "unat b div 128 < 2" using unat_byte_less[of b] by (simp add: div_less_iff_less_mult del: unat_byte_less)
    then have "unat b div 128 = 0 \<or> unat b div 128 = 1" by linarith
    then show ?thesis by (auto simp: div_eq_0_iff)
  qed
  finally show ?thesis .
qed

lemma byte_and_0x7f: "(b :: byte) AND 0x7f = 0 \<longleftrightarrow> unat b mod 128 = 0"
proof -
  have m: "(0x7f :: byte) = mask 7" by (simp add: mask_eq_exp_minus_1)
  have "b AND 0x7f = take_bit 7 b" by (simp only: m take_bit_eq_mask)
  moreover have "unat (take_bit 7 b) = unat b mod 2 ^ 7"
    by (simp only: unsigned_take_bit_eq take_bit_eq_mod[of _ "unat b"])
  ultimately show ?thesis by (simp add: unat_eq_zero[symmetric])
qed

lemma byte_or_0x80: "unat (b :: byte) < 128 \<Longrightarrow> unat (b OR 0x80) = unat b + 128"
  using or_push_bit_nat[of "unat b" 7 1] by (simp add: unsigned_or_eq push_bit_eq_mult)

lemma sint_eq_unat:
  assumes "unat (w :: u64) < 2 ^ 63"
  shows "sint w = int (unat w)"
proof -
  have "int (unat w) < int (2 ^ 63)" using assms by (simp only: of_nat_less_iff)
  then have "signed_take_bit 63 (int (unat w)) = int (unat w)"
    by (intro signed_take_bit_int_eq_self) (simp_all only: of_nat_power of_nat_numeral)
  then show ?thesis by (simp add: sint_uint of_nat_unat)
qed

lemma unat_u64_exp: "k < 64 \<Longrightarrow> unat (2 ^ k :: u64) = 2 ^ k"
proof -
  assume "k < 64"
  then have "(2::nat) ^ k < 2 ^ 64" by (rule power_strict_increasing) simp
  then have "unat (word_of_nat (2 ^ k) :: u64) = 2 ^ k" by (simp only: unat_of_nat) simp
  then show ?thesis by simp
qed

end
