(* ===== verification/Common.thy ===== *)
theory Common
  imports Prelude
begin

text \<open>
  Fixed-width little- and big-endian accessors (\<^verbatim>\<open>src/crypto/common.h\<close>).  A pointer is the byte
  list it points to; a write returns the bytes it stores.
\<close>

section \<open>Reading and writing integers\<close>

definition ReadLE16 :: "bytes \<Rightarrow> u16" where
  "ReadLE16 ptr = of_nat (le_nat (take 2 ptr))"

definition ReadLE32 :: "bytes \<Rightarrow> u32" where
  "ReadLE32 ptr = of_nat (le_nat (take 4 ptr))"

definition ReadLE64 :: "bytes \<Rightarrow> u64" where
  "ReadLE64 ptr = of_nat (le_nat (take 8 ptr))"

definition WriteLE16 :: "u16 \<Rightarrow> bytes" where
  "WriteLE16 x = le_bytes 2 (unat x)"

definition WriteLE32 :: "u32 \<Rightarrow> bytes" where
  "WriteLE32 x = le_bytes 4 (unat x)"

definition WriteLE64 :: "u64 \<Rightarrow> bytes" where
  "WriteLE64 x = le_bytes 8 (unat x)"

definition ReadBE32 :: "bytes \<Rightarrow> u32" where
  "ReadBE32 ptr = of_nat (le_nat (rev (take 4 ptr)))"

definition ReadBE64 :: "bytes \<Rightarrow> u64" where
  "ReadBE64 ptr = of_nat (le_nat (rev (take 8 ptr)))"

definition WriteBE32 :: "u32 \<Rightarrow> bytes" where
  "WriteBE32 x = rev (le_bytes 4 (unat x))"

definition WriteBE64 :: "u64 \<Rightarrow> bytes" where
  "WriteBE64 x = rev (le_bytes 8 (unat x))"

text \<open>The number of significant bits: the shift loop of \<^verbatim>\<open>CountBits\<close>.\<close>

function CountBits :: "u64 \<Rightarrow> nat" where
  "CountBits x = (if x = 0 then 0 else Suc (CountBits (drop_bit 1 x)))"
  by auto
termination
proof (relation "measure unat")
  fix x :: u64
  assume "x \<noteq> 0"
  then have "0 < unat x" by (simp add: unat_gt_0)
  then show "(drop_bit 1 x, x) \<in> measure unat"
    by (simp add: drop_bit_eq_div unat_div)
qed simp

declare CountBits.simps [simp del]

section \<open>Lengths and round trips\<close>

lemma length_Write [simp]:
  "length (WriteLE16 a) = 2" "length (WriteLE32 b) = 4" "length (WriteLE64 c) = 8"
  "length (WriteBE32 b) = 4" "length (WriteBE64 c) = 8"
  by (simp_all add: WriteLE16_def WriteLE32_def WriteLE64_def WriteBE32_def WriteBE64_def)

lemma le_nat_le_bytes_word:
  fixes x :: "'a::len word"
  assumes "LENGTH('a) = 8 * k"
  shows "of_nat (le_nat (le_bytes k (unat x))) = x"
proof -
  have "unat x < 2 ^ LENGTH('a)" by (rule unsigned_less)
  also have "(2::nat) ^ LENGTH('a) = 256 ^ k" by (simp add: assms power_mult)
  finally show ?thesis by (simp add: le_nat_le_bytes_id of_nat_unat)
qed

lemma ReadLE_WriteLE:
  "ReadLE16 (WriteLE16 a @ r) = a" "ReadLE32 (WriteLE32 b @ r) = b" "ReadLE64 (WriteLE64 c @ r) = c"
  by (simp_all add: ReadLE16_def ReadLE32_def ReadLE64_def WriteLE16_def WriteLE32_def WriteLE64_def
    le_nat_le_bytes_word)

lemma ReadBE_WriteBE:
  "ReadBE32 (WriteBE32 b @ r) = b" "ReadBE64 (WriteBE64 c @ r) = c"
  by (simp_all add: ReadBE32_def ReadBE64_def WriteBE32_def WriteBE64_def le_nat_le_bytes_word)

lemma CountBits_le: "CountBits x \<le> n \<longleftrightarrow> unat x < 2 ^ n"
proof (induction x arbitrary: n rule: CountBits.induct)
  case (1 x)
  show ?case
  proof (cases "x = 0")
    case False
    have u: "unat (drop_bit 1 x) = unat x div 2"
      by (simp add: drop_bit_eq_div unat_div)
    show ?thesis using 1 [OF False, of "n - 1"] False u
      by (cases n) (auto simp: CountBits.simps [of x] unat_gt_0)
  qed (simp add: CountBits.simps)
qed

lemma unat_ReadLE:
  "unat (ReadLE16 p) = le_nat (take 2 p)" "unat (ReadLE32 p) = le_nat (take 4 p)"
proof -
  have "le_nat (take 2 p) < 2 ^ 16" "le_nat (take 4 p) < 2 ^ 32"
    using le_nat_less [of "take 2 p"] le_nat_less [of "take 4 p"]
      power_increasing [of "length (take 2 p)" 2 "256::nat"] power_increasing [of "length (take 4 p)" 4 "256::nat"]
    by simp_all
  then show "unat (ReadLE16 p) = le_nat (take 2 p)" "unat (ReadLE32 p) = le_nat (take 4 p)"
    by (simp_all add: ReadLE16_def ReadLE32_def unsigned_of_nat take_bit_nat_eq_self)
qed

end
