(* ===== verification/Script.thy ===== *)
theory Script
  imports Common
begin

text \<open>
  The script language: \<^verbatim>\<open>src/src/script/script.h\<close> and \<^verbatim>\<open>src/src/script/script.cpp\<close>. A \<^verbatim>\<open>CScript\<close> is the
  list of its bytes and a \<^verbatim>\<open>const_iterator\<close> into it is the list of the bytes from the iterator
  to the end of the script, so \<^verbatim>\<open>end() - pc\<close> is the length of that list. An opcode is the number
  that the enumeration \<^verbatim>\<open>opcodetype\<close> gives it: the code casts any byte to the enumeration and
  compares opcodes as numbers.

  The theory models script numbers (\<^verbatim>\<open>CScriptNum\<close>), pushes (\<^verbatim>\<open>operator<<\<close>), the instruction reader
  \<^verbatim>\<open>GetOp2\<close> and the loops built on it: \<^verbatim>\<open>FindAndDelete\<close>, \<^verbatim>\<open>Find\<close>, the signature-operation counts,
  \<^verbatim>\<open>IsPushOnly\<close>, \<^verbatim>\<open>HasValidOps\<close> and the recognisers of standard templates. The lemmas are the
  round trips of numbers and pushes, and the progress of the instruction reader, from which
  every loop's termination follows.
\<close>

section \<open>Opcodes\<close>

type_synonym opcodetype = nat

abbreviation (input) OP_0 :: nat where "OP_0 \<equiv> 0x00"
abbreviation (input) OP_FALSE :: nat where "OP_FALSE \<equiv> OP_0"
abbreviation (input) OP_PUSHDATA1 :: nat where "OP_PUSHDATA1 \<equiv> 0x4c"
abbreviation (input) OP_PUSHDATA2 :: nat where "OP_PUSHDATA2 \<equiv> 0x4d"
abbreviation (input) OP_PUSHDATA4 :: nat where "OP_PUSHDATA4 \<equiv> 0x4e"
abbreviation (input) OP_1NEGATE :: nat where "OP_1NEGATE \<equiv> 0x4f"
abbreviation (input) OP_RESERVED :: nat where "OP_RESERVED \<equiv> 0x50"
abbreviation (input) OP_1 :: nat where "OP_1 \<equiv> 0x51"
abbreviation (input) OP_TRUE :: nat where "OP_TRUE \<equiv> OP_1"
abbreviation (input) OP_2 :: nat where "OP_2 \<equiv> 0x52"
abbreviation (input) OP_3 :: nat where "OP_3 \<equiv> 0x53"
abbreviation (input) OP_4 :: nat where "OP_4 \<equiv> 0x54"
abbreviation (input) OP_5 :: nat where "OP_5 \<equiv> 0x55"
abbreviation (input) OP_6 :: nat where "OP_6 \<equiv> 0x56"
abbreviation (input) OP_7 :: nat where "OP_7 \<equiv> 0x57"
abbreviation (input) OP_8 :: nat where "OP_8 \<equiv> 0x58"
abbreviation (input) OP_9 :: nat where "OP_9 \<equiv> 0x59"
abbreviation (input) OP_10 :: nat where "OP_10 \<equiv> 0x5a"
abbreviation (input) OP_11 :: nat where "OP_11 \<equiv> 0x5b"
abbreviation (input) OP_12 :: nat where "OP_12 \<equiv> 0x5c"
abbreviation (input) OP_13 :: nat where "OP_13 \<equiv> 0x5d"
abbreviation (input) OP_14 :: nat where "OP_14 \<equiv> 0x5e"
abbreviation (input) OP_15 :: nat where "OP_15 \<equiv> 0x5f"
abbreviation (input) OP_16 :: nat where "OP_16 \<equiv> 0x60"
abbreviation (input) OP_NOP :: nat where "OP_NOP \<equiv> 0x61"
abbreviation (input) OP_VER :: nat where "OP_VER \<equiv> 0x62"
abbreviation (input) OP_IF :: nat where "OP_IF \<equiv> 0x63"
abbreviation (input) OP_NOTIF :: nat where "OP_NOTIF \<equiv> 0x64"
abbreviation (input) OP_VERIF :: nat where "OP_VERIF \<equiv> 0x65"
abbreviation (input) OP_VERNOTIF :: nat where "OP_VERNOTIF \<equiv> 0x66"
abbreviation (input) OP_ELSE :: nat where "OP_ELSE \<equiv> 0x67"
abbreviation (input) OP_ENDIF :: nat where "OP_ENDIF \<equiv> 0x68"
abbreviation (input) OP_VERIFY :: nat where "OP_VERIFY \<equiv> 0x69"
abbreviation (input) OP_RETURN :: nat where "OP_RETURN \<equiv> 0x6a"
abbreviation (input) OP_TOALTSTACK :: nat where "OP_TOALTSTACK \<equiv> 0x6b"
abbreviation (input) OP_FROMALTSTACK :: nat where "OP_FROMALTSTACK \<equiv> 0x6c"
abbreviation (input) OP_2DROP :: nat where "OP_2DROP \<equiv> 0x6d"
abbreviation (input) OP_2DUP :: nat where "OP_2DUP \<equiv> 0x6e"
abbreviation (input) OP_3DUP :: nat where "OP_3DUP \<equiv> 0x6f"
abbreviation (input) OP_2OVER :: nat where "OP_2OVER \<equiv> 0x70"
abbreviation (input) OP_2ROT :: nat where "OP_2ROT \<equiv> 0x71"
abbreviation (input) OP_2SWAP :: nat where "OP_2SWAP \<equiv> 0x72"
abbreviation (input) OP_IFDUP :: nat where "OP_IFDUP \<equiv> 0x73"
abbreviation (input) OP_DEPTH :: nat where "OP_DEPTH \<equiv> 0x74"
abbreviation (input) OP_DROP :: nat where "OP_DROP \<equiv> 0x75"
abbreviation (input) OP_DUP :: nat where "OP_DUP \<equiv> 0x76"
abbreviation (input) OP_NIP :: nat where "OP_NIP \<equiv> 0x77"
abbreviation (input) OP_OVER :: nat where "OP_OVER \<equiv> 0x78"
abbreviation (input) OP_PICK :: nat where "OP_PICK \<equiv> 0x79"
abbreviation (input) OP_ROLL :: nat where "OP_ROLL \<equiv> 0x7a"
abbreviation (input) OP_ROT :: nat where "OP_ROT \<equiv> 0x7b"
abbreviation (input) OP_SWAP :: nat where "OP_SWAP \<equiv> 0x7c"
abbreviation (input) OP_TUCK :: nat where "OP_TUCK \<equiv> 0x7d"
abbreviation (input) OP_CAT :: nat where "OP_CAT \<equiv> 0x7e"
abbreviation (input) OP_SUBSTR :: nat where "OP_SUBSTR \<equiv> 0x7f"
abbreviation (input) OP_LEFT :: nat where "OP_LEFT \<equiv> 0x80"
abbreviation (input) OP_RIGHT :: nat where "OP_RIGHT \<equiv> 0x81"
abbreviation (input) OP_SIZE :: nat where "OP_SIZE \<equiv> 0x82"
abbreviation (input) OP_INVERT :: nat where "OP_INVERT \<equiv> 0x83"
abbreviation (input) OP_AND :: nat where "OP_AND \<equiv> 0x84"
abbreviation (input) OP_OR :: nat where "OP_OR \<equiv> 0x85"
abbreviation (input) OP_XOR :: nat where "OP_XOR \<equiv> 0x86"
abbreviation (input) OP_EQUAL :: nat where "OP_EQUAL \<equiv> 0x87"
abbreviation (input) OP_EQUALVERIFY :: nat where "OP_EQUALVERIFY \<equiv> 0x88"
abbreviation (input) OP_RESERVED1 :: nat where "OP_RESERVED1 \<equiv> 0x89"
abbreviation (input) OP_RESERVED2 :: nat where "OP_RESERVED2 \<equiv> 0x8a"
abbreviation (input) OP_1ADD :: nat where "OP_1ADD \<equiv> 0x8b"
abbreviation (input) OP_1SUB :: nat where "OP_1SUB \<equiv> 0x8c"
abbreviation (input) OP_2MUL :: nat where "OP_2MUL \<equiv> 0x8d"
abbreviation (input) OP_2DIV :: nat where "OP_2DIV \<equiv> 0x8e"
abbreviation (input) OP_NEGATE :: nat where "OP_NEGATE \<equiv> 0x8f"
abbreviation (input) OP_ABS :: nat where "OP_ABS \<equiv> 0x90"
abbreviation (input) OP_NOT :: nat where "OP_NOT \<equiv> 0x91"
abbreviation (input) OP_0NOTEQUAL :: nat where "OP_0NOTEQUAL \<equiv> 0x92"
abbreviation (input) OP_ADD :: nat where "OP_ADD \<equiv> 0x93"
abbreviation (input) OP_SUB :: nat where "OP_SUB \<equiv> 0x94"
abbreviation (input) OP_MUL :: nat where "OP_MUL \<equiv> 0x95"
abbreviation (input) OP_DIV :: nat where "OP_DIV \<equiv> 0x96"
abbreviation (input) OP_MOD :: nat where "OP_MOD \<equiv> 0x97"
abbreviation (input) OP_LSHIFT :: nat where "OP_LSHIFT \<equiv> 0x98"
abbreviation (input) OP_RSHIFT :: nat where "OP_RSHIFT \<equiv> 0x99"
abbreviation (input) OP_BOOLAND :: nat where "OP_BOOLAND \<equiv> 0x9a"
abbreviation (input) OP_BOOLOR :: nat where "OP_BOOLOR \<equiv> 0x9b"
abbreviation (input) OP_NUMEQUAL :: nat where "OP_NUMEQUAL \<equiv> 0x9c"
abbreviation (input) OP_NUMEQUALVERIFY :: nat where "OP_NUMEQUALVERIFY \<equiv> 0x9d"
abbreviation (input) OP_NUMNOTEQUAL :: nat where "OP_NUMNOTEQUAL \<equiv> 0x9e"
abbreviation (input) OP_LESSTHAN :: nat where "OP_LESSTHAN \<equiv> 0x9f"
abbreviation (input) OP_GREATERTHAN :: nat where "OP_GREATERTHAN \<equiv> 0xa0"
abbreviation (input) OP_LESSTHANOREQUAL :: nat where "OP_LESSTHANOREQUAL \<equiv> 0xa1"
abbreviation (input) OP_GREATERTHANOREQUAL :: nat where "OP_GREATERTHANOREQUAL \<equiv> 0xa2"
abbreviation (input) OP_MIN :: nat where "OP_MIN \<equiv> 0xa3"
abbreviation (input) OP_MAX :: nat where "OP_MAX \<equiv> 0xa4"
abbreviation (input) OP_WITHIN :: nat where "OP_WITHIN \<equiv> 0xa5"
abbreviation (input) OP_RIPEMD160 :: nat where "OP_RIPEMD160 \<equiv> 0xa6"
abbreviation (input) OP_SHA1 :: nat where "OP_SHA1 \<equiv> 0xa7"
abbreviation (input) OP_SHA256 :: nat where "OP_SHA256 \<equiv> 0xa8"
abbreviation (input) OP_HASH160 :: nat where "OP_HASH160 \<equiv> 0xa9"
abbreviation (input) OP_HASH256 :: nat where "OP_HASH256 \<equiv> 0xaa"
abbreviation (input) OP_CODESEPARATOR :: nat where "OP_CODESEPARATOR \<equiv> 0xab"
abbreviation (input) OP_CHECKSIG :: nat where "OP_CHECKSIG \<equiv> 0xac"
abbreviation (input) OP_CHECKSIGVERIFY :: nat where "OP_CHECKSIGVERIFY \<equiv> 0xad"
abbreviation (input) OP_CHECKMULTISIG :: nat where "OP_CHECKMULTISIG \<equiv> 0xae"
abbreviation (input) OP_CHECKMULTISIGVERIFY :: nat where "OP_CHECKMULTISIGVERIFY \<equiv> 0xaf"
abbreviation (input) OP_NOP1 :: nat where "OP_NOP1 \<equiv> 0xb0"
abbreviation (input) OP_CHECKLOCKTIMEVERIFY :: nat where "OP_CHECKLOCKTIMEVERIFY \<equiv> 0xb1"
abbreviation (input) OP_NOP2 :: nat where "OP_NOP2 \<equiv> OP_CHECKLOCKTIMEVERIFY"
abbreviation (input) OP_CHECKSEQUENCEVERIFY :: nat where "OP_CHECKSEQUENCEVERIFY \<equiv> 0xb2"
abbreviation (input) OP_NOP3 :: nat where "OP_NOP3 \<equiv> OP_CHECKSEQUENCEVERIFY"
abbreviation (input) OP_NOP4 :: nat where "OP_NOP4 \<equiv> 0xb3"
abbreviation (input) OP_NOP5 :: nat where "OP_NOP5 \<equiv> 0xb4"
abbreviation (input) OP_NOP6 :: nat where "OP_NOP6 \<equiv> 0xb5"
abbreviation (input) OP_NOP7 :: nat where "OP_NOP7 \<equiv> 0xb6"
abbreviation (input) OP_NOP8 :: nat where "OP_NOP8 \<equiv> 0xb7"
abbreviation (input) OP_NOP9 :: nat where "OP_NOP9 \<equiv> 0xb8"
abbreviation (input) OP_NOP10 :: nat where "OP_NOP10 \<equiv> 0xb9"
abbreviation (input) OP_SMALLINTEGER :: nat where "OP_SMALLINTEGER \<equiv> 0xfa"
abbreviation (input) OP_PUBKEYS :: nat where "OP_PUBKEYS \<equiv> 0xfb"
abbreviation (input) OP_PUBKEYHASH :: nat where "OP_PUBKEYHASH \<equiv> 0xfd"
abbreviation (input) OP_PUBKEY :: nat where "OP_PUBKEY \<equiv> 0xfe"
abbreviation (input) OP_INVALIDOPCODE :: nat where "OP_INVALIDOPCODE \<equiv> 0xff"

abbreviation (input) MAX_OPCODE :: nat where "MAX_OPCODE \<equiv> OP_NOP10"

abbreviation (input) MAX_SCRIPT_ELEMENT_SIZE :: nat where "MAX_SCRIPT_ELEMENT_SIZE \<equiv> 520"
abbreviation (input) MAX_OPS_PER_SCRIPT :: nat where "MAX_OPS_PER_SCRIPT \<equiv> 201"
abbreviation (input) MAX_PUBKEYS_PER_MULTISIG :: nat where "MAX_PUBKEYS_PER_MULTISIG \<equiv> 20"
abbreviation (input) MAX_SCRIPT_SIZE :: nat where "MAX_SCRIPT_SIZE \<equiv> 10000"
abbreviation (input) MAX_STACK_SIZE :: nat where "MAX_STACK_SIZE \<equiv> 1000"
abbreviation (input) LOCKTIME_THRESHOLD :: int where "LOCKTIME_THRESHOLD \<equiv> 500000000"

definition opcode_names :: "(opcodetype \<times> string) list" where
  "opcode_names =
    [(OP_0, ''0''),
     (OP_PUSHDATA1, ''OP_PUSHDATA1''),
     (OP_PUSHDATA2, ''OP_PUSHDATA2''),
     (OP_PUSHDATA4, ''OP_PUSHDATA4''),
     (OP_1NEGATE, ''-1''),
     (OP_RESERVED, ''OP_RESERVED''),
     (OP_1, ''1''),
     (OP_2, ''2''),
     (OP_3, ''3''),
     (OP_4, ''4''),
     (OP_5, ''5''),
     (OP_6, ''6''),
     (OP_7, ''7''),
     (OP_8, ''8''),
     (OP_9, ''9''),
     (OP_10, ''10''),
     (OP_11, ''11''),
     (OP_12, ''12''),
     (OP_13, ''13''),
     (OP_14, ''14''),
     (OP_15, ''15''),
     (OP_16, ''16''),
     (OP_NOP, ''OP_NOP''),
     (OP_VER, ''OP_VER''),
     (OP_IF, ''OP_IF''),
     (OP_NOTIF, ''OP_NOTIF''),
     (OP_VERIF, ''OP_VERIF''),
     (OP_VERNOTIF, ''OP_VERNOTIF''),
     (OP_ELSE, ''OP_ELSE''),
     (OP_ENDIF, ''OP_ENDIF''),
     (OP_VERIFY, ''OP_VERIFY''),
     (OP_RETURN, ''OP_RETURN''),
     (OP_TOALTSTACK, ''OP_TOALTSTACK''),
     (OP_FROMALTSTACK, ''OP_FROMALTSTACK''),
     (OP_2DROP, ''OP_2DROP''),
     (OP_2DUP, ''OP_2DUP''),
     (OP_3DUP, ''OP_3DUP''),
     (OP_2OVER, ''OP_2OVER''),
     (OP_2ROT, ''OP_2ROT''),
     (OP_2SWAP, ''OP_2SWAP''),
     (OP_IFDUP, ''OP_IFDUP''),
     (OP_DEPTH, ''OP_DEPTH''),
     (OP_DROP, ''OP_DROP''),
     (OP_DUP, ''OP_DUP''),
     (OP_NIP, ''OP_NIP''),
     (OP_OVER, ''OP_OVER''),
     (OP_PICK, ''OP_PICK''),
     (OP_ROLL, ''OP_ROLL''),
     (OP_ROT, ''OP_ROT''),
     (OP_SWAP, ''OP_SWAP''),
     (OP_TUCK, ''OP_TUCK''),
     (OP_CAT, ''OP_CAT''),
     (OP_SUBSTR, ''OP_SUBSTR''),
     (OP_LEFT, ''OP_LEFT''),
     (OP_RIGHT, ''OP_RIGHT''),
     (OP_SIZE, ''OP_SIZE''),
     (OP_INVERT, ''OP_INVERT''),
     (OP_AND, ''OP_AND''),
     (OP_OR, ''OP_OR''),
     (OP_XOR, ''OP_XOR''),
     (OP_EQUAL, ''OP_EQUAL''),
     (OP_EQUALVERIFY, ''OP_EQUALVERIFY''),
     (OP_RESERVED1, ''OP_RESERVED1''),
     (OP_RESERVED2, ''OP_RESERVED2''),
     (OP_1ADD, ''OP_1ADD''),
     (OP_1SUB, ''OP_1SUB''),
     (OP_2MUL, ''OP_2MUL''),
     (OP_2DIV, ''OP_2DIV''),
     (OP_NEGATE, ''OP_NEGATE''),
     (OP_ABS, ''OP_ABS''),
     (OP_NOT, ''OP_NOT''),
     (OP_0NOTEQUAL, ''OP_0NOTEQUAL''),
     (OP_ADD, ''OP_ADD''),
     (OP_SUB, ''OP_SUB''),
     (OP_MUL, ''OP_MUL''),
     (OP_DIV, ''OP_DIV''),
     (OP_MOD, ''OP_MOD''),
     (OP_LSHIFT, ''OP_LSHIFT''),
     (OP_RSHIFT, ''OP_RSHIFT''),
     (OP_BOOLAND, ''OP_BOOLAND''),
     (OP_BOOLOR, ''OP_BOOLOR''),
     (OP_NUMEQUAL, ''OP_NUMEQUAL''),
     (OP_NUMEQUALVERIFY, ''OP_NUMEQUALVERIFY''),
     (OP_NUMNOTEQUAL, ''OP_NUMNOTEQUAL''),
     (OP_LESSTHAN, ''OP_LESSTHAN''),
     (OP_GREATERTHAN, ''OP_GREATERTHAN''),
     (OP_LESSTHANOREQUAL, ''OP_LESSTHANOREQUAL''),
     (OP_GREATERTHANOREQUAL, ''OP_GREATERTHANOREQUAL''),
     (OP_MIN, ''OP_MIN''),
     (OP_MAX, ''OP_MAX''),
     (OP_WITHIN, ''OP_WITHIN''),
     (OP_RIPEMD160, ''OP_RIPEMD160''),
     (OP_SHA1, ''OP_SHA1''),
     (OP_SHA256, ''OP_SHA256''),
     (OP_HASH160, ''OP_HASH160''),
     (OP_HASH256, ''OP_HASH256''),
     (OP_CODESEPARATOR, ''OP_CODESEPARATOR''),
     (OP_CHECKSIG, ''OP_CHECKSIG''),
     (OP_CHECKSIGVERIFY, ''OP_CHECKSIGVERIFY''),
     (OP_CHECKMULTISIG, ''OP_CHECKMULTISIG''),
     (OP_CHECKMULTISIGVERIFY, ''OP_CHECKMULTISIGVERIFY''),
     (OP_NOP1, ''OP_NOP1''),
     (OP_CHECKLOCKTIMEVERIFY, ''OP_CHECKLOCKTIMEVERIFY''),
     (OP_CHECKSEQUENCEVERIFY, ''OP_CHECKSEQUENCEVERIFY''),
     (OP_NOP4, ''OP_NOP4''),
     (OP_NOP5, ''OP_NOP5''),
     (OP_NOP6, ''OP_NOP6''),
     (OP_NOP7, ''OP_NOP7''),
     (OP_NOP8, ''OP_NOP8''),
     (OP_NOP9, ''OP_NOP9''),
     (OP_NOP10, ''OP_NOP10''),
     (OP_INVALIDOPCODE, ''OP_INVALIDOPCODE'')]"

definition GetOpName :: "opcodetype \<Rightarrow> string" where
  "GetOpName opcode = (case map_of opcode_names opcode of Some s \<Rightarrow> s | None \<Rightarrow> ''OP_UNKNOWN'')"

section \<open>Script numbers\<close>

datatype scriptnum_error = ScriptNumOverflow | NonMinimalScriptNum

primrec set_vch_loop :: "nat \<Rightarrow> u64 \<Rightarrow> bytes \<Rightarrow> u64" where
  "set_vch_loop i result [] = result"
| "set_vch_loop i result (b # bs) = set_vch_loop (Suc i) (result OR push_bit (8 * i) (ucast b)) bs"

definition set_vch :: "bytes \<Rightarrow> int" where
  "set_vch vch =
     (if vch = [] then 0
      else let result = set_vch_loop 0 0 vch
        in if last vch AND 0x80 \<noteq> 0
           then - sint (result AND NOT (push_bit (8 * (length vch - 1)) 0x80))
           else sint result)"

abbreviation (input) nDefaultMaxNumSize :: nat where "nDefaultMaxNumSize \<equiv> 4"

definition non_minimal :: "bytes \<Rightarrow> bool" where
  "non_minimal vch \<longleftrightarrow>
     0 < length vch \<and> last vch AND 0x7f = 0 \<and>
     (length vch \<le> 1 \<or> vch ! (length vch - 2) AND 0x80 = 0)"

definition CScriptNum :: "bytes \<Rightarrow> bool \<Rightarrow> nat \<Rightarrow> scriptnum_error + int" where
  "CScriptNum vch fRequireMinimal nMaxNumSize =
     (if nMaxNumSize < length vch then Inl ScriptNumOverflow
      else if fRequireMinimal \<and> non_minimal vch then Inl NonMinimalScriptNum
      else Inr (set_vch vch))"

text \<open>
  The assignment operators assert that the 64-bit result does not overflow; \<^const>\<open>None\<close> is the
  failed assertion.
\<close>

definition scriptnum_add_assign :: "int \<Rightarrow> int \<Rightarrow> int option" where
  "scriptnum_add_assign m rhs =
     (if rhs = 0 \<or> (rhs > 0 \<and> m \<le> (2 ^ 63 - 1) - rhs) \<or> (rhs < 0 \<and> m \<ge> - (2 ^ 63) - rhs)
      then Some (wrap64 (m + rhs)) else None)"

definition scriptnum_sub_assign :: "int \<Rightarrow> int \<Rightarrow> int option" where
  "scriptnum_sub_assign m rhs =
     (if rhs = 0 \<or> (rhs > 0 \<and> m \<ge> - (2 ^ 63) + rhs) \<or> (rhs < 0 \<and> m \<le> (2 ^ 63 - 1) + rhs)
      then Some (wrap64 (m - rhs)) else None)"

definition scriptnum_neg :: "int \<Rightarrow> int option" where
  "scriptnum_neg m = (if m \<noteq> - (2 ^ 63) then Some (wrap64 (- m)) else None)"

definition scriptnum_add :: "int \<Rightarrow> int \<Rightarrow> int" where
  "scriptnum_add m rhs = wrap64 (m + rhs)"

definition scriptnum_sub :: "int \<Rightarrow> int \<Rightarrow> int" where
  "scriptnum_sub m rhs = wrap64 (m - rhs)"

definition getint :: "int \<Rightarrow> int" where
  "getint m = (if m > 2 ^ 31 - 1 then 2 ^ 31 - 1 else if m < - (2 ^ 31) then - (2 ^ 31) else m)"

text \<open>
  \<open>abs_bytes\<close> is the loop of \<^verbatim>\<open>serialize\<close> that pushes the low byte of \<^verbatim>\<open>absvalue\<close> and shifts it
  right by eight until it is zero.
\<close>

fun abs_bytes :: "nat \<Rightarrow> bytes" where
  "abs_bytes absvalue =
     (if absvalue = 0 then [] else word_of_nat absvalue # abs_bytes (absvalue div 256))"

declare abs_bytes.simps [simp del]

definition serialize :: "int \<Rightarrow> bytes" where
  "serialize value =
     (if value = 0 then []
      else let neg = value < 0;
               result = abs_bytes (nat \<bar>value\<bar>)
        in if last result AND 0x80 \<noteq> 0 then result @ [if neg then 0x80 else 0]
           else if neg then butlast result @ [last result OR 0x80]
           else result)"

section \<open>Building scripts\<close>

definition push_opcode :: "bytes \<Rightarrow> opcodetype \<Rightarrow> bytes option" where
  "push_opcode script opcode =
     (if opcode > 0xff then None else Some (script @ [word_of_nat opcode]))"

definition push_vector :: "bytes \<Rightarrow> bytes \<Rightarrow> bytes" where
  "push_vector script b =
     (if length b < OP_PUSHDATA1 then script @ [word_of_nat (length b)]
      else if length b \<le> 0xff then script @ [word_of_nat OP_PUSHDATA1, word_of_nat (length b)]
      else if length b \<le> 0xffff then script @ [word_of_nat OP_PUSHDATA2] @ WriteLE16 (of_nat (length b))
      else script @ [word_of_nat OP_PUSHDATA4] @ WriteLE32 (of_nat (length b))) @ b"

definition push_int64 :: "bytes \<Rightarrow> int \<Rightarrow> bytes" where
  "push_int64 script n =
     (if n = -1 \<or> (n \<ge> 1 \<and> n \<le> 16) then script @ [word_of_int (n + int (OP_1 - 1))]
      else if n = 0 then script @ [word_of_nat OP_0]
      else push_vector script (serialize n))"

section \<open>Reading instructions\<close>

text \<open>
  The result is the returned flag, the advanced iterator, the opcode and the pushed data. A
  failed read leaves the iterator where the code left it.
\<close>

fun GetOp2 :: "bytes \<Rightarrow> bool \<times> bytes \<times> opcodetype \<times> bytes" where
  "GetOp2 [] = (False, [], OP_INVALIDOPCODE, [])"
| "GetOp2 (b # pc) =
     (let opcode = unat b
      in if opcode \<le> OP_PUSHDATA4 then
           (case (if opcode < OP_PUSHDATA1 then Some (opcode, pc)
                  else if opcode = OP_PUSHDATA1 then
                    (if length pc < 1 then None else Some (unat (hd pc), tl pc))
                  else if opcode = OP_PUSHDATA2 then
                    (if length pc < 2 then None else Some (unat (ReadLE16 pc), drop 2 pc))
                  else
                    (if length pc < 4 then None else Some (unat (ReadLE32 pc), drop 4 pc))) of
              None \<Rightarrow> (False, pc, OP_INVALIDOPCODE, [])
            | Some (nSize, pc') \<Rightarrow>
                if length pc' < nSize then (False, pc', OP_INVALIDOPCODE, [])
                else (True, drop nSize pc', opcode, take nSize pc'))
         else (True, pc, opcode, []))"

declare GetOp2.simps(2) [simp del]

text \<open>\<open>GetOp\<close> keeps what a successful read gives, for the loops that stop at a failed one.\<close>

definition GetOp :: "bytes \<Rightarrow> (bytes \<times> opcodetype \<times> bytes) option" where
  "GetOp pc = (case GetOp2 pc of (fRet, pc', opcode, vch) \<Rightarrow>
     if fRet then Some (pc', opcode, vch) else None)"

lemma GetOp2_length: "GetOp2 pc = (True, pc', opcode, vch) \<Longrightarrow> length pc' + length vch < length pc"
  by (cases pc) (auto simp: GetOp2.simps(2) Let_def split: option.splits if_splits)

lemma GetOp_length: "GetOp pc = Some (pc', opcode, vch) \<Longrightarrow> length pc' + length vch < length pc"
  by (auto simp: GetOp_def GetOp2_length split: prod.splits if_splits)

lemma GetOp_shorter [termination_simp]: "GetOp pc = Some (pc', opcode, vch) \<Longrightarrow> length pc' < length pc"
  using GetOp_length[of pc pc' opcode vch] by linarith

lemma GetOp_Nil [simp]: "GetOp [] = None"
  by (simp add: GetOp_def)

section \<open>Loops over a script\<close>

definition DecodeOP_N :: "opcodetype \<Rightarrow> nat" where
  "DecodeOP_N opcode = (if opcode = OP_0 then 0 else opcode - (OP_1 - 1))"

definition EncodeOP_N :: "nat \<Rightarrow> opcodetype" where
  "EncodeOP_N n = (if n = 0 then OP_0 else OP_1 + n - 1)"

fun GetSigOpCount_loop :: "bool \<Rightarrow> opcodetype \<Rightarrow> bytes \<Rightarrow> nat \<Rightarrow> nat" where
  "GetSigOpCount_loop fAccurate lastOpcode pc n =
     (case GetOp pc of
        None \<Rightarrow> n
      | Some (pc', opcode, vch) \<Rightarrow>
          GetSigOpCount_loop fAccurate opcode pc'
            (if opcode = OP_CHECKSIG \<or> opcode = OP_CHECKSIGVERIFY then n + 1
             else if opcode = OP_CHECKMULTISIG \<or> opcode = OP_CHECKMULTISIGVERIFY then
               (if fAccurate \<and> OP_1 \<le> lastOpcode \<and> lastOpcode \<le> OP_16
                then n + DecodeOP_N lastOpcode
                else n + MAX_PUBKEYS_PER_MULTISIG)
             else n))"

definition GetSigOpCount :: "bool \<Rightarrow> bytes \<Rightarrow> nat" where
  "GetSigOpCount fAccurate script = GetSigOpCount_loop fAccurate OP_INVALIDOPCODE script 0"

definition IsPayToScriptHash :: "bytes \<Rightarrow> bool" where
  "IsPayToScriptHash script \<longleftrightarrow>
     length script = 23 \<and> unat (script ! 0) = OP_HASH160 \<and> script ! 1 = 0x14 \<and>
     unat (script ! 22) = OP_EQUAL"

definition IsPayToWitnessScriptHash :: "bytes \<Rightarrow> bool" where
  "IsPayToWitnessScriptHash script \<longleftrightarrow>
     length script = 34 \<and> unat (script ! 0) = OP_0 \<and> script ! 1 = 0x20"

text \<open>
  \<open>last_push\<close> is the loop of \<^verbatim>\<open>GetSigOpCount(scriptSig)\<close> over the pushes of \<^verbatim>\<open>scriptSig\<close>; \<^const>\<open>None\<close>
  is its early return of zero.
\<close>

fun last_push :: "bytes \<Rightarrow> bytes \<Rightarrow> bytes option" where
  "last_push pc vData =
     (if pc = [] then Some vData
      else case GetOp pc of
             None \<Rightarrow> None
           | Some (pc', opcode, vch) \<Rightarrow> if opcode > OP_16 then None else last_push pc' vch)"

definition GetSigOpCount_sig :: "bytes \<Rightarrow> bytes \<Rightarrow> nat" where
  "GetSigOpCount_sig script scriptSig =
     (if \<not> IsPayToScriptHash script then GetSigOpCount True script
      else case last_push scriptSig [] of
             None \<Rightarrow> 0
           | Some vData \<Rightarrow> GetSigOpCount True vData)"

definition IsWitnessProgram :: "bytes \<Rightarrow> (nat \<times> bytes) option" where
  "IsWitnessProgram script =
     (if length script < 4 \<or> length script > 42 then None
      else if unat (script ! 0) \<noteq> OP_0 \<and> (unat (script ! 0) < OP_1 \<or> unat (script ! 0) > OP_16) then None
      else if unat (script ! 1) + 2 = length script
        then Some (DecodeOP_N (unat (script ! 0)), drop 2 script)
      else None)"

fun IsPushOnly :: "bytes \<Rightarrow> bool" where
  "IsPushOnly pc =
     (if pc = [] then True
      else case GetOp pc of
             None \<Rightarrow> False
           | Some (pc', opcode, vch) \<Rightarrow> if opcode > OP_16 then False else IsPushOnly pc')"

fun HasValidOps :: "bytes \<Rightarrow> bool" where
  "HasValidOps it =
     (if it = [] then True
      else case GetOp it of
             None \<Rightarrow> False
           | Some (it', opcode, item) \<Rightarrow>
               if opcode > MAX_OPCODE \<or> length item > MAX_SCRIPT_ELEMENT_SIZE then False
               else HasValidOps it')"

definition IsUnspendable :: "bytes \<Rightarrow> bool" where
  "IsUnspendable script \<longleftrightarrow>
     (length script > 0 \<and> unat (script ! 0) = OP_RETURN) \<or> length script > MAX_SCRIPT_SIZE"

fun Find_loop :: "opcodetype \<Rightarrow> bytes \<Rightarrow> nat \<Rightarrow> nat" where
  "Find_loop op pc nFound =
     (if pc = [] then nFound
      else case GetOp pc of
             None \<Rightarrow> nFound
           | Some (pc', opcode, vch) \<Rightarrow> Find_loop op pc' (if opcode = op then nFound + 1 else nFound))"

definition Find :: "bytes \<Rightarrow> opcodetype \<Rightarrow> nat" where
  "Find script op = Find_loop op script 0"

text \<open>
  \<open>skip_matches\<close> is the inner loop of \<^verbatim>\<open>FindAndDelete\<close>; the first conjunct of its guard always holds
  there, since \<^verbatim>\<open>FindAndDelete\<close> returns at once for an empty pattern.
\<close>

function skip_matches :: "bytes \<Rightarrow> bytes \<Rightarrow> nat \<Rightarrow> bytes \<times> nat" where
  "skip_matches b pc nFound =
     (if b \<noteq> [] \<and> length pc \<ge> length b \<and> take (length b) pc = b
      then skip_matches b (drop (length b) pc) (nFound + 1)
      else (pc, nFound))"
  by pat_completeness auto
termination by (relation "measure (\<lambda>(b, pc, nFound). length pc)") (auto intro!: diff_less)

lemma skip_matches_shorter: "skip_matches b pc n = (pc', n') \<Longrightarrow> length pc' \<le> length pc"
proof (induction b pc n rule: skip_matches.induct)
  case (1 b pc n)
  then show ?case
    by (auto simp: skip_matches.simps[of b pc n] split: if_splits)
qed

function FindAndDelete_loop :: "bytes \<Rightarrow> bytes \<Rightarrow> bytes \<Rightarrow> bytes \<Rightarrow> nat \<Rightarrow> bytes \<times> nat \<times> bytes" where
  "FindAndDelete_loop b pc2 pc result nFound =
     (case skip_matches b pc nFound of
        (pc1, nFound') \<Rightarrow>
          (case GetOp pc1 of
             None \<Rightarrow> (result @ take (length pc2 - length pc) pc2, nFound', pc1)
           | Some (pc', opcode, vch) \<Rightarrow>
               FindAndDelete_loop b pc1 pc' (result @ take (length pc2 - length pc) pc2) nFound'))"
  by pat_completeness auto
termination
  by (relation "measure (\<lambda>(b, pc2, pc, result, nFound). length pc)")
    (auto simp del: skip_matches.simps dest!: GetOp_shorter skip_matches_shorter[OF sym])

definition FindAndDelete :: "bytes \<Rightarrow> bytes \<Rightarrow> bytes \<times> nat" where
  "FindAndDelete script b =
     (if b = [] then (script, 0)
      else case FindAndDelete_loop b script script [] 0 of
             (result, nFound, pc2) \<Rightarrow>
               if nFound > 0 then (result @ pc2, nFound) else (script, nFound))"

declare GetSigOpCount_loop.simps [simp del] last_push.simps [simp del] IsPushOnly.simps [simp del]
  HasValidOps.simps [simp del] Find_loop.simps [simp del] skip_matches.simps [simp del]
  FindAndDelete_loop.simps [simp del]

section \<open>Script numbers: values and round trips\<close>

lemma set_vch_loop_val:
  "unat r < 256 ^ i \<Longrightarrow> i + length bs \<le> 8 \<Longrightarrow>
     unat (set_vch_loop i r bs) = unat r + 256 ^ i * le_nat bs"
proof (induction bs arbitrary: i r)
  case (Cons b bs)
  let ?r = "r OR push_bit (8 * i) (ucast b) :: u64"
  from Cons.prems have r: "unat ?r = unat r + 256 ^ i * unat b" by (simp add: unat_or_push_bit)
  have "256 ^ i * unat b \<le> 256 ^ i * 255" using unat_byte_less[of b] by (intro mult_left_mono) linarith+
  with Cons.prems(1) have "unat ?r < 256 ^ Suc i" unfolding r power_Suc by linarith
  then have "unat (set_vch_loop (Suc i) ?r bs) = unat ?r + 256 ^ Suc i * le_nat bs"
    using Cons.prems(2) by (intro Cons.IH) simp_all
  with r show ?case by (simp add: algebra_simps)
qed simp

lemma set_vch_val:
  assumes "vch \<noteq> []" and "length vch \<le> 8"
  shows "set_vch vch =
    (if 128 \<le> unat (last vch) then - (int (le_nat vch) - 128 * 256 ^ (length vch - 1))
     else int (le_nat vch))"
proof -
  obtain xs x where v: "vch = xs @ [x]" using assms(1) by (meson rev_exhaust)
  let ?n = "length xs"
  let ?r = "set_vch_loop 0 0 vch"
  have n: "?n < 8" using assms(2) v by simp
  have r: "unat ?r = le_nat xs + 256 ^ ?n * unat x"
    using set_vch_loop_val[of 0 0 vch] assms(2) by (simp add: v le_nat_append)
  have ri: "int (unat ?r) = int (le_nat xs) + 256 ^ ?n * int (unat x)"
    using arg_cong[OF r, of int] by simp
  have lt: "le_nat xs < 2 ^ (8 * ?n)" using le_nat_less[of xs] by (simp add: power_mult)
  show ?thesis
  proof (cases "128 \<le> unat x")
    case False
    have "256 ^ ?n * unat x \<le> 256 ^ ?n * 127" using False by (intro mult_left_mono) simp_all
    then have "unat ?r < 128 * 256 ^ ?n" using le_nat_less[of xs] unfolding r by linarith
    also have "\<dots> \<le> 128 * 256 ^ 7" using n by (intro mult_left_mono power_increasing) simp_all
    finally have "unat ?r < 2 ^ 63" by simp
    then have "sint ?r = int (unat ?r)" by (rule sint_eq_unat)
    then show ?thesis using False byte_and_0x80[of x]
      using ri by (simp add: set_vch_def v le_nat_append Let_def)
  next
    case True
    let ?p = "push_bit (8 * ?n) 0x80 :: u64"
    have pb: "?p = 2 ^ (8 * ?n + 7)" by (simp add: push_bit_eq_mult power_add)
    have up: "unat ?p = 128 * 256 ^ ?n"
    proof -
      have "unat (2 ^ (8 * ?n + 7) :: u64) = 2 ^ (8 * ?n + 7)" using n by (intro unat_u64_exp) simp
      then show ?thesis unfolding pb by (simp add: power_add power_mult)
    qed
    have "unat ?r div 2 ^ (8 * ?n) = unat x"
      using lt unfolding r by (simp add: power_mult)
    then have "unat ?r div 2 ^ (8 * ?n + 7) = unat x div 128"
      by (simp add: power_add div_mult2_eq)
    also have "\<dots> = 1" using True unat_byte_less[of x] by (simp del: unat_byte_less)
    finally have "bit (unat ?r) (8 * ?n + 7)" by (simp only: bit_iff_odd) simp
    then have bit: "bit ?r (8 * ?n + 7)" by (simp add: bit_unsigned_iff)
    have "NOT ?r AND ?p = 0"
      by (rule bit_eqI) (auto simp: pb bit_simps bit)
    then have e: "?r AND NOT ?p = ?r - ?p" by (simp add: disjunctive_diff_eq_and_not)
    have ge: "unat ?p \<le> unat ?r" using True unfolding up r by (simp add: trans_le_add2)
    have "unat x \<le> 255" using unat_byte_less[of x] by linarith
    then have le: "256 ^ ?n * unat x \<le> 256 ^ ?n * 255" by (intro mult_left_mono) simp_all
    have ud: "unat (?r - ?p) = unat ?r - 128 * 256 ^ ?n"
      using ge by (simp add: unat_sub word_le_nat_alt up)
    also have "\<dots> < 128 * 256 ^ ?n" using le le_nat_less[of xs] unfolding r by linarith
    also have "\<dots> \<le> 128 * 256 ^ 7" using n by (intro mult_left_mono power_increasing) simp_all
    finally have "unat (?r - ?p) < 2 ^ 63" by simp
    then have "sint (?r - ?p) = int (unat ?r) - 128 * 256 ^ ?n"
      using ge ud by (simp add: sint_eq_unat up)
    then show ?thesis using True byte_and_0x80[of x]
      using ri e by (simp add: set_vch_def v Let_def le_nat_append)
  qed
qed

lemma abs_bytes_0 [simp]: "abs_bytes 0 = []"
  by (simp add: abs_bytes.simps)

lemma abs_bytes_Nil_iff [simp]: "abs_bytes n = [] \<longleftrightarrow> n = 0"
  by (subst abs_bytes.simps) simp

lemma le_nat_abs_bytes [simp]: "le_nat (abs_bytes n) = n"
proof (induction n rule: abs_bytes.induct)
  case (1 n)
  then show ?case by (subst abs_bytes.simps) simp
qed

lemma abs_bytes_le_nat: "bs = [] \<or> last bs \<noteq> 0 \<Longrightarrow> abs_bytes (le_nat bs) = bs"
proof (induction bs)
  case (Cons b bs)
  have pos: "0 < le_nat (b # bs)"
  proof (cases bs)
    case Nil
    with Cons.prems show ?thesis by (simp add: unat_gt_0)
  next
    case (Cons c cs)
    with Cons.prems Cons.IH have "abs_bytes (le_nat bs) = bs" by simp
    with Cons have "le_nat bs \<noteq> 0" by (metis abs_bytes_Nil_iff list.distinct(1))
    then show ?thesis by simp
  qed
  have "abs_bytes (le_nat bs) = bs" using Cons by (cases bs) auto
  moreover have "le_bytes (length (b # bs)) (le_nat (b # bs)) = b # bs" by (rule le_bytes_le_nat)
  then have "(word_of_nat (le_nat (b # bs)) :: byte) = b" by simp
  moreover have "le_nat (b # bs) div 256 = le_nat bs" by simp
  ultimately show ?case using pos by (subst abs_bytes.simps) (simp del: le_nat.simps)
qed simp

lemma last_abs_bytes: "0 < n \<Longrightarrow> last (abs_bytes n) \<noteq> 0"
proof (induction n rule: abs_bytes.induct)
  case (1 n)
  show ?case
  proof (cases "n div 256 = 0")
    case True
    then have "n < 256" by (simp add: div_eq_0_iff)
    then have "unat (word_of_nat n :: byte) = n" by simp
    then have "(word_of_nat n :: byte) \<noteq> 0" using 1(2) by (metis less_irrefl unat_0)
    moreover have "abs_bytes n = [word_of_nat n]" using 1(2) True by (subst abs_bytes.simps) simp
    ultimately show ?thesis by simp
  next
    case False
    with 1 show ?thesis by (subst abs_bytes.simps) simp
  qed
qed

lemma length_abs_bytes_le: "n < 256 ^ k \<Longrightarrow> length (abs_bytes n) \<le> k"
proof (induction k arbitrary: n)
  case (Suc k)
  then have "n div 256 < 256 ^ k" by (simp add: div_less_iff_less_mult algebra_simps)
  with Suc.IH show ?case by (subst abs_bytes.simps) simp
qed simp

lemma abs_bytes_ge: "0 < n \<Longrightarrow> 256 ^ (length (abs_bytes n) - 1) * unat (last (abs_bytes n)) \<le> n"
proof -
  assume "0 < n"
  then have "abs_bytes n = butlast (abs_bytes n) @ [last (abs_bytes n)]" by simp
  then have "n = le_nat (butlast (abs_bytes n) @ [last (abs_bytes n)])" by (metis le_nat_abs_bytes)
  then show ?thesis by (simp add: le_nat_append)
qed

lemma length_serialize_le:
  assumes "\<bar>v\<bar> < 128 * 256 ^ k"
  shows "length (serialize v) \<le> Suc k"
proof (cases "v = 0")
  case True
  then show ?thesis by (simp add: serialize_def)
next
  case False
  let ?n = "nat \<bar>v\<bar>" and ?r = "abs_bytes (nat \<bar>v\<bar>)"
  have "int ?n < int (128 * 256 ^ k)" using assms by simp
  then have n: "?n < 128 * 256 ^ k" by (simp only: of_nat_less_iff)
  then have "?n < 256 ^ Suc k" by simp
  then have l: "length ?r \<le> Suc k" by (rule length_abs_bytes_le)
  have "length ?r \<le> k" if "128 \<le> unat (last ?r)"
  proof (rule ccontr)
    assume "\<not> length ?r \<le> k"
    with l have "length ?r - 1 = k" by simp
    then have "256 ^ k * unat (last ?r) \<le> ?n" using abs_bytes_ge[of ?n] False by simp
    moreover have "256 ^ k * 128 \<le> 256 ^ k * unat (last ?r)" using that by (intro mult_left_mono) simp_all
    ultimately show False using n by linarith
  qed
  with l False show ?thesis
    by (auto simp: serialize_def Let_def byte_and_0x80[simplified])
qed

lemma last_butlast_or:
  "xs \<noteq> [] \<Longrightarrow> unat (last xs) < 128 \<Longrightarrow>
    le_nat (butlast xs @ [last xs OR 0x80]) = le_nat xs + 128 * 256 ^ (length xs - 1)"
proof -
  assume "xs \<noteq> []" "unat (last xs) < 128"
  then show ?thesis
    by (cases xs rule: rev_cases) (simp_all add: le_nat_append byte_or_0x80 algebra_simps)
qed

theorem set_vch_serialize:
  assumes "\<bar>v\<bar> < 2 ^ 63"
  shows "set_vch (serialize v) = v"
proof (cases "v = 0")
  case True
  then show ?thesis by (simp add: serialize_def set_vch_def)
next
  case False
  let ?n = "nat \<bar>v\<bar>" and ?r = "abs_bytes (nat \<bar>v\<bar>)"
  have r: "?r \<noteq> []" using False by simp
  have len: "length (serialize v) \<le> 8" using length_serialize_le[of v 7] assms by simp
  have ne: "serialize v \<noteq> []" using r False by (auto simp: serialize_def Let_def)
  show ?thesis
  proof (cases "128 \<le> unat (last ?r)")
    case True
    then have "serialize v = ?r @ [if v < 0 then 0x80 else 0]"
      using False by (simp add: serialize_def Let_def byte_and_0x80[simplified])
    then show ?thesis using len ne by (simp add: set_vch_val le_nat_append)
  next
    case low: False
    show ?thesis
    proof (cases "v < 0")
      case True
      then have "serialize v = butlast ?r @ [last ?r OR 0x80]"
        using False low by (simp add: serialize_def Let_def byte_and_0x80[simplified])
      moreover have "unat (last ?r OR 0x80) = unat (last ?r) + 128" using low by (intro byte_or_0x80) simp
      ultimately show ?thesis using len ne low r True
        by (simp add: set_vch_val last_butlast_or)
    next
      case nn: False
      then have "serialize v = ?r"
        using False low by (simp add: serialize_def Let_def byte_and_0x80[simplified])
      then show ?thesis using len ne low nn by (simp add: set_vch_val)
    qed
  qed
qed

lemma set_vch_bound:
  assumes "length vch \<le> Suc k" and "k < 8"
  shows "\<bar>set_vch vch\<bar> < 128 * 256 ^ k"
proof (cases "vch = []")
  case True
  then show ?thesis by (simp add: set_vch_def)
next
  case False
  then obtain xs x where v: "vch = xs @ [x]" by (meson rev_exhaust)
  let ?n = "length xs"
  have n: "?n \<le> k" using assms(1) v by simp
  have xs: "int (le_nat xs) < 256 ^ ?n"
    using le_nat_less[of xs] by (metis of_nat_less_iff of_nat_numeral of_nat_power)
  have le: "(256::int) ^ ?n \<le> 256 ^ k" using n by (intro power_increasing) simp_all
  have val: "set_vch vch = (if 128 \<le> unat x
      then - (int (le_nat xs) + 256 ^ ?n * (int (unat x) - 128))
      else int (le_nat xs) + 256 ^ ?n * int (unat x))"
    using set_vch_val[of vch] assms n v by (simp add: le_nat_append algebra_simps)
  define y where "y = (if 128 \<le> unat x then int (unat x) - 128 else int (unat x))"
  have y: "0 \<le> y" "y \<le> 127" unfolding y_def using unat_byte_less[of x] by (auto simp del: unat_byte_less)
  have "256 ^ ?n * y \<le> 256 ^ ?n * (127::int)" using y by (intro mult_left_mono) simp_all
  then have "int (le_nat xs) + 256 ^ ?n * y < 128 * 256 ^ k" using xs le by linarith
  moreover have "0 \<le> int (le_nat xs) + 256 ^ ?n * y" using y by simp
  moreover have "set_vch vch = (if 128 \<le> unat x then - (int (le_nat xs) + 256 ^ ?n * y)
      else int (le_nat xs) + 256 ^ ?n * y)"
    unfolding val y_def by simp
  ultimately show ?thesis by (cases "128 \<le> unat x") simp_all
qed

lemma serialize_cases:
  assumes "v \<noteq> 0"
  obtains (pad) r where "r = abs_bytes (nat \<bar>v\<bar>)" "r \<noteq> []" "128 \<le> unat (last r)"
      "serialize v = r @ [if v < 0 then 0x80 else 0]"
    | (neg) r where "r = abs_bytes (nat \<bar>v\<bar>)" "r \<noteq> []" "unat (last r) < 128" "last r \<noteq> 0" "v < 0"
      "serialize v = butlast r @ [last r OR 0x80]"
    | (pos) r where "r = abs_bytes (nat \<bar>v\<bar>)" "r \<noteq> []" "unat (last r) < 128" "last r \<noteq> 0" "0 < v"
      "serialize v = r"
proof -
  let ?r = "abs_bytes (nat \<bar>v\<bar>)"
  have r: "?r \<noteq> []" "last ?r \<noteq> 0" using assms by (simp_all add: last_abs_bytes)
  have s: "serialize v =
      (if 128 \<le> unat (last ?r) then ?r @ [if v < 0 then 0x80 else 0]
       else if v < 0 then butlast ?r @ [last ?r OR 0x80] else ?r)"
    using assms by (simp add: serialize_def Let_def byte_and_0x80[simplified])
  show ?thesis using that r s assms by (metis linorder_neqE_linordered_idom linorder_not_less)
qed

lemma serialize_minimal: "\<not> non_minimal (serialize v)"
proof (cases "v = 0")
  case True
  then show ?thesis by (simp add: serialize_def non_minimal_def)
next
  case False
  then show ?thesis
  proof (cases rule: serialize_cases)
    case (pad r)
    then have "(r @ [if v < 0 then 0x80 else 0]) ! (length (r @ [if v < 0 then 0x80 else 0]) - 2) = last r"
      by (simp add: nth_append last_conv_nth)
    with pad show ?thesis using byte_and_0x80[of "last r"] by (simp add: non_minimal_def)
  next
    case (neg r)
    then have "unat (last r) mod 128 \<noteq> 0" by (simp add: unat_gt_0)
    with neg show ?thesis by (simp add: non_minimal_def byte_and_0x7f byte_or_0x80)
  next
    case (pos r)
    then have "unat (last r) mod 128 \<noteq> 0" by (simp add: unat_gt_0)
    with pos show ?thesis by (simp add: non_minimal_def byte_and_0x7f)
  qed
qed

theorem serialize_set_vch:
  assumes "\<not> non_minimal vch" and "length vch \<le> 8"
  shows "serialize (set_vch vch) = vch"
proof (cases "vch = []")
  case True
  then show ?thesis by (simp add: set_vch_def serialize_def)
next
  case False
  then obtain xs x where v: "vch = xs @ [x]" by (meson rev_exhaust)
  let ?n = "length xs"
  define y where "y = unat x mod 128"
  define neg where "neg = (128 \<le> unat x)"
  have xy: "unat x = y + (if neg then 128 else 0)" and y: "y < 128"
    using unat_byte_less[of x] by (auto simp: y_def neg_def mod_if simp del: unat_byte_less)
  define m where "m = le_nat xs + 256 ^ ?n * y"
  have sv: "set_vch vch = (if neg then - int m else int m)"
  proof -
    have "set_vch vch = (if neg then - (int (le_nat vch) - 128 * 256 ^ (length vch - 1))
        else int (le_nat vch))"
      using set_vch_val[OF False assms(2)] v by (simp only: neg_def last_snoc)
    then show ?thesis by (cases neg) (simp_all add: v le_nat_append m_def xy algebra_simps)
  qed
  show ?thesis
  proof (cases "y = 0")
    case True
    then have "x AND 0x7f = 0" by (simp add: byte_and_0x7f y_def)
    with assms(1) v have xs: "xs \<noteq> []" "last xs AND 0x80 \<noteq> 0"
      by (auto simp: non_minimal_def nth_append last_conv_nth)
    then have l: "128 \<le> unat (last xs)" by (simp add: byte_and_0x80[simplified])
    then have "last xs \<noteq> 0" by auto
    then have a: "abs_bytes m = xs" using True by (simp add: m_def abs_bytes_le_nat)
    then have "m \<noteq> 0" using xs by auto
    moreover have "x = (if neg then 0x80 else 0)"
      using xy True by (simp add: word_unat_eq_iff)
    ultimately show ?thesis using sv a l xs v by (simp add: serialize_def Let_def)
  next
    case False
    define z :: byte where "z = word_of_nat y"
    have z: "unat z = y" using y by (simp add: z_def)
    then have zn: "z \<noteq> 0" "unat z < 128" using False y by auto
    have "le_nat (xs @ [z]) = m" by (simp add: le_nat_append m_def z)
    then have a: "abs_bytes m = xs @ [z]" using zn abs_bytes_le_nat[of "xs @ [z]"] by simp
    then have "m \<noteq> 0" by (cases "m = 0") simp_all
    moreover have "x = (if neg then z OR 0x80 else z)"
      using xy zn z by (simp add: word_unat_eq_iff byte_or_0x80)
    ultimately show ?thesis using sv a zn v by (simp add: serialize_def Let_def byte_and_0x80[simplified])
  qed
qed

lemma push_vector_append: "push_vector script b = script @ push_vector [] b"
  by (simp add: push_vector_def)

theorem GetOp_push_vector:
  assumes "length b < 2 ^ 32"
  shows "\<exists>opcode \<le> OP_PUSHDATA4. GetOp (push_vector [] b @ rest) = Some (rest, opcode, b)"
proof -
  consider "length b < 76" | "76 \<le> length b" "length b \<le> 255" | "256 \<le> length b" "length b \<le> 65535"
    | "65536 \<le> length b" by linarith
  then show ?thesis
  proof cases
    case 1
    then show ?thesis
      by (intro exI[of _ "length b"]) (simp add: push_vector_def GetOp_def GetOp2.simps(2))
  next
    case 2
    then show ?thesis
      by (intro exI[of _ OP_PUSHDATA1]) (simp add: push_vector_def GetOp_def GetOp2.simps(2))
  next
    case 3
    then have "unat (ReadLE16 (WriteLE16 (of_nat (length b)) @ b @ rest)) = length b"
      by (simp add: ReadLE_WriteLE unsigned_of_nat take_bit_nat_eq_self)
    with 3 show ?thesis
      by (intro exI[of _ OP_PUSHDATA2]) (simp add: push_vector_def GetOp_def GetOp2.simps(2))
  next
    case 4
    have "unat (ReadLE32 (WriteLE32 (of_nat (length b)) @ b @ rest)) = length b" using assms
      by (simp add: ReadLE_WriteLE unsigned_of_nat take_bit_nat_eq_self)
    with 4 show ?thesis
      by (intro exI[of _ OP_PUSHDATA4]) (simp add: push_vector_def GetOp_def GetOp2.simps(2))
  qed
qed

lemma skip_matches_length:
  "skip_matches b pc n = (pc', n') \<Longrightarrow> length pc' + n' * length b = length pc + n * length b \<and> n \<le> n'"
proof (induction b pc n rule: skip_matches.induct)
  case (1 b pc n)
  then show ?case
    by (auto simp: skip_matches.simps[of b pc n] algebra_simps split: if_splits)
qed

lemma FindAndDelete_loop_length:
  "FindAndDelete_loop b pc2 pc result n = (result', n', pc') \<Longrightarrow> length pc \<le> length pc2 \<Longrightarrow>
     length result' + length pc' + n' * length b = length result + length pc2 + n * length b"
proof (induction b pc2 pc result n rule: FindAndDelete_loop.induct)
  case (1 b pc2 pc result n)
  obtain pc1 n1 where s: "skip_matches b pc n = (pc1, n1)" by (cases "skip_matches b pc n")
  note l = skip_matches_length[OF s]
  show ?case
  proof (cases "GetOp pc1")
    case None
    with 1(2,3) s l show ?thesis by (auto simp: FindAndDelete_loop.simps[of b pc2 pc])
  next
    case (Some a)
    then obtain p q r where a: "GetOp pc1 = Some (p, q, r)" by (cases a) auto
    then have "length p \<le> length pc1" using GetOp_shorter by fastforce
    with 1 s a l show ?thesis by (fastforce simp: FindAndDelete_loop.simps[of b pc2 pc])
  qed
qed

theorem FindAndDelete_length:
  "FindAndDelete script b = (script', nFound) \<Longrightarrow>
     length script = length script' + nFound * length b \<and> (nFound = 0 \<longrightarrow> script' = script)"
  by (auto simp: FindAndDelete_def dest: FindAndDelete_loop_length split: if_splits prod.splits)

section \<open>Properties\<close>

text \<open>
  C16: Script numbers have exactly one minimal encoding.  With the minimality requirement the
  byte constructor of \<^verbatim>\<open>CScriptNum\<close> accepts a byte string as the number \<open>v\<close>, for any size
  limit of at most 8 bytes, exactly when the string is what \<^verbatim>\<open>serialize\<close> produces for \<open>v\<close> and
  fits the limit.
\<close>
theorem script_number_codec:
  assumes "nMaxNumSize \<le> 8"
  shows "CScriptNum vch True nMaxNumSize = Inr v \<longleftrightarrow>
     \<bar>v\<bar> < 2 ^ 63 \<and> vch = serialize v \<and> length vch \<le> nMaxNumSize"
proof
  assume a: "CScriptNum vch True nMaxNumSize = Inr v"
  then have v: "length vch \<le> nMaxNumSize" "\<not> non_minimal vch" "v = set_vch vch"
    by (auto simp: CScriptNum_def split: if_splits)
  then have "\<bar>v\<bar> < 2 ^ 63"
    using set_vch_bound [of vch 7] assms by simp
  with v show "\<bar>v\<bar> < 2 ^ 63 \<and> vch = serialize v \<and> length vch \<le> nMaxNumSize"
    using serialize_set_vch [of vch] assms by simp
next
  assume "\<bar>v\<bar> < 2 ^ 63 \<and> vch = serialize v \<and> length vch \<le> nMaxNumSize"
  then show "CScriptNum vch True nMaxNumSize = Inr v"
    using serialize_minimal [of v] set_vch_serialize [of v] by (auto simp: CScriptNum_def)
qed

theorem script_number_codec_witness:
  "CScriptNum [0xff, 0x80] True 4 = Inr (- 255) \<and> serialize (- 255) = [0xff, 0x80]"
proof -
  have "serialize (- 255) = [0xff, 0x80]" by code_simp
  then show ?thesis using script_number_codec [of 4 "[0xff, 0x80]" "- 255"] by simp
qed

text \<open>
  Pushing data onto a script and reading it back is the identity: \<^verbatim>\<open>GetOp\<close> at a push made by
  \<^verbatim>\<open>operator<<\<close> returns the pushed bytes under a push opcode and stops exactly after them.
\<close>
theorem GetOp_after_push:
  assumes "length b < 2 ^ 32"
  shows "\<exists>opcode \<le> OP_PUSHDATA4. GetOp (push_vector [] b @ rest) = Some (rest, opcode, b)"
  using GetOp_push_vector [OF assms] .

theorem GetOp_after_push_witness:
  "\<exists>opcode \<le> OP_PUSHDATA4. GetOp (push_vector [] (replicate 80 7) @ [0xac]) = Some ([0xac], opcode, replicate 80 7)"
  using GetOp_after_push [of "replicate 80 7" "[0xac]"] by simp

text \<open>
  \<^verbatim>\<open>FindAndDelete\<close> removes exactly \<open>nFound\<close> copies: the lengths add up, and a script without a
  match is returned unchanged.
\<close>
theorem FindAndDelete_accounts:
  assumes "FindAndDelete script b = (script', nFound)"
  shows "length script = length script' + nFound * length b \<and> (nFound = 0 \<longrightarrow> script' = script)"
  using FindAndDelete_length [OF assms] .

theorem FindAndDelete_accounts_witness:
  "FindAndDelete [0x51, 0x01, 0x51, 0x51, 0x52] [0x51] = ([0x01, 0x51, 0x52], 2) \<and>
   length [0x51::byte, 0x01, 0x51, 0x51, 0x52] = length [0x01::byte, 0x51, 0x52] + 2 * length [0x51::byte]"
proof -
  have "FindAndDelete [0x51, 0x01, 0x51, 0x51, 0x52] [0x51] = ([0x01, 0x51, 0x52], 2)" by code_simp
  then show ?thesis using FindAndDelete_accounts by blast
qed

end
