(* ===== verification/Hasher.thy ===== *)
theory Hasher
  imports Common
begin

text \<open>
  The block-buffering discipline that \<^verbatim>\<open>CSHA1\<close>, \<^verbatim>\<open>CSHA256\<close>, \<^verbatim>\<open>CSHA512\<close> and
  \<^verbatim>\<open>CRIPEMD160\<close> of \<^verbatim>\<open>src/crypto\<close> share: a chaining state, a block buffer and a 64-bit
  count of the bytes written.  The locale proves, for any block size that divides
  \<open>2 ^ 64\<close> and any compression function, that feeding a message in arbitrary pieces
  leaves the hasher in the state determined by the concatenated message; the hash
  theories interpret it with their own \<^verbatim>\<open>Transform\<close>.
\<close>

unbundle bit_operations_syntax

lemma length_concat_map_const: "(\<And>x. length (f x) = k) \<Longrightarrow> length (concat (map f xs)) = length xs * k"
  by (induction xs) simp_all

section \<open>Rotations written with shifts\<close>

lemma rotr_drop_push:
  fixes x :: "'a::len word"
  assumes "0 < n" "n < LENGTH('a)" "m = LENGTH('a) - n"
  shows "drop_bit n x OR push_bit m x = word_rotr n x"
proof (rule bit_eqI)
  fix k assume "possible_bit TYPE('a word) k"
  then have k: "k < LENGTH('a)" by simp
  have "(k + n) mod LENGTH('a) = (if k + n < LENGTH('a) then k + n else k - m)"
    using assms k by (auto simp: mod_if)
  with assms k show "bit (drop_bit n x OR push_bit m x) k = bit (word_rotr n x) k"
    by (auto simp: bit_simps add.commute dest: bit_imp_le_length)
qed

lemma rotl_push_drop:
  fixes x :: "'a::len word"
  assumes "0 < n" "n < LENGTH('a)" "m = LENGTH('a) - n"
  shows "push_bit n x OR drop_bit m x = word_rotl n x"
proof -
  have "word_rotl n x = word_rotr m x"
    using assms by (intro bit_eqI) (simp add: bit_simps)
  moreover have "drop_bit m x OR push_bit n x = word_rotr m x"
    by (rule rotr_drop_push) (use assms in auto)
  ultimately show ?thesis by (simp only: or.commute)
qed

lemma choose_xor_form: "z XOR (x AND (y XOR z)) = (x AND y) XOR (NOT x AND (z :: 'a::len word))"
  by (rule bit_eqI) (auto simp: bit_simps)

lemma choose_or_form: "(x AND y) OR (NOT x AND z) = (x AND y) XOR (NOT x AND (z :: 'a::len word))"
  by (rule bit_eqI) (auto simp: bit_simps)

lemma majority_or_form:
  "(x AND y) OR (z AND (x OR y)) = (x AND y) XOR (x AND z) XOR (y AND (z :: 'a::len word))"
  by (rule bit_eqI) (auto simp: bit_simps)

section \<open>The hasher object\<close>

record 'w hasher =
  hs :: "'w list"
  hbuf :: bytes
  hbytes :: u64

definition memcpy_at :: "bytes \<Rightarrow> nat \<Rightarrow> bytes \<Rightarrow> bytes" where
  "memcpy_at b off d = take off b @ d @ drop (off + length d) b"

text \<open>The loop \<^verbatim>\<open>while (end >= data + B)\<close> over whole blocks of the input.\<close>

fun full_blocks :: "nat \<Rightarrow> ('w list \<Rightarrow> bytes \<Rightarrow> 'w list) \<Rightarrow> 'w hasher \<Rightarrow> bytes \<Rightarrow> 'w hasher \<times> bytes" where
  "full_blocks B tr h data =
     (if 0 < B \<and> B \<le> length data
      then full_blocks B tr (h\<lparr>hs := tr (hs h) (take B data), hbytes := hbytes h + of_nat B\<rparr>) (drop B data)
      else (h, data))"

declare full_blocks.simps [simp del]

definition hasher_Write :: "nat \<Rightarrow> ('w list \<Rightarrow> bytes \<Rightarrow> 'w list) \<Rightarrow> bytes \<Rightarrow> 'w hasher \<Rightarrow> 'w hasher" where
  "hasher_Write B tr data h =
     (let bufsize = unat (hbytes h) mod B;
          (h, data, bufsize) =
            (if bufsize \<noteq> 0 \<and> bufsize + length data \<ge> B
             then let b = memcpy_at (hbuf h) bufsize (take (B - bufsize) data)
                  in (h\<lparr>hbuf := b, hbytes := hbytes h + of_nat (B - bufsize), hs := tr (hs h) b\<rparr>,
                      drop (B - bufsize) data, 0)
             else (h, data, bufsize));
          (h, data) = full_blocks B tr h data
      in if data \<noteq> []
         then h\<lparr>hbuf := memcpy_at (hbuf h) bufsize data, hbytes := hbytes h + of_nat (length data)\<rparr>
         else h)"

section \<open>Specification: blocks of a message\<close>

fun chunks :: "nat \<Rightarrow> 'a list \<Rightarrow> 'a list list" where
  "chunks n xs = (if 0 < n \<and> n \<le> length xs then take n xs # chunks n (drop n xs) else [])"

declare chunks.simps [simp del]

lemma chunks_short [simp]: "length xs < n \<Longrightarrow> chunks n xs = []"
  by (subst chunks.simps) simp

lemma chunks_append:
  "n dvd length xs \<Longrightarrow> 0 < n \<Longrightarrow> chunks n (xs @ ys) = chunks n xs @ chunks n ys"
proof (induction n xs rule: chunks.induct)
  case (1 n xs)
  show ?case
  proof (cases "n \<le> length xs")
    case True
    then have "n dvd length (drop n xs)" using 1(2) by simp
    with True 1 show ?thesis by (simp add: chunks.simps [of n "xs @ ys"] chunks.simps [of n xs])
  next
    case False
    with 1 have "xs = []" by (auto dest: dvd_imp_le)
    with 1(3) show ?thesis by simp
  qed
qed

lemma chunks_single: "length xs = n \<Longrightarrow> 0 < n \<Longrightarrow> chunks n xs = [xs]"
  by (subst chunks.simps) simp

text \<open>The state a hasher has after absorbing the message \<open>m\<close> from the initial words
  \<open>s\<^sub>0\<close>: the whole blocks compressed, the rest in the buffer, the length modulo \<open>2 ^ 64\<close>.\<close>

definition absorbed :: "nat \<Rightarrow> ('w list \<Rightarrow> bytes \<Rightarrow> 'w list) \<Rightarrow> 'w list \<Rightarrow> bytes \<Rightarrow> 'w hasher \<Rightarrow> bool" where
  "absorbed B tr s0 m h \<longleftrightarrow>
     hbytes h = of_nat (length m) \<and> length (hbuf h) = B \<and>
     hs h = foldl tr s0 (chunks B m) \<and>
     take (length m mod B) (hbuf h) = drop (length m div B * B) m"

section \<open>Padding\<close>

text \<open>The first bytes of the static array \<^verbatim>\<open>pad[B] = {0x80}\<close>, and the padded message of the
  specification: a one bit, zeros up to the length field, the length field.\<close>

definition pad_array :: "nat \<Rightarrow> bytes" where
  "pad_array B = 0x80 # replicate (B - 1) 0"

definition md_pad :: "nat \<Rightarrow> bytes \<Rightarrow> bytes \<Rightarrow> bytes" where
  "md_pad B szd m = m @ 0x80 # replicate ((2 * B - length szd - 1 - length m mod B) mod B) 0 @ szd"

lemma md_pad_take:
  assumes "k = (2 * B - length szd - 1 - length m mod B) mod B" "0 < B"
  shows "md_pad B szd m = m @ take (1 + k) (pad_array B) @ szd"
proof -
  have "k < B" using assms by simp
  then show ?thesis unfolding md_pad_def pad_array_def assms(1) [symmetric] by simp
qed

lemma md_pad_length:
  assumes "length szd < B"
  shows "B dvd length (md_pad B szd m)"
proof -
  define k where "k = 2 * B - length szd - 1 - length m mod B"
  have "length m mod B < B" using assms by (intro mod_less_divisor) simp
  then have "length szd + 1 + length m mod B + k = 2 * B" using assms unfolding k_def by linarith
  moreover have "length m = length m div B * B + length m mod B" by simp
  ultimately have "length szd + 1 + length m + k = length m div B * B + 2 * B" by linarith
  then have "length szd + 1 + length m + k = (length m div B + 2) * B" by (simp only: add_mult_distrib)
  then have "(length szd + 1 + length m + k) mod B = 0" by (simp only: mod_mult_self2_is_0)
  then have "(length szd + 1 + length m + k mod B) mod B = 0" by (simp only: mod_add_right_eq)
  then show ?thesis unfolding md_pad_def k_def [symmetric] by (simp add: dvd_eq_mod_eq_0 ac_simps)
qed

locale block_hash =
  fixes B :: nat and tr :: "'w list \<Rightarrow> bytes \<Rightarrow> 'w list"
  assumes B_pos: "0 < B" and B_dvd: "B dvd 2 ^ 64"
begin

lemma full_blocks_eq:
  "full_blocks B tr h data =
     (h\<lparr>hs := foldl tr (hs h) (chunks B data),
        hbytes := hbytes h + of_nat (length data div B * B)\<rparr>, drop (length data div B * B) data)"
proof (induction B tr h data rule: full_blocks.induct)
  case (1 B tr h data)
  show ?case
  proof (cases "0 < B \<and> B \<le> length data")
    case True
    have k: "length data div B * B = B + (length data - B) div B * B"
      using True by (simp add: le_div_geq)
    show ?thesis unfolding k
      by (subst full_blocks.simps, subst chunks.simps) (simp add: True 1 [OF True] add.commute [of B])
  next
    case False
    then show ?thesis by (subst full_blocks.simps, subst chunks.simps) auto
  qed
qed

lemma unat_hbytes_mod: "unat (of_nat n :: u64) mod B = n mod B"
  using B_dvd by (simp add: unsigned_of_nat take_bit_eq_mod mod_mod_cancel)

lemma div_mult_append: "B dvd length xs \<Longrightarrow> length ys < B \<Longrightarrow>
   length (xs @ ys) div B * B = length xs \<and> length (xs @ ys) mod B = length ys"
  using B_pos by auto

lemma absorb_split:
  obtains c r where "m = c @ r" "B dvd length c" "length r < B"
proof
  show "m = take (length m div B * B) m @ drop (length m div B * B) m" by simp
  show "B dvd length (take (length m div B * B) m)" by simp
  show "length (drop (length m div B * B) m) < B"
    using B_pos by (simp add: minus_div_mult_eq_mod)
qed

text \<open>Writing whole blocks and a remainder to a hasher with an empty buffer.\<close>

lemma write_aligned:
  fixes d :: bytes
  assumes "B dvd length c" and "absorbed B tr s0 c h"
  defines "p \<equiv> full_blocks B tr h d"
  shows "absorbed B tr s0 (c @ d)
    (if snd p \<noteq> [] then fst p\<lparr>hbuf := memcpy_at (hbuf (fst p)) 0 (snd p),
        hbytes := hbytes (fst p) + of_nat (length (snd p))\<rparr> else fst p)"
proof -
  obtain e r where d: "d = e @ r" and e: "B dvd length e" and r: "length r < B"
    by (rule absorb_split)
  have k: "length d div B * B = length e" using div_mult_append [OF e r] d by simp
  have ch: "chunks B (c @ d) = chunks B c @ chunks B d" using assms B_pos by (simp add: chunks_append)
  have ln: "length (c @ d) div B * B = length c + length e" "length (c @ d) mod B = length r"
    using div_mult_append [of "c @ e" r] assms(1) d e r by simp_all
  from assms(2) have h: "hbytes h = of_nat (length c)" "length (hbuf h) = B"
    "hs h = foldl tr s0 (chunks B c)" by (simp_all add: absorbed_def)
  have p: "p = (h\<lparr>hs := foldl tr s0 (chunks B (c @ d)), hbytes := of_nat (length c + length e)\<rparr>, r)"
    unfolding p_def full_blocks_eq k ch by (simp add: h d)
  show ?thesis unfolding absorbed_def ln p using r h d by (simp add: memcpy_at_def)
qed

theorem Write_absorbed:
  assumes "absorbed B tr s0 m h"
  shows "absorbed B tr s0 (m @ data) (hasher_Write B tr data h)"
proof -
  obtain c r where m: "m = c @ r" and c: "B dvd length c" and r: "length r < B"
    by (rule absorb_split)
  have k: "length m div B * B = length c" "length m mod B = length r"
    using div_mult_append [OF c r] m by simp_all
  have chm: "chunks B m = chunks B c" using m c r B_pos by (simp add: chunks_append)
  from assms have h: "hbytes h = of_nat (length m)" "length (hbuf h) = B"
    "hs h = foldl tr s0 (chunks B c)" "take (length r) (hbuf h) = r"
    unfolding absorbed_def k chm by (simp_all add: m)
  have bs: "unat (hbytes h) mod B = length r" using h k unat_hbytes_mod by simp
  consider (empty) "r = []" | (fill) "r \<noteq> []" "length r + length data \<ge> B"
    | (keep) "r \<noteq> []" "length r + length data < B" by linarith
  then show ?thesis
  proof cases
    case empty
    then have "B dvd length m" using m c by simp
    from write_aligned [OF this assms, of data] empty show ?thesis
      by (simp add: hasher_Write_def bs split_beta split: if_splits)
  next
    case fill
    define x where "x = take (B - length r) data"
    define y where "y = drop (B - length r) data"
    have xy: "data = x @ y" "length x = B - length r" using fill by (auto simp: x_def y_def)
    define b where "b = memcpy_at (hbuf h) (length r) x"
    have b: "b = r @ x" using h xy r by (simp add: b_def memcpy_at_def)
    define h1 where "h1 = h\<lparr>hbuf := b, hbytes := hbytes h + of_nat (B - length r), hs := tr (hs h) b\<rparr>"
    have lm: "length (m @ x) = length c + B" using m xy(2) r by simp
    then have dv: "B dvd length (m @ x)" using c by simp
    have "chunks B (m @ x) = chunks B c @ [b]" using m xy(2) r c B_pos b
      by (simp add: chunks_append chunks_single)
    then have "absorbed B tr s0 (m @ x) h1" using dv h b xy(2) r m
      by (simp add: absorbed_def h1_def)
    from write_aligned [OF dv this, of y]
    have "absorbed B tr s0 (m @ data) (let (h, d) = full_blocks B tr h1 y in
       if d \<noteq> [] then h\<lparr>hbuf := memcpy_at (hbuf h) 0 d, hbytes := hbytes h + of_nat (length d)\<rparr> else h)"
      by (simp add: xy(1) split_beta split: if_splits)
    moreover have "hasher_Write B tr data h = (let (h, d) = full_blocks B tr h1 y in
       if d \<noteq> [] then h\<lparr>hbuf := memcpy_at (hbuf h) 0 d, hbytes := hbytes h + of_nat (length d)\<rparr> else h)"
      using fill by (simp add: hasher_Write_def Let_def bs h1_def b_def x_def y_def)
    ultimately show ?thesis by simp
  next
    case keep
    then have kr: "length (r @ data) < B" by simp
    have ch: "chunks B (m @ data) = chunks B c" using m c kr B_pos by (simp add: chunks_append)
    have ln: "length (m @ data) div B * B = length c" "length (m @ data) mod B = length r + length data"
      using div_mult_append [OF c kr] m by simp_all
    have fb: "full_blocks B tr h data = (h, data)" using keep by (subst full_blocks.simps) simp
    have w: "hasher_Write B tr data h = (if data \<noteq> [] then h\<lparr>hbuf := memcpy_at (hbuf h) (length r) data,
        hbytes := hbytes h + of_nat (length data)\<rparr> else h)"
      using keep by (simp add: hasher_Write_def bs fb)
    show ?thesis unfolding absorbed_def ch ln w using keep h m
      by (simp add: memcpy_at_def)
  qed
qed

lemma absorbed_init: "length b = B \<Longrightarrow> absorbed B tr s0 [] \<lparr>hs = s0, hbuf = b, hbytes = 0\<rparr>"
  using B_pos by (simp add: absorbed_def)

lemma pad_absorbed:
  assumes "absorbed B tr s0 m h"
    and "k = (2 * B - length szd - 1 - unat (hbytes h) mod B) mod B"
  shows "md_pad B szd m = (m @ take (1 + k) (pad_array B)) @ szd"
proof -
  have "unat (hbytes h) mod B = length m mod B"
    using assms(1) unat_hbytes_mod by (simp add: absorbed_def)
  then show ?thesis using md_pad_take [of k B szd m] assms(2) B_pos by simp
qed

end

text \<open>A hasher class: its \<^verbatim>\<open>Write\<close> follows the discipline above, and its transform agrees with
  a specified compression function on chaining states of the right length.\<close>

locale hasher_class = block_hash B tr for B :: nat and tr :: "'w list \<Rightarrow> bytes \<Rightarrow> 'w list" +
  fixes Write :: "bytes \<Rightarrow> 'w hasher \<Rightarrow> 'w hasher"
    and compress :: "'w list \<Rightarrow> bytes \<Rightarrow> 'w list"
    and init :: "'w list"
  assumes Write_eq: "length (hbuf h) = B \<Longrightarrow> Write data h = hasher_Write B tr data h"
    and tr_compress: "length s = length init \<Longrightarrow> tr s c = compress s c"
    and length_compress: "length s = length init \<Longrightarrow> length (compress s c) = length init"
begin

abbreviation holds :: "bytes \<Rightarrow> 'w hasher \<Rightarrow> bool" where
  "holds m h \<equiv> absorbed B tr init m h"

lemma Write_holds: "holds m h \<Longrightarrow> holds (m @ data) (Write data h)"
  using Write_absorbed [of init m h data] Write_eq [of h data] by (simp add: absorbed_def [of _ _ _ m])

lemma Write_list_holds: "holds m h \<Longrightarrow> holds (m @ concat ps) (fold Write ps h)"
proof (induction ps arbitrary: m h)
  case (Cons p ps)
  from Cons.IH [OF Write_holds [OF Cons.prems]] show ?case by simp
qed simp

lemma foldl_compress: "length s = length init \<Longrightarrow> foldl tr s cs = foldl compress s cs"
  by (induction cs arbitrary: s) (simp_all add: tr_compress length_compress)

lemma length_foldl_compress: "length s = length init \<Longrightarrow> length (foldl compress s cs) = length init"
  by (induction cs arbitrary: s) (simp_all add: length_compress)

lemma Finalize_holds:
  assumes "holds m h" and "k = (2 * B - length szd - 1 - unat (hbytes h) mod B) mod B"
  shows "hs (Write szd (Write (take (1 + k) (pad_array B)) h)) =
     foldl compress init (chunks B (md_pad B szd m))"
proof -
  have "holds ((m @ take (1 + k) (pad_array B)) @ szd) (Write szd (Write (take (1 + k) (pad_array B)) h))"
    by (intro Write_holds assms(1))
  then show ?thesis unfolding pad_absorbed [OF assms] by (simp add: absorbed_def foldl_compress)
qed

lemma holds_hbytes: "holds m h \<Longrightarrow> push_bit 3 (hbytes h) = of_nat (8 * length m)"
  by (simp add: absorbed_def push_bit_eq_mult mult.commute)

end

end
