(* ===== verification/Sha256.thy ===== *)
theory Sha256
  imports Hasher
begin

text \<open>
  SHA-256 (\<^verbatim>\<open>src/crypto/sha256.cpp\<close>): the unrolled compression loop as the source has it, the class
  \<^verbatim>\<open>CSHA256\<close>, the FIPS 180-4 compression function in its textbook form, and the proofs that the
  unrolled code computes it and that the class computes the digest of the concatenated input.
\<close>

unbundle bit_operations_syntax

section \<open>The code\<close>

definition sha256_Ch :: "u32 \<Rightarrow> u32 \<Rightarrow> u32 \<Rightarrow> u32" where
  "sha256_Ch x y z = z XOR (x AND (y XOR z))"

definition sha256_Maj :: "u32 \<Rightarrow> u32 \<Rightarrow> u32 \<Rightarrow> u32" where
  "sha256_Maj x y z = (x AND y) OR (z AND (x OR y))"

definition sha256_Sigma0 :: "u32 \<Rightarrow> u32" where
  "sha256_Sigma0 x = (drop_bit 2 x OR push_bit 30 x) XOR (drop_bit 13 x OR push_bit 19 x) XOR (drop_bit 22 x OR push_bit 10 x)"

definition sha256_Sigma1 :: "u32 \<Rightarrow> u32" where
  "sha256_Sigma1 x = (drop_bit 6 x OR push_bit 26 x) XOR (drop_bit 11 x OR push_bit 21 x) XOR (drop_bit 25 x OR push_bit 7 x)"

definition sha256_sigma0 :: "u32 \<Rightarrow> u32" where
  "sha256_sigma0 x = (drop_bit 7 x OR push_bit 25 x) XOR (drop_bit 18 x OR push_bit 14 x) XOR drop_bit 3 x"

definition sha256_sigma1 :: "u32 \<Rightarrow> u32" where
  "sha256_sigma1 x = (drop_bit 17 x OR push_bit 15 x) XOR (drop_bit 19 x OR push_bit 13 x) XOR drop_bit 10 x"

text \<open>A round updates \<^verbatim>\<open>d\<close> and \<^verbatim>\<open>h\<close>, which are passed by reference.\<close>

definition sha256_Round :: "u32 \<Rightarrow> u32 \<Rightarrow> u32 \<Rightarrow> u32 \<Rightarrow> u32 \<Rightarrow> u32 \<Rightarrow> u32 \<Rightarrow> u32 \<Rightarrow> u32 \<Rightarrow> u32 \<Rightarrow> u32 \<times> u32" where
  "sha256_Round a b c d e f g h k w =
     (let t1 = h + sha256_Sigma1 e + sha256_Ch e f g + k + w;
          t2 = sha256_Sigma0 a + sha256_Maj a b c
      in (d + t1, t1 + t2))"

definition sha256_Initialize :: "u32 list" where
  "sha256_Initialize = [0x6a09e667, 0xbb67ae85, 0x3c6ef372, 0xa54ff53a,
     0x510e527f, 0x9b05688c, 0x1f83d9ab, 0x5be0cd19]"

definition sha256_Transform1 :: "u32 list \<Rightarrow> bytes \<Rightarrow> u32 list" where
  "sha256_Transform1 s chunk =
     (let a = s ! 0; b = s ! 1; c = s ! 2; d = s ! 3; e = s ! 4; f = s ! 5; g = s ! 6; h = s ! 7;
       w0 = ReadBE32 (drop 0 chunk);
       (d, h) = sha256_Round a b c d e f g h 0x428a2f98 w0;
       w1 = ReadBE32 (drop 4 chunk);
       (c, g) = sha256_Round h a b c d e f g 0x71374491 w1;
       w2 = ReadBE32 (drop 8 chunk);
       (b, f) = sha256_Round g h a b c d e f 0xb5c0fbcf w2;
       w3 = ReadBE32 (drop 12 chunk);
       (a, e) = sha256_Round f g h a b c d e 0xe9b5dba5 w3;
       w4 = ReadBE32 (drop 16 chunk);
       (h, d) = sha256_Round e f g h a b c d 0x3956c25b w4;
       w5 = ReadBE32 (drop 20 chunk);
       (g, c) = sha256_Round d e f g h a b c 0x59f111f1 w5;
       w6 = ReadBE32 (drop 24 chunk);
       (f, b) = sha256_Round c d e f g h a b 0x923f82a4 w6;
       w7 = ReadBE32 (drop 28 chunk);
       (e, a) = sha256_Round b c d e f g h a 0xab1c5ed5 w7;
       w8 = ReadBE32 (drop 32 chunk);
       (d, h) = sha256_Round a b c d e f g h 0xd807aa98 w8;
       w9 = ReadBE32 (drop 36 chunk);
       (c, g) = sha256_Round h a b c d e f g 0x12835b01 w9;
       w10 = ReadBE32 (drop 40 chunk);
       (b, f) = sha256_Round g h a b c d e f 0x243185be w10;
       w11 = ReadBE32 (drop 44 chunk);
       (a, e) = sha256_Round f g h a b c d e 0x550c7dc3 w11;
       w12 = ReadBE32 (drop 48 chunk);
       (h, d) = sha256_Round e f g h a b c d 0x72be5d74 w12;
       w13 = ReadBE32 (drop 52 chunk);
       (g, c) = sha256_Round d e f g h a b c 0x80deb1fe w13;
       w14 = ReadBE32 (drop 56 chunk);
       (f, b) = sha256_Round c d e f g h a b 0x9bdc06a7 w14;
       w15 = ReadBE32 (drop 60 chunk);
       (e, a) = sha256_Round b c d e f g h a 0xc19bf174 w15;
       w0 = w0 + (sha256_sigma1 w14 + w9 + sha256_sigma0 w1);
       (d, h) = sha256_Round a b c d e f g h 0xe49b69c1 w0;
       w1 = w1 + (sha256_sigma1 w15 + w10 + sha256_sigma0 w2);
       (c, g) = sha256_Round h a b c d e f g 0xefbe4786 w1;
       w2 = w2 + (sha256_sigma1 w0 + w11 + sha256_sigma0 w3);
       (b, f) = sha256_Round g h a b c d e f 0x0fc19dc6 w2;
       w3 = w3 + (sha256_sigma1 w1 + w12 + sha256_sigma0 w4);
       (a, e) = sha256_Round f g h a b c d e 0x240ca1cc w3;
       w4 = w4 + (sha256_sigma1 w2 + w13 + sha256_sigma0 w5);
       (h, d) = sha256_Round e f g h a b c d 0x2de92c6f w4;
       w5 = w5 + (sha256_sigma1 w3 + w14 + sha256_sigma0 w6);
       (g, c) = sha256_Round d e f g h a b c 0x4a7484aa w5;
       w6 = w6 + (sha256_sigma1 w4 + w15 + sha256_sigma0 w7);
       (f, b) = sha256_Round c d e f g h a b 0x5cb0a9dc w6;
       w7 = w7 + (sha256_sigma1 w5 + w0 + sha256_sigma0 w8);
       (e, a) = sha256_Round b c d e f g h a 0x76f988da w7;
       w8 = w8 + (sha256_sigma1 w6 + w1 + sha256_sigma0 w9);
       (d, h) = sha256_Round a b c d e f g h 0x983e5152 w8;
       w9 = w9 + (sha256_sigma1 w7 + w2 + sha256_sigma0 w10);
       (c, g) = sha256_Round h a b c d e f g 0xa831c66d w9;
       w10 = w10 + (sha256_sigma1 w8 + w3 + sha256_sigma0 w11);
       (b, f) = sha256_Round g h a b c d e f 0xb00327c8 w10;
       w11 = w11 + (sha256_sigma1 w9 + w4 + sha256_sigma0 w12);
       (a, e) = sha256_Round f g h a b c d e 0xbf597fc7 w11;
       w12 = w12 + (sha256_sigma1 w10 + w5 + sha256_sigma0 w13);
       (h, d) = sha256_Round e f g h a b c d 0xc6e00bf3 w12;
       w13 = w13 + (sha256_sigma1 w11 + w6 + sha256_sigma0 w14);
       (g, c) = sha256_Round d e f g h a b c 0xd5a79147 w13;
       w14 = w14 + (sha256_sigma1 w12 + w7 + sha256_sigma0 w15);
       (f, b) = sha256_Round c d e f g h a b 0x06ca6351 w14;
       w15 = w15 + (sha256_sigma1 w13 + w8 + sha256_sigma0 w0);
       (e, a) = sha256_Round b c d e f g h a 0x14292967 w15;
       w0 = w0 + (sha256_sigma1 w14 + w9 + sha256_sigma0 w1);
       (d, h) = sha256_Round a b c d e f g h 0x27b70a85 w0;
       w1 = w1 + (sha256_sigma1 w15 + w10 + sha256_sigma0 w2);
       (c, g) = sha256_Round h a b c d e f g 0x2e1b2138 w1;
       w2 = w2 + (sha256_sigma1 w0 + w11 + sha256_sigma0 w3);
       (b, f) = sha256_Round g h a b c d e f 0x4d2c6dfc w2;
       w3 = w3 + (sha256_sigma1 w1 + w12 + sha256_sigma0 w4);
       (a, e) = sha256_Round f g h a b c d e 0x53380d13 w3;
       w4 = w4 + (sha256_sigma1 w2 + w13 + sha256_sigma0 w5);
       (h, d) = sha256_Round e f g h a b c d 0x650a7354 w4;
       w5 = w5 + (sha256_sigma1 w3 + w14 + sha256_sigma0 w6);
       (g, c) = sha256_Round d e f g h a b c 0x766a0abb w5;
       w6 = w6 + (sha256_sigma1 w4 + w15 + sha256_sigma0 w7);
       (f, b) = sha256_Round c d e f g h a b 0x81c2c92e w6;
       w7 = w7 + (sha256_sigma1 w5 + w0 + sha256_sigma0 w8);
       (e, a) = sha256_Round b c d e f g h a 0x92722c85 w7;
       w8 = w8 + (sha256_sigma1 w6 + w1 + sha256_sigma0 w9);
       (d, h) = sha256_Round a b c d e f g h 0xa2bfe8a1 w8;
       w9 = w9 + (sha256_sigma1 w7 + w2 + sha256_sigma0 w10);
       (c, g) = sha256_Round h a b c d e f g 0xa81a664b w9;
       w10 = w10 + (sha256_sigma1 w8 + w3 + sha256_sigma0 w11);
       (b, f) = sha256_Round g h a b c d e f 0xc24b8b70 w10;
       w11 = w11 + (sha256_sigma1 w9 + w4 + sha256_sigma0 w12);
       (a, e) = sha256_Round f g h a b c d e 0xc76c51a3 w11;
       w12 = w12 + (sha256_sigma1 w10 + w5 + sha256_sigma0 w13);
       (h, d) = sha256_Round e f g h a b c d 0xd192e819 w12;
       w13 = w13 + (sha256_sigma1 w11 + w6 + sha256_sigma0 w14);
       (g, c) = sha256_Round d e f g h a b c 0xd6990624 w13;
       w14 = w14 + (sha256_sigma1 w12 + w7 + sha256_sigma0 w15);
       (f, b) = sha256_Round c d e f g h a b 0xf40e3585 w14;
       w15 = w15 + (sha256_sigma1 w13 + w8 + sha256_sigma0 w0);
       (e, a) = sha256_Round b c d e f g h a 0x106aa070 w15;
       w0 = w0 + (sha256_sigma1 w14 + w9 + sha256_sigma0 w1);
       (d, h) = sha256_Round a b c d e f g h 0x19a4c116 w0;
       w1 = w1 + (sha256_sigma1 w15 + w10 + sha256_sigma0 w2);
       (c, g) = sha256_Round h a b c d e f g 0x1e376c08 w1;
       w2 = w2 + (sha256_sigma1 w0 + w11 + sha256_sigma0 w3);
       (b, f) = sha256_Round g h a b c d e f 0x2748774c w2;
       w3 = w3 + (sha256_sigma1 w1 + w12 + sha256_sigma0 w4);
       (a, e) = sha256_Round f g h a b c d e 0x34b0bcb5 w3;
       w4 = w4 + (sha256_sigma1 w2 + w13 + sha256_sigma0 w5);
       (h, d) = sha256_Round e f g h a b c d 0x391c0cb3 w4;
       w5 = w5 + (sha256_sigma1 w3 + w14 + sha256_sigma0 w6);
       (g, c) = sha256_Round d e f g h a b c 0x4ed8aa4a w5;
       w6 = w6 + (sha256_sigma1 w4 + w15 + sha256_sigma0 w7);
       (f, b) = sha256_Round c d e f g h a b 0x5b9cca4f w6;
       w7 = w7 + (sha256_sigma1 w5 + w0 + sha256_sigma0 w8);
       (e, a) = sha256_Round b c d e f g h a 0x682e6ff3 w7;
       w8 = w8 + (sha256_sigma1 w6 + w1 + sha256_sigma0 w9);
       (d, h) = sha256_Round a b c d e f g h 0x748f82ee w8;
       w9 = w9 + (sha256_sigma1 w7 + w2 + sha256_sigma0 w10);
       (c, g) = sha256_Round h a b c d e f g 0x78a5636f w9;
       w10 = w10 + (sha256_sigma1 w8 + w3 + sha256_sigma0 w11);
       (b, f) = sha256_Round g h a b c d e f 0x84c87814 w10;
       w11 = w11 + (sha256_sigma1 w9 + w4 + sha256_sigma0 w12);
       (a, e) = sha256_Round f g h a b c d e 0x8cc70208 w11;
       w12 = w12 + (sha256_sigma1 w10 + w5 + sha256_sigma0 w13);
       (h, d) = sha256_Round e f g h a b c d 0x90befffa w12;
       w13 = w13 + (sha256_sigma1 w11 + w6 + sha256_sigma0 w14);
       (g, c) = sha256_Round d e f g h a b c 0xa4506ceb w13;
       (f, b) = sha256_Round c d e f g h a b 0xbef9a3f7 (w14 + sha256_sigma1 w12 + w7 + sha256_sigma0 w15);
       (e, a) = sha256_Round b c d e f g h a 0xc67178f2 (w15 + sha256_sigma1 w13 + w8 + sha256_sigma0 w0)
      in [s ! 0 + a, s ! 1 + b, s ! 2 + c, s ! 3 + d, s ! 4 + e, s ! 5 + f, s ! 6 + g, s ! 7 + h])"

text \<open>\<^verbatim>\<open>Transform\<close> processes a number of consecutive 64-byte blocks.\<close>

fun sha256_Transform :: "u32 list \<Rightarrow> bytes \<Rightarrow> nat \<Rightarrow> u32 list" where
  "sha256_Transform s chunk 0 = s"
| "sha256_Transform s chunk (Suc blocks) =
     sha256_Transform (sha256_Transform1 s (take 64 chunk)) (drop 64 chunk) blocks"

section \<open>Reference compression function (FIPS 180-4)\<close>

text \<open>The first 32 bits of the fractional parts of the cube roots of the first 64 primes, in decimal.\<close>

definition sha256_K :: "u32 list" where
  "sha256_K =
    [1116352408, 1899447441, 3049323471, 3921009573, 961987163, 1508970993,
     2453635748, 2870763221, 3624381080, 310598401, 607225278, 1426881987,
     1925078388, 2162078206, 2614888103, 3248222580, 3835390401, 4022224774,
     264347078, 604807628, 770255983, 1249150122, 1555081692, 1996064986,
     2554220882, 2821834349, 2952996808, 3210313671, 3336571891, 3584528711,
     113926993, 338241895, 666307205, 773529912, 1294757372, 1396182291,
     1695183700, 1986661051, 2177026350, 2456956037, 2730485921, 2820302411,
     3259730800, 3345764771, 3516065817, 3600352804, 4094571909, 275423344,
     430227734, 506948616, 659060556, 883997877, 958139571, 1322822218,
     1537002063, 1747873779, 1955562222, 2024104815, 2227730452, 2361852424,
     2428436474, 2756734187, 3204031479, 3329325298]"

fun sha256_W :: "bytes \<Rightarrow> nat \<Rightarrow> u32" where
  "sha256_W m t =
     (if t < 16 then ReadBE32 (drop (4 * t) m)
      else (let x = sha256_W m (t - 2) in word_rotr 17 x XOR word_rotr 19 x XOR drop_bit 10 x) + sha256_W m (t - 7)
         + (let x = sha256_W m (t - 15) in word_rotr 7 x XOR word_rotr 18 x XOR drop_bit 3 x) + sha256_W m (t - 16))"

declare sha256_W.simps [simp del]

definition sha256_step :: "bytes \<Rightarrow> u32 list \<Rightarrow> nat \<Rightarrow> u32 list" where
  "sha256_step m v t =
     (let T1 = v ! 7 + (let x = v ! 4 in word_rotr 6 x XOR word_rotr 11 x XOR word_rotr 25 x)
            + ((v ! 4 AND v ! 5) XOR (NOT (v ! 4) AND v ! 6)) + sha256_K ! t + sha256_W m t;
          T2 = (let x = v ! 0 in word_rotr 2 x XOR word_rotr 13 x XOR word_rotr 22 x)
            + ((v ! 0 AND v ! 1) XOR (v ! 0 AND v ! 2) XOR (v ! 1 AND v ! 2))
      in [T1 + T2, v ! 0, v ! 1, v ! 2, v ! 3 + T1, v ! 4, v ! 5, v ! 6])"

definition sha256_compress :: "u32 list \<Rightarrow> bytes \<Rightarrow> u32 list" where
  "sha256_compress H m = map2 (+) H (foldl (sha256_step m) H [0..<64])"

section \<open>The unrolled transform computes the reference compression\<close>

text \<open>The successive values of the registers \<open>a\<close> and \<open>e\<close>; the other six registers are
  delayed copies of them.\<close>

fun sha256_AE :: "u32 list \<Rightarrow> bytes \<Rightarrow> nat \<Rightarrow> u32 \<times> u32" where
  "sha256_AE H m t =
     (if t < 4 then (H ! (3 - t), H ! (7 - t))
      else prod.swap (sha256_Round
        (fst (sha256_AE H m (t - 1))) (fst (sha256_AE H m (t - 2))) (fst (sha256_AE H m (t - 3))) (fst (sha256_AE H m (t - 4)))
        (snd (sha256_AE H m (t - 1))) (snd (sha256_AE H m (t - 2))) (snd (sha256_AE H m (t - 3))) (snd (sha256_AE H m (t - 4)))
        (sha256_K ! (t - 4)) (sha256_W m (t - 4))))"

declare sha256_AE.simps [simp del]

definition sha256_A :: "u32 list \<Rightarrow> bytes \<Rightarrow> nat \<Rightarrow> u32" where
  "sha256_A H m t = fst (sha256_AE H m t)"

definition sha256_E :: "u32 list \<Rightarrow> bytes \<Rightarrow> nat \<Rightarrow> u32" where
  "sha256_E H m t = snd (sha256_AE H m t)"

lemma sha256_Round_AE:
  "t1 = t + 1 \<Longrightarrow> t2 = t + 2 \<Longrightarrow> t3 = t + 3 \<Longrightarrow> k = sha256_K ! t \<Longrightarrow>
   sha256_Round (sha256_A H m t3) (sha256_A H m t2) (sha256_A H m t1) (sha256_A H m t)
     (sha256_E H m t3) (sha256_E H m t2) (sha256_E H m t1) (sha256_E H m t) k (sha256_W m t)
   = (sha256_E H m (t + 4), sha256_A H m (t + 4))"
  unfolding sha256_A_def sha256_E_def
  by (simp add: sha256_AE.simps [of H m "4 + t"] prod_eq_iff add.commute [of t])

lemma sha256_rotr:
  "sha256_Sigma0 x = word_rotr 2 x XOR word_rotr 13 x XOR word_rotr 22 x"
  "sha256_Sigma1 x = word_rotr 6 x XOR word_rotr 11 x XOR word_rotr 25 x"
  "sha256_sigma0 x = word_rotr 7 x XOR word_rotr 18 x XOR drop_bit 3 x"
  "sha256_sigma1 x = word_rotr 17 x XOR word_rotr 19 x XOR drop_bit 10 x"
  "sha256_Ch x y z = (x AND y) XOR (NOT x AND z)"
  "sha256_Maj x y z = (x AND y) XOR (x AND z) XOR (y AND z)"
  by (simp_all add: sha256_Sigma0_def sha256_Sigma1_def sha256_sigma0_def sha256_sigma1_def
    sha256_Ch_def sha256_Maj_def rotr_drop_push choose_xor_form majority_or_form)

lemma sha256_W_rec:
  assumes "t1 = t + 1" "t9 = t + 9" "t14 = t + 14"
  shows "sha256_W m t + (sha256_sigma1 (sha256_W m t14) + sha256_W m t9 + sha256_sigma0 (sha256_W m t1)) = sha256_W m (t + 16)"
    and "sha256_W m t + sha256_sigma1 (sha256_W m t14) + sha256_W m t9 + sha256_sigma0 (sha256_W m t1) = sha256_W m (t + 16)"
  by (simp_all add: assms sha256_W.simps [of m "t + 16"] sha256_rotr Let_def add.assoc add.left_commute add.commute)

lemma sha256_W_read: "n < 64 \<Longrightarrow> n mod 4 = 0 \<Longrightarrow> ReadBE32 (drop n m) = sha256_W m (n div 4)"
  by (subst sha256_W.simps) auto

lemma sha256_step_AE:
  "sha256_step m
     [sha256_A H m (t + 3), sha256_A H m (t + 2), sha256_A H m (t + 1), sha256_A H m t,
      sha256_E H m (t + 3), sha256_E H m (t + 2), sha256_E H m (t + 1), sha256_E H m t] t
   = [sha256_A H m (t + 4), sha256_A H m (t + 3), sha256_A H m (t + 2), sha256_A H m (t + 1),
      sha256_E H m (t + 4), sha256_E H m (t + 3), sha256_E H m (t + 2), sha256_E H m (t + 1)]"
  using sha256_Round_AE [OF refl refl refl refl, of H m t]
  by (simp add: sha256_step_def sha256_Round_def sha256_rotr Let_def)

lemma sha256_A_init:
  "H ! 0 = sha256_A H m 3" "H ! 1 = sha256_A H m 2" "H ! 2 = sha256_A H m 1" "H ! 3 = sha256_A H m 0"
  "H ! 4 = sha256_E H m 3" "H ! 5 = sha256_E H m 2" "H ! 6 = sha256_E H m 1" "H ! 7 = sha256_E H m 0"
  by (simp_all add: sha256_A_def sha256_E_def sha256_AE.simps)

lemma sha256_rounds_AE:
  "length H = 8 \<Longrightarrow> foldl (sha256_step m) H [0..<t] =
     [sha256_A H m (t + 3), sha256_A H m (t + 2), sha256_A H m (t + 1), sha256_A H m t,
      sha256_E H m (t + 3), sha256_E H m (t + 2), sha256_E H m (t + 1), sha256_E H m t]"
proof (induction t)
  case 0
  then have "H = [H ! 0, H ! 1, H ! 2, H ! 3, H ! 4, H ! 5, H ! 6, H ! 7]"
    by (auto simp: length_Suc_conv numeral_eq_Suc)
  then show ?case by (simp only: sha256_A_init [of H m, symmetric] add_0 upt_0 foldl.simps upt_conv_Nil le_refl)
next
  case (Suc t)
  then have "foldl (sha256_step m) H [0..<Suc t] = sha256_step m
     [sha256_A H m (t + 3), sha256_A H m (t + 2), sha256_A H m (t + 1), sha256_A H m t,
      sha256_E H m (t + 3), sha256_E H m (t + 2), sha256_E H m (t + 1), sha256_E H m t] t" by simp
  also note sha256_step_AE
  finally show ?case by (simp add: eval_nat_numeral)
qed

lemma sha256_compress_AE:
  "length H = 8 \<Longrightarrow> sha256_compress H m =
     [H ! 0 + sha256_A H m 67, H ! 1 + sha256_A H m 66, H ! 2 + sha256_A H m 65, H ! 3 + sha256_A H m 64,
      H ! 4 + sha256_E H m 67, H ! 5 + sha256_E H m 66, H ! 6 + sha256_E H m 65, H ! 7 + sha256_E H m 64]"
  unfolding sha256_compress_def by (subst sha256_rounds_AE) (auto simp: length_Suc_conv numeral_eq_Suc)

lemma length_sha256_compress: "length H = 8 \<Longrightarrow> length (sha256_compress H m) = 8"
  by (simp add: sha256_compress_AE)

text \<open>The bodies of the nested bindings are rewritten only once their variable is known.\<close>

lemma sha256_Transform1_compress:
  "length s = 8 \<Longrightarrow> sha256_Transform1 s chunk = sha256_compress s chunk"
  unfolding sha256_Transform1_def sha256_compress_AE
  by (simp add: sha256_A_init [of s chunk] sha256_W_read sha256_W_rec sha256_Round_AE Let_def
      sha256_K_def del: One_nat_def drop0 cong: let_weak_cong prod.case_cong_weak)

section \<open>The class CSHA256\<close>

text \<open>The constructor leaves the buffer uninitialised: its contents are an argument.
  \<^verbatim>\<open>Finalize\<close> returns the object it has modified and the digest.\<close>

definition CSHA256 :: "bytes \<Rightarrow> u32 hasher" where
  "CSHA256 b = \<lparr>hs = sha256_Initialize, hbuf = b, hbytes = 0\<rparr>"

definition CSHA256_Write :: "bytes \<Rightarrow> u32 hasher \<Rightarrow> u32 hasher" where
  "CSHA256_Write data h =
     (let bufsize = unat (hbytes h) mod 64;
          (h, data, bufsize) =
            (if bufsize \<noteq> 0 \<and> bufsize + length data \<ge> 64
             then let b = memcpy_at (hbuf h) bufsize (take (64 - bufsize) data)
                  in (h\<lparr>hbuf := b, hbytes := hbytes h + of_nat (64 - bufsize), hs := sha256_Transform (hs h) b 1\<rparr>,
                      drop (64 - bufsize) data, 0)
             else (h, data, bufsize));
          (h, data) =
            (if length data \<ge> 64
             then let blocks = length data div 64
                  in (h\<lparr>hs := sha256_Transform (hs h) data blocks, hbytes := hbytes h + of_nat (64 * blocks)\<rparr>,
                      drop (64 * blocks) data)
             else (h, data))
      in if data \<noteq> []
         then h\<lparr>hbuf := memcpy_at (hbuf h) bufsize data, hbytes := hbytes h + of_nat (length data)\<rparr>
         else h)"

definition CSHA256_Finalize :: "u32 hasher \<Rightarrow> u32 hasher \<times> bytes" where
  "CSHA256_Finalize h =
     (let sizedesc = WriteBE64 (push_bit 3 (hbytes h));
          h = CSHA256_Write (take (1 + ((119 - unat (hbytes h) mod 64) mod 64)) (pad_array 64)) h;
          h = CSHA256_Write sizedesc h
      in (h, concat (map WriteBE32 (hs h))))"

definition CSHA256_Reset :: "u32 hasher \<Rightarrow> u32 hasher" where
  "CSHA256_Reset h = h\<lparr>hbytes := 0, hs := sha256_Initialize\<rparr>"

text \<open>Specification: the padded message, cut into blocks, compressed in order.\<close>

definition sha256_digest :: "bytes \<Rightarrow> bytes" where
  "sha256_digest m = concat (map WriteBE32
     (foldl sha256_compress sha256_Initialize (chunks 64 (md_pad 64 (WriteBE64 (of_nat (8 * length m))) m))))"

lemma length_sha256_Initialize [simp]: "length sha256_Initialize = 8"
  by (simp add: sha256_Initialize_def)

interpretation sha256_block: block_hash 64 sha256_Transform1
  by unfold_locales simp_all

lemma sha256_Transform_chunks:
  "sha256_Transform s d (length d div 64) = foldl sha256_Transform1 s (chunks 64 d)"
proof (induction "64::nat" d arbitrary: s rule: chunks.induct)
  case (1 d)
  show ?case
  proof (cases "64 \<le> length d")
    case True
    then have "length d div 64 = Suc (length (drop 64 d) div 64)" by (simp add: le_div_geq)
    with 1 True show ?thesis by (subst chunks.simps) simp
  qed simp
qed

lemma sha256_Transform_one: "length b = 64 \<Longrightarrow> sha256_Transform s b 1 = sha256_Transform1 s b"
  by simp

text \<open>Handing all whole blocks to \<^verbatim>\<open>Transform\<close> at once is the block-by-block loop of the other
  hashers.\<close>

lemma CSHA256_Write_eq:
  assumes "length (hbuf h) = 64"
  shows "CSHA256_Write data h = hasher_Write 64 sha256_Transform1 data h"
proof -
  have fb: "(if length d \<ge> 64 then let blocks = length d div 64
        in (g\<lparr>hs := sha256_Transform (hs g) d blocks, hbytes := hbytes g + of_nat (64 * blocks)\<rparr>,
            drop (64 * blocks) d) else (g, d)) = full_blocks 64 sha256_Transform1 g d" for g d
    unfolding sha256_block.full_blocks_eq Let_def sha256_Transform_chunks mult.commute [of 64 "length d div 64"]
    by simp
  have "length (memcpy_at (hbuf h) k (take (64 - k) data)) = 64"
    if "64 \<le> k + length data" "k < 64" for k using that assms by (simp add: memcpy_at_def)
  from this [of "unat (hbytes h) mod 64"] show ?thesis
    unfolding CSHA256_Write_def hasher_Write_def fb
    by (cases "unat (hbytes h) mod 64 = 0") (simp_all add: Let_def)
qed

interpretation sha256: hasher_class 64 sha256_Transform1 CSHA256_Write sha256_compress sha256_Initialize
  by unfold_locales (simp_all add: sha256_Transform1_compress length_sha256_compress CSHA256_Write_eq)

lemma CSHA256_Finalize_holds:
  assumes "absorbed 64 sha256_Transform1 sha256_Initialize m h"
  shows "snd (CSHA256_Finalize h) = sha256_digest m"
proof -
  let ?szd = "WriteBE64 (push_bit 3 (hbytes h))"
  let ?k = "(119 - unat (hbytes h) mod 64) mod 64"
  have "?k = (2 * 64 - length ?szd - 1 - unat (hbytes h) mod 64) mod 64" by simp
  from sha256.Finalize_holds [OF assms this] show ?thesis
    unfolding CSHA256_Finalize_def sha256_digest_def Let_def snd_conv sha256.holds_hbytes [OF assms]
    by (rule arg_cong)
qed

lemma CSHA256_holds:
  assumes "length b = 64"
  shows "absorbed 64 sha256_Transform1 sha256_Initialize (concat ps) (fold CSHA256_Write ps (CSHA256 b))"
  using sha256.Write_list_holds [OF sha256_block.absorbed_init [OF assms], of ps] by (simp add: CSHA256_def)

lemma CSHA256_Reset_holds:
  "length (hbuf h) = 64 \<Longrightarrow> absorbed 64 sha256_Transform1 sha256_Initialize [] (CSHA256_Reset h)"
  by (simp add: CSHA256_Reset_def absorbed_def)

lemma length_sha256_digest [simp]: "length (sha256_digest m) = 32"
  by (simp add: sha256_digest_def length_concat_map_const sha256.length_foldl_compress)

lemma sha256_stream:
  "length b = 64 \<Longrightarrow>
   snd (CSHA256_Finalize (fold CSHA256_Write ps (CSHA256 b))) = sha256_digest (concat ps)"
  by (rule CSHA256_Finalize_holds [OF CSHA256_holds])

section \<open>Properties\<close>

text \<open>
  C17: \<^verbatim>\<open>CSHA256\<close> computes SHA-256 of the whole message: however the message is split into \<^verbatim>\<open>Write\<close>
  calls, and whatever the uninitialised buffer holds, \<^verbatim>\<open>Finalize\<close> returns the digest that the
  round-by-round reference compression yields on the padded blocks of the concatenation.
\<close>
theorem CSHA256_correct:
  assumes "length b = 64"
  shows "snd (CSHA256_Finalize (fold CSHA256_Write ps (CSHA256 b))) = sha256_digest (concat ps)"
  using sha256_stream [OF assms] .

theorem CSHA256_correct_witness:
  "snd (CSHA256_Finalize (fold CSHA256_Write [[0x61], [], [0x62, 0x63]] (CSHA256 (replicate 64 0)))) = sha256_digest [0x61, 0x62, 0x63]"
  using CSHA256_correct [of "replicate 64 0" "[[0x61], [], [0x62, 0x63]]"] by simp

end
