(* ===== verification/Sha512.thy ===== *)
theory Sha512
  imports Hasher
begin

text \<open>
  SHA-512 (\<^verbatim>\<open>src/crypto/sha512.cpp\<close>): unrolled transform, the class \<^verbatim>\<open>CSHA512\<close>, the FIPS 180-4
  compression function and the proofs that relate them.
\<close>

unbundle bit_operations_syntax

section \<open>The code\<close>

definition sha512_Ch :: "u64 \<Rightarrow> u64 \<Rightarrow> u64 \<Rightarrow> u64" where
  "sha512_Ch x y z = z XOR (x AND (y XOR z))"

definition sha512_Maj :: "u64 \<Rightarrow> u64 \<Rightarrow> u64 \<Rightarrow> u64" where
  "sha512_Maj x y z = (x AND y) OR (z AND (x OR y))"

definition sha512_Sigma0 :: "u64 \<Rightarrow> u64" where
  "sha512_Sigma0 x = (drop_bit 28 x OR push_bit 36 x) XOR (drop_bit 34 x OR push_bit 30 x) XOR (drop_bit 39 x OR push_bit 25 x)"

definition sha512_Sigma1 :: "u64 \<Rightarrow> u64" where
  "sha512_Sigma1 x = (drop_bit 14 x OR push_bit 50 x) XOR (drop_bit 18 x OR push_bit 46 x) XOR (drop_bit 41 x OR push_bit 23 x)"

definition sha512_sigma0 :: "u64 \<Rightarrow> u64" where
  "sha512_sigma0 x = (drop_bit 1 x OR push_bit 63 x) XOR (drop_bit 8 x OR push_bit 56 x) XOR drop_bit 7 x"

definition sha512_sigma1 :: "u64 \<Rightarrow> u64" where
  "sha512_sigma1 x = (drop_bit 19 x OR push_bit 45 x) XOR (drop_bit 61 x OR push_bit 3 x) XOR drop_bit 6 x"

text \<open>A round updates \<^verbatim>\<open>d\<close> and \<^verbatim>\<open>h\<close>, which are passed by reference.\<close>

definition sha512_Round :: "u64 \<Rightarrow> u64 \<Rightarrow> u64 \<Rightarrow> u64 \<Rightarrow> u64 \<Rightarrow> u64 \<Rightarrow> u64 \<Rightarrow> u64 \<Rightarrow> u64 \<Rightarrow> u64 \<Rightarrow> u64 \<times> u64" where
  "sha512_Round a b c d e f g h k w =
     (let t1 = h + sha512_Sigma1 e + sha512_Ch e f g + k + w;
          t2 = sha512_Sigma0 a + sha512_Maj a b c
      in (d + t1, t1 + t2))"

definition sha512_Initialize :: "u64 list" where
  "sha512_Initialize = [0x6a09e667f3bcc908, 0xbb67ae8584caa73b, 0x3c6ef372fe94f82b, 0xa54ff53a5f1d36f1,
     0x510e527fade682d1, 0x9b05688c2b3e6c1f, 0x1f83d9abfb41bd6b, 0x5be0cd19137e2179]"

definition sha512_Transform :: "u64 list \<Rightarrow> bytes \<Rightarrow> u64 list" where
  "sha512_Transform s chunk =
     (let a = s ! 0; b = s ! 1; c = s ! 2; d = s ! 3; e = s ! 4; f = s ! 5; g = s ! 6; h = s ! 7;
       w0 = ReadBE64 (drop 0 chunk);
       (d, h) = sha512_Round a b c d e f g h 0x428a2f98d728ae22 w0;
       w1 = ReadBE64 (drop 8 chunk);
       (c, g) = sha512_Round h a b c d e f g 0x7137449123ef65cd w1;
       w2 = ReadBE64 (drop 16 chunk);
       (b, f) = sha512_Round g h a b c d e f 0xb5c0fbcfec4d3b2f w2;
       w3 = ReadBE64 (drop 24 chunk);
       (a, e) = sha512_Round f g h a b c d e 0xe9b5dba58189dbbc w3;
       w4 = ReadBE64 (drop 32 chunk);
       (h, d) = sha512_Round e f g h a b c d 0x3956c25bf348b538 w4;
       w5 = ReadBE64 (drop 40 chunk);
       (g, c) = sha512_Round d e f g h a b c 0x59f111f1b605d019 w5;
       w6 = ReadBE64 (drop 48 chunk);
       (f, b) = sha512_Round c d e f g h a b 0x923f82a4af194f9b w6;
       w7 = ReadBE64 (drop 56 chunk);
       (e, a) = sha512_Round b c d e f g h a 0xab1c5ed5da6d8118 w7;
       w8 = ReadBE64 (drop 64 chunk);
       (d, h) = sha512_Round a b c d e f g h 0xd807aa98a3030242 w8;
       w9 = ReadBE64 (drop 72 chunk);
       (c, g) = sha512_Round h a b c d e f g 0x12835b0145706fbe w9;
       w10 = ReadBE64 (drop 80 chunk);
       (b, f) = sha512_Round g h a b c d e f 0x243185be4ee4b28c w10;
       w11 = ReadBE64 (drop 88 chunk);
       (a, e) = sha512_Round f g h a b c d e 0x550c7dc3d5ffb4e2 w11;
       w12 = ReadBE64 (drop 96 chunk);
       (h, d) = sha512_Round e f g h a b c d 0x72be5d74f27b896f w12;
       w13 = ReadBE64 (drop 104 chunk);
       (g, c) = sha512_Round d e f g h a b c 0x80deb1fe3b1696b1 w13;
       w14 = ReadBE64 (drop 112 chunk);
       (f, b) = sha512_Round c d e f g h a b 0x9bdc06a725c71235 w14;
       w15 = ReadBE64 (drop 120 chunk);
       (e, a) = sha512_Round b c d e f g h a 0xc19bf174cf692694 w15;
       w0 = w0 + (sha512_sigma1 w14 + w9 + sha512_sigma0 w1);
       (d, h) = sha512_Round a b c d e f g h 0xe49b69c19ef14ad2 w0;
       w1 = w1 + (sha512_sigma1 w15 + w10 + sha512_sigma0 w2);
       (c, g) = sha512_Round h a b c d e f g 0xefbe4786384f25e3 w1;
       w2 = w2 + (sha512_sigma1 w0 + w11 + sha512_sigma0 w3);
       (b, f) = sha512_Round g h a b c d e f 0x0fc19dc68b8cd5b5 w2;
       w3 = w3 + (sha512_sigma1 w1 + w12 + sha512_sigma0 w4);
       (a, e) = sha512_Round f g h a b c d e 0x240ca1cc77ac9c65 w3;
       w4 = w4 + (sha512_sigma1 w2 + w13 + sha512_sigma0 w5);
       (h, d) = sha512_Round e f g h a b c d 0x2de92c6f592b0275 w4;
       w5 = w5 + (sha512_sigma1 w3 + w14 + sha512_sigma0 w6);
       (g, c) = sha512_Round d e f g h a b c 0x4a7484aa6ea6e483 w5;
       w6 = w6 + (sha512_sigma1 w4 + w15 + sha512_sigma0 w7);
       (f, b) = sha512_Round c d e f g h a b 0x5cb0a9dcbd41fbd4 w6;
       w7 = w7 + (sha512_sigma1 w5 + w0 + sha512_sigma0 w8);
       (e, a) = sha512_Round b c d e f g h a 0x76f988da831153b5 w7;
       w8 = w8 + (sha512_sigma1 w6 + w1 + sha512_sigma0 w9);
       (d, h) = sha512_Round a b c d e f g h 0x983e5152ee66dfab w8;
       w9 = w9 + (sha512_sigma1 w7 + w2 + sha512_sigma0 w10);
       (c, g) = sha512_Round h a b c d e f g 0xa831c66d2db43210 w9;
       w10 = w10 + (sha512_sigma1 w8 + w3 + sha512_sigma0 w11);
       (b, f) = sha512_Round g h a b c d e f 0xb00327c898fb213f w10;
       w11 = w11 + (sha512_sigma1 w9 + w4 + sha512_sigma0 w12);
       (a, e) = sha512_Round f g h a b c d e 0xbf597fc7beef0ee4 w11;
       w12 = w12 + (sha512_sigma1 w10 + w5 + sha512_sigma0 w13);
       (h, d) = sha512_Round e f g h a b c d 0xc6e00bf33da88fc2 w12;
       w13 = w13 + (sha512_sigma1 w11 + w6 + sha512_sigma0 w14);
       (g, c) = sha512_Round d e f g h a b c 0xd5a79147930aa725 w13;
       w14 = w14 + (sha512_sigma1 w12 + w7 + sha512_sigma0 w15);
       (f, b) = sha512_Round c d e f g h a b 0x06ca6351e003826f w14;
       w15 = w15 + (sha512_sigma1 w13 + w8 + sha512_sigma0 w0);
       (e, a) = sha512_Round b c d e f g h a 0x142929670a0e6e70 w15;
       w0 = w0 + (sha512_sigma1 w14 + w9 + sha512_sigma0 w1);
       (d, h) = sha512_Round a b c d e f g h 0x27b70a8546d22ffc w0;
       w1 = w1 + (sha512_sigma1 w15 + w10 + sha512_sigma0 w2);
       (c, g) = sha512_Round h a b c d e f g 0x2e1b21385c26c926 w1;
       w2 = w2 + (sha512_sigma1 w0 + w11 + sha512_sigma0 w3);
       (b, f) = sha512_Round g h a b c d e f 0x4d2c6dfc5ac42aed w2;
       w3 = w3 + (sha512_sigma1 w1 + w12 + sha512_sigma0 w4);
       (a, e) = sha512_Round f g h a b c d e 0x53380d139d95b3df w3;
       w4 = w4 + (sha512_sigma1 w2 + w13 + sha512_sigma0 w5);
       (h, d) = sha512_Round e f g h a b c d 0x650a73548baf63de w4;
       w5 = w5 + (sha512_sigma1 w3 + w14 + sha512_sigma0 w6);
       (g, c) = sha512_Round d e f g h a b c 0x766a0abb3c77b2a8 w5;
       w6 = w6 + (sha512_sigma1 w4 + w15 + sha512_sigma0 w7);
       (f, b) = sha512_Round c d e f g h a b 0x81c2c92e47edaee6 w6;
       w7 = w7 + (sha512_sigma1 w5 + w0 + sha512_sigma0 w8);
       (e, a) = sha512_Round b c d e f g h a 0x92722c851482353b w7;
       w8 = w8 + (sha512_sigma1 w6 + w1 + sha512_sigma0 w9);
       (d, h) = sha512_Round a b c d e f g h 0xa2bfe8a14cf10364 w8;
       w9 = w9 + (sha512_sigma1 w7 + w2 + sha512_sigma0 w10);
       (c, g) = sha512_Round h a b c d e f g 0xa81a664bbc423001 w9;
       w10 = w10 + (sha512_sigma1 w8 + w3 + sha512_sigma0 w11);
       (b, f) = sha512_Round g h a b c d e f 0xc24b8b70d0f89791 w10;
       w11 = w11 + (sha512_sigma1 w9 + w4 + sha512_sigma0 w12);
       (a, e) = sha512_Round f g h a b c d e 0xc76c51a30654be30 w11;
       w12 = w12 + (sha512_sigma1 w10 + w5 + sha512_sigma0 w13);
       (h, d) = sha512_Round e f g h a b c d 0xd192e819d6ef5218 w12;
       w13 = w13 + (sha512_sigma1 w11 + w6 + sha512_sigma0 w14);
       (g, c) = sha512_Round d e f g h a b c 0xd69906245565a910 w13;
       w14 = w14 + (sha512_sigma1 w12 + w7 + sha512_sigma0 w15);
       (f, b) = sha512_Round c d e f g h a b 0xf40e35855771202a w14;
       w15 = w15 + (sha512_sigma1 w13 + w8 + sha512_sigma0 w0);
       (e, a) = sha512_Round b c d e f g h a 0x106aa07032bbd1b8 w15;
       w0 = w0 + (sha512_sigma1 w14 + w9 + sha512_sigma0 w1);
       (d, h) = sha512_Round a b c d e f g h 0x19a4c116b8d2d0c8 w0;
       w1 = w1 + (sha512_sigma1 w15 + w10 + sha512_sigma0 w2);
       (c, g) = sha512_Round h a b c d e f g 0x1e376c085141ab53 w1;
       w2 = w2 + (sha512_sigma1 w0 + w11 + sha512_sigma0 w3);
       (b, f) = sha512_Round g h a b c d e f 0x2748774cdf8eeb99 w2;
       w3 = w3 + (sha512_sigma1 w1 + w12 + sha512_sigma0 w4);
       (a, e) = sha512_Round f g h a b c d e 0x34b0bcb5e19b48a8 w3;
       w4 = w4 + (sha512_sigma1 w2 + w13 + sha512_sigma0 w5);
       (h, d) = sha512_Round e f g h a b c d 0x391c0cb3c5c95a63 w4;
       w5 = w5 + (sha512_sigma1 w3 + w14 + sha512_sigma0 w6);
       (g, c) = sha512_Round d e f g h a b c 0x4ed8aa4ae3418acb w5;
       w6 = w6 + (sha512_sigma1 w4 + w15 + sha512_sigma0 w7);
       (f, b) = sha512_Round c d e f g h a b 0x5b9cca4f7763e373 w6;
       w7 = w7 + (sha512_sigma1 w5 + w0 + sha512_sigma0 w8);
       (e, a) = sha512_Round b c d e f g h a 0x682e6ff3d6b2b8a3 w7;
       w8 = w8 + (sha512_sigma1 w6 + w1 + sha512_sigma0 w9);
       (d, h) = sha512_Round a b c d e f g h 0x748f82ee5defb2fc w8;
       w9 = w9 + (sha512_sigma1 w7 + w2 + sha512_sigma0 w10);
       (c, g) = sha512_Round h a b c d e f g 0x78a5636f43172f60 w9;
       w10 = w10 + (sha512_sigma1 w8 + w3 + sha512_sigma0 w11);
       (b, f) = sha512_Round g h a b c d e f 0x84c87814a1f0ab72 w10;
       w11 = w11 + (sha512_sigma1 w9 + w4 + sha512_sigma0 w12);
       (a, e) = sha512_Round f g h a b c d e 0x8cc702081a6439ec w11;
       w12 = w12 + (sha512_sigma1 w10 + w5 + sha512_sigma0 w13);
       (h, d) = sha512_Round e f g h a b c d 0x90befffa23631e28 w12;
       w13 = w13 + (sha512_sigma1 w11 + w6 + sha512_sigma0 w14);
       (g, c) = sha512_Round d e f g h a b c 0xa4506cebde82bde9 w13;
       w14 = w14 + (sha512_sigma1 w12 + w7 + sha512_sigma0 w15);
       (f, b) = sha512_Round c d e f g h a b 0xbef9a3f7b2c67915 w14;
       w15 = w15 + (sha512_sigma1 w13 + w8 + sha512_sigma0 w0);
       (e, a) = sha512_Round b c d e f g h a 0xc67178f2e372532b w15;
       w0 = w0 + (sha512_sigma1 w14 + w9 + sha512_sigma0 w1);
       (d, h) = sha512_Round a b c d e f g h 0xca273eceea26619c w0;
       w1 = w1 + (sha512_sigma1 w15 + w10 + sha512_sigma0 w2);
       (c, g) = sha512_Round h a b c d e f g 0xd186b8c721c0c207 w1;
       w2 = w2 + (sha512_sigma1 w0 + w11 + sha512_sigma0 w3);
       (b, f) = sha512_Round g h a b c d e f 0xeada7dd6cde0eb1e w2;
       w3 = w3 + (sha512_sigma1 w1 + w12 + sha512_sigma0 w4);
       (a, e) = sha512_Round f g h a b c d e 0xf57d4f7fee6ed178 w3;
       w4 = w4 + (sha512_sigma1 w2 + w13 + sha512_sigma0 w5);
       (h, d) = sha512_Round e f g h a b c d 0x06f067aa72176fba w4;
       w5 = w5 + (sha512_sigma1 w3 + w14 + sha512_sigma0 w6);
       (g, c) = sha512_Round d e f g h a b c 0x0a637dc5a2c898a6 w5;
       w6 = w6 + (sha512_sigma1 w4 + w15 + sha512_sigma0 w7);
       (f, b) = sha512_Round c d e f g h a b 0x113f9804bef90dae w6;
       w7 = w7 + (sha512_sigma1 w5 + w0 + sha512_sigma0 w8);
       (e, a) = sha512_Round b c d e f g h a 0x1b710b35131c471b w7;
       w8 = w8 + (sha512_sigma1 w6 + w1 + sha512_sigma0 w9);
       (d, h) = sha512_Round a b c d e f g h 0x28db77f523047d84 w8;
       w9 = w9 + (sha512_sigma1 w7 + w2 + sha512_sigma0 w10);
       (c, g) = sha512_Round h a b c d e f g 0x32caab7b40c72493 w9;
       w10 = w10 + (sha512_sigma1 w8 + w3 + sha512_sigma0 w11);
       (b, f) = sha512_Round g h a b c d e f 0x3c9ebe0a15c9bebc w10;
       w11 = w11 + (sha512_sigma1 w9 + w4 + sha512_sigma0 w12);
       (a, e) = sha512_Round f g h a b c d e 0x431d67c49c100d4c w11;
       w12 = w12 + (sha512_sigma1 w10 + w5 + sha512_sigma0 w13);
       (h, d) = sha512_Round e f g h a b c d 0x4cc5d4becb3e42b6 w12;
       w13 = w13 + (sha512_sigma1 w11 + w6 + sha512_sigma0 w14);
       (g, c) = sha512_Round d e f g h a b c 0x597f299cfc657e2a w13;
       (f, b) = sha512_Round c d e f g h a b 0x5fcb6fab3ad6faec (w14 + sha512_sigma1 w12 + w7 + sha512_sigma0 w15);
       (e, a) = sha512_Round b c d e f g h a 0x6c44198c4a475817 (w15 + sha512_sigma1 w13 + w8 + sha512_sigma0 w0)
      in [s ! 0 + a, s ! 1 + b, s ! 2 + c, s ! 3 + d, s ! 4 + e, s ! 5 + f, s ! 6 + g, s ! 7 + h])"

section \<open>Reference compression function (FIPS 180-4)\<close>

text \<open>The first 64 bits of the fractional parts of the cube roots of the first 80 primes, in decimal.\<close>

definition sha512_K :: "u64 list" where
  "sha512_K =
    [4794697086780616226, 8158064640168781261, 13096744586834688815, 16840607885511220156,
     4131703408338449720, 6480981068601479193, 10538285296894168987, 12329834152419229976,
     15566598209576043074, 1334009975649890238, 2608012711638119052, 6128411473006802146,
     8268148722764581231, 9286055187155687089, 11230858885718282805, 13951009754708518548,
     16472876342353939154, 17275323862435702243, 1135362057144423861, 2597628984639134821,
     3308224258029322869, 5365058923640841347, 6679025012923562964, 8573033837759648693,
     10970295158949994411, 12119686244451234320, 12683024718118986047, 13788192230050041572,
     14330467153632333762, 15395433587784984357, 489312712824947311, 1452737877330783856,
     2861767655752347644, 3322285676063803686, 5560940570517711597, 5996557281743188959,
     7280758554555802590, 8532644243296465576, 9350256976987008742, 10552545826968843579,
     11727347734174303076, 12113106623233404929, 14000437183269869457, 14369950271660146224,
     15101387698204529176, 15463397548674623760, 17586052441742319658, 1182934255886127544,
     1847814050463011016, 2177327727835720531, 2830643537854262169, 3796741975233480872,
     4115178125766777443, 5681478168544905931, 6601373596472566643, 7507060721942968483,
     8399075790359081724, 8693463985226723168, 9568029438360202098, 10144078919501101548,
     10430055236837252648, 11840083180663258601, 13761210420658862357, 14299343276471374635,
     14566680578165727644, 15097957966210449927, 16922976911328602910, 17689382322260857208,
     500013540394364858, 748580250866718886, 1242879168328830382, 1977374033974150939,
     2944078676154940804, 3659926193048069267, 4368137639120453308, 4836135668995329356,
     5532061633213252278, 6448918945643986474, 6902733635092675308, 7801388544844847127]"

fun sha512_W :: "bytes \<Rightarrow> nat \<Rightarrow> u64" where
  "sha512_W m t =
     (if t < 16 then ReadBE64 (drop (8 * t) m)
      else (let x = sha512_W m (t - 2) in word_rotr 19 x XOR word_rotr 61 x XOR drop_bit 6 x) + sha512_W m (t - 7)
         + (let x = sha512_W m (t - 15) in word_rotr 1 x XOR word_rotr 8 x XOR drop_bit 7 x) + sha512_W m (t - 16))"

declare sha512_W.simps [simp del]

definition sha512_step :: "bytes \<Rightarrow> u64 list \<Rightarrow> nat \<Rightarrow> u64 list" where
  "sha512_step m v t =
     (let T1 = v ! 7 + (let x = v ! 4 in word_rotr 14 x XOR word_rotr 18 x XOR word_rotr 41 x)
            + ((v ! 4 AND v ! 5) XOR (NOT (v ! 4) AND v ! 6)) + sha512_K ! t + sha512_W m t;
          T2 = (let x = v ! 0 in word_rotr 28 x XOR word_rotr 34 x XOR word_rotr 39 x)
            + ((v ! 0 AND v ! 1) XOR (v ! 0 AND v ! 2) XOR (v ! 1 AND v ! 2))
      in [T1 + T2, v ! 0, v ! 1, v ! 2, v ! 3 + T1, v ! 4, v ! 5, v ! 6])"

definition sha512_compress :: "u64 list \<Rightarrow> bytes \<Rightarrow> u64 list" where
  "sha512_compress H m = map2 (+) H (foldl (sha512_step m) H [0..<80])"

section \<open>The unrolled transform computes the reference compression\<close>

text \<open>The successive values of the registers \<open>a\<close> and \<open>e\<close>; the other six registers are
  delayed copies of them.\<close>

fun sha512_AE :: "u64 list \<Rightarrow> bytes \<Rightarrow> nat \<Rightarrow> u64 \<times> u64" where
  "sha512_AE H m t =
     (if t < 4 then (H ! (3 - t), H ! (7 - t))
      else prod.swap (sha512_Round
        (fst (sha512_AE H m (t - 1))) (fst (sha512_AE H m (t - 2))) (fst (sha512_AE H m (t - 3))) (fst (sha512_AE H m (t - 4)))
        (snd (sha512_AE H m (t - 1))) (snd (sha512_AE H m (t - 2))) (snd (sha512_AE H m (t - 3))) (snd (sha512_AE H m (t - 4)))
        (sha512_K ! (t - 4)) (sha512_W m (t - 4))))"

declare sha512_AE.simps [simp del]

definition sha512_A :: "u64 list \<Rightarrow> bytes \<Rightarrow> nat \<Rightarrow> u64" where
  "sha512_A H m t = fst (sha512_AE H m t)"

definition sha512_E :: "u64 list \<Rightarrow> bytes \<Rightarrow> nat \<Rightarrow> u64" where
  "sha512_E H m t = snd (sha512_AE H m t)"

lemma sha512_Round_AE:
  "t1 = t + 1 \<Longrightarrow> t2 = t + 2 \<Longrightarrow> t3 = t + 3 \<Longrightarrow> k = sha512_K ! t \<Longrightarrow>
   sha512_Round (sha512_A H m t3) (sha512_A H m t2) (sha512_A H m t1) (sha512_A H m t)
     (sha512_E H m t3) (sha512_E H m t2) (sha512_E H m t1) (sha512_E H m t) k (sha512_W m t)
   = (sha512_E H m (t + 4), sha512_A H m (t + 4))"
  unfolding sha512_A_def sha512_E_def
  by (simp add: sha512_AE.simps [of H m "4 + t"] prod_eq_iff add.commute [of t])

lemma sha512_rotr:
  "sha512_Sigma0 x = word_rotr 28 x XOR word_rotr 34 x XOR word_rotr 39 x"
  "sha512_Sigma1 x = word_rotr 14 x XOR word_rotr 18 x XOR word_rotr 41 x"
  "sha512_sigma0 x = word_rotr 1 x XOR word_rotr 8 x XOR drop_bit 7 x"
  "sha512_sigma1 x = word_rotr 19 x XOR word_rotr 61 x XOR drop_bit 6 x"
  "sha512_Ch x y z = (x AND y) XOR (NOT x AND z)"
  "sha512_Maj x y z = (x AND y) XOR (x AND z) XOR (y AND z)"
  by (simp_all add: sha512_Sigma0_def sha512_Sigma1_def sha512_sigma0_def sha512_sigma1_def
    sha512_Ch_def sha512_Maj_def rotr_drop_push choose_xor_form majority_or_form)

lemma sha512_W_rec:
  assumes "t1 = t + 1" "t9 = t + 9" "t14 = t + 14"
  shows "sha512_W m t + (sha512_sigma1 (sha512_W m t14) + sha512_W m t9 + sha512_sigma0 (sha512_W m t1)) = sha512_W m (t + 16)"
    and "sha512_W m t + sha512_sigma1 (sha512_W m t14) + sha512_W m t9 + sha512_sigma0 (sha512_W m t1) = sha512_W m (t + 16)"
  by (simp_all add: assms sha512_W.simps [of m "t + 16"] sha512_rotr Let_def add.assoc add.left_commute add.commute)

lemma sha512_W_read: "n < 128 \<Longrightarrow> n mod 8 = 0 \<Longrightarrow> ReadBE64 (drop n m) = sha512_W m (n div 8)"
  by (subst sha512_W.simps) auto

lemma sha512_step_AE:
  "sha512_step m
     [sha512_A H m (t + 3), sha512_A H m (t + 2), sha512_A H m (t + 1), sha512_A H m t,
      sha512_E H m (t + 3), sha512_E H m (t + 2), sha512_E H m (t + 1), sha512_E H m t] t
   = [sha512_A H m (t + 4), sha512_A H m (t + 3), sha512_A H m (t + 2), sha512_A H m (t + 1),
      sha512_E H m (t + 4), sha512_E H m (t + 3), sha512_E H m (t + 2), sha512_E H m (t + 1)]"
  using sha512_Round_AE [OF refl refl refl refl, of H m t]
  by (simp add: sha512_step_def sha512_Round_def sha512_rotr Let_def)

lemma sha512_A_init:
  "H ! 0 = sha512_A H m 3" "H ! 1 = sha512_A H m 2" "H ! 2 = sha512_A H m 1" "H ! 3 = sha512_A H m 0"
  "H ! 4 = sha512_E H m 3" "H ! 5 = sha512_E H m 2" "H ! 6 = sha512_E H m 1" "H ! 7 = sha512_E H m 0"
  by (simp_all add: sha512_A_def sha512_E_def sha512_AE.simps)

lemma sha512_rounds_AE:
  "length H = 8 \<Longrightarrow> foldl (sha512_step m) H [0..<t] =
     [sha512_A H m (t + 3), sha512_A H m (t + 2), sha512_A H m (t + 1), sha512_A H m t,
      sha512_E H m (t + 3), sha512_E H m (t + 2), sha512_E H m (t + 1), sha512_E H m t]"
proof (induction t)
  case 0
  then have "H = [H ! 0, H ! 1, H ! 2, H ! 3, H ! 4, H ! 5, H ! 6, H ! 7]"
    by (auto simp: length_Suc_conv numeral_eq_Suc)
  then show ?case by (simp only: sha512_A_init [of H m, symmetric] add_0 upt_0 foldl.simps upt_conv_Nil le_refl)
next
  case (Suc t)
  then have "foldl (sha512_step m) H [0..<Suc t] = sha512_step m
     [sha512_A H m (t + 3), sha512_A H m (t + 2), sha512_A H m (t + 1), sha512_A H m t,
      sha512_E H m (t + 3), sha512_E H m (t + 2), sha512_E H m (t + 1), sha512_E H m t] t" by simp
  also note sha512_step_AE
  finally show ?case by (simp add: eval_nat_numeral)
qed

lemma sha512_compress_AE:
  "length H = 8 \<Longrightarrow> sha512_compress H m =
     [H ! 0 + sha512_A H m 83, H ! 1 + sha512_A H m 82, H ! 2 + sha512_A H m 81, H ! 3 + sha512_A H m 80,
      H ! 4 + sha512_E H m 83, H ! 5 + sha512_E H m 82, H ! 6 + sha512_E H m 81, H ! 7 + sha512_E H m 80]"
  unfolding sha512_compress_def by (subst sha512_rounds_AE) (auto simp: length_Suc_conv numeral_eq_Suc)

lemma length_sha512_compress: "length H = 8 \<Longrightarrow> length (sha512_compress H m) = 8"
  by (simp add: sha512_compress_AE)

text \<open>The bodies of the nested bindings are rewritten only once their variable is known.\<close>

lemma sha512_Transform_compress:
  "length s = 8 \<Longrightarrow> sha512_Transform s chunk = sha512_compress s chunk"
  unfolding sha512_Transform_def sha512_compress_AE
  by (simp add: sha512_A_init [of s chunk] sha512_W_read sha512_W_rec sha512_Round_AE Let_def
      sha512_K_def del: One_nat_def drop0 cong: let_weak_cong prod.case_cong_weak)

section \<open>The class CSHA512\<close>

text \<open>The constructor leaves the buffer uninitialised: its contents are an argument.
  \<^verbatim>\<open>Finalize\<close> returns the object it has modified and the digest.\<close>

definition CSHA512 :: "bytes \<Rightarrow> u64 hasher" where
  "CSHA512 b = \<lparr>hs = sha512_Initialize, hbuf = b, hbytes = 0\<rparr>"

definition CSHA512_Write :: "bytes \<Rightarrow> u64 hasher \<Rightarrow> u64 hasher" where
  "CSHA512_Write = hasher_Write 128 sha512_Transform"

definition CSHA512_Finalize :: "u64 hasher \<Rightarrow> u64 hasher \<times> bytes" where
  "CSHA512_Finalize h =
     (let sizedesc = replicate 8 0 @ WriteBE64 (push_bit 3 (hbytes h));
          h = CSHA512_Write (take (1 + ((239 - unat (hbytes h) mod 128) mod 128)) (pad_array 128)) h;
          h = CSHA512_Write sizedesc h
      in (h, concat (map WriteBE64 (hs h))))"

definition CSHA512_Reset :: "u64 hasher \<Rightarrow> u64 hasher" where
  "CSHA512_Reset h = h\<lparr>hbytes := 0, hs := sha512_Initialize\<rparr>"

text \<open>Specification: the padded message, cut into blocks, compressed in order.\<close>

definition sha512_digest :: "bytes \<Rightarrow> bytes" where
  "sha512_digest m = concat (map WriteBE64
     (foldl sha512_compress sha512_Initialize (chunks 128 (md_pad 128 (replicate 8 0 @ WriteBE64 (of_nat (8 * length m))) m))))"

lemma length_sha512_Initialize [simp]: "length sha512_Initialize = 8"
  by (simp add: sha512_Initialize_def)

interpretation sha512_block: block_hash 128 sha512_Transform
  by unfold_locales simp_all

lemma CSHA512_Write_eq: "CSHA512_Write data h = hasher_Write 128 sha512_Transform data h"
  by (simp add: CSHA512_Write_def)

interpretation sha512: hasher_class 128 sha512_Transform CSHA512_Write sha512_compress sha512_Initialize
  by unfold_locales (simp_all add: sha512_Transform_compress length_sha512_compress CSHA512_Write_eq)

lemma CSHA512_Finalize_holds:
  assumes "absorbed 128 sha512_Transform sha512_Initialize m h"
  shows "snd (CSHA512_Finalize h) = sha512_digest m"
proof -
  let ?szd = "replicate 8 0 @ WriteBE64 (push_bit 3 (hbytes h))"
  let ?k = "(239 - unat (hbytes h) mod 128) mod 128"
  have "?k = (2 * 128 - length ?szd - 1 - unat (hbytes h) mod 128) mod 128" by simp
  from sha512.Finalize_holds [OF assms this] show ?thesis
    unfolding CSHA512_Finalize_def sha512_digest_def Let_def snd_conv sha512.holds_hbytes [OF assms]
    by (rule arg_cong)
qed

lemma CSHA512_holds:
  assumes "length b = 128"
  shows "absorbed 128 sha512_Transform sha512_Initialize (concat ps) (fold CSHA512_Write ps (CSHA512 b))"
  using sha512.Write_list_holds [OF sha512_block.absorbed_init [OF assms], of ps] by (simp add: CSHA512_def)

lemma CSHA512_Reset_holds:
  "length (hbuf h) = 128 \<Longrightarrow> absorbed 128 sha512_Transform sha512_Initialize [] (CSHA512_Reset h)"
  by (simp add: CSHA512_Reset_def absorbed_def)

lemma length_sha512_digest [simp]: "length (sha512_digest m) = 64"
  by (simp add: sha512_digest_def length_concat_map_const sha512.length_foldl_compress)

lemma sha512_stream:
  "length b = 128 \<Longrightarrow>
   snd (CSHA512_Finalize (fold CSHA512_Write ps (CSHA512 b))) = sha512_digest (concat ps)"
  by (rule CSHA512_Finalize_holds [OF CSHA512_holds])

section \<open>Properties\<close>

text \<open>
  \<^verbatim>\<open>CSHA512\<close> computes SHA-512 of the whole message: however the message is split into \<^verbatim>\<open>Write\<close>
  calls, and whatever the uninitialised buffer holds, \<^verbatim>\<open>Finalize\<close> returns the digest that the
  round-by-round reference compression yields on the padded blocks of the concatenation.
\<close>
theorem CSHA512_correct:
  assumes "length b = 128"
  shows "snd (CSHA512_Finalize (fold CSHA512_Write ps (CSHA512 b))) = sha512_digest (concat ps)"
  using sha512_stream [OF assms] .

theorem CSHA512_correct_witness:
  "snd (CSHA512_Finalize (fold CSHA512_Write [[0x61], [], [0x62, 0x63]] (CSHA512 (replicate 128 0)))) = sha512_digest [0x61, 0x62, 0x63]"
  using CSHA512_correct [of "replicate 128 0" "[[0x61], [], [0x62, 0x63]]"] by simp

end
