(* ===== verification/Ripemd160.thy ===== *)
theory Ripemd160
  imports Hasher
begin

text \<open>
  RIPEMD-160 (\<^verbatim>\<open>src/crypto/ripemd160.cpp\<close>): the two interleaved lines as the source unrolls them,
  the class \<^verbatim>\<open>CRIPEMD160\<close>, the compression function with the selection and rotation tables of the
  algorithm's definition, and the proofs that relate them.
\<close>

unbundle bit_operations_syntax

section \<open>The code\<close>

definition ripemd160_f1 :: "u32 \<Rightarrow> u32 \<Rightarrow> u32 \<Rightarrow> u32" where
  "ripemd160_f1 x y z = x XOR y XOR z"

definition ripemd160_f2 :: "u32 \<Rightarrow> u32 \<Rightarrow> u32 \<Rightarrow> u32" where
  "ripemd160_f2 x y z = (x AND y) OR (NOT x AND z)"

definition ripemd160_f3 :: "u32 \<Rightarrow> u32 \<Rightarrow> u32 \<Rightarrow> u32" where
  "ripemd160_f3 x y z = (x OR NOT y) XOR z"

definition ripemd160_f4 :: "u32 \<Rightarrow> u32 \<Rightarrow> u32 \<Rightarrow> u32" where
  "ripemd160_f4 x y z = (x AND z) OR (y AND NOT z)"

definition ripemd160_f5 :: "u32 \<Rightarrow> u32 \<Rightarrow> u32 \<Rightarrow> u32" where
  "ripemd160_f5 x y z = x XOR (y OR NOT z)"

definition ripemd160_Initialize :: "u32 list" where
  "ripemd160_Initialize = [0x67452301, 0xEFCDAB89, 0x98BADCFE, 0x10325476, 0xC3D2E1F0]"

definition ripemd160_rol :: "u32 \<Rightarrow> nat \<Rightarrow> u32" where
  "ripemd160_rol x i = push_bit i x OR drop_bit (32 - i) x"

text \<open>A round updates \<^verbatim>\<open>a\<close> and \<^verbatim>\<open>c\<close>, which are passed by reference.\<close>

definition ripemd160_Round :: "u32 \<Rightarrow> u32 \<Rightarrow> u32 \<Rightarrow> u32 \<Rightarrow> u32 \<Rightarrow> u32 \<Rightarrow> u32 \<Rightarrow> u32 \<Rightarrow> nat \<Rightarrow> u32 \<times> u32" where
  "ripemd160_Round a b c d e f x k r =
     (ripemd160_rol (a + f + x + k) r + e, ripemd160_rol c 10)"

definition ripemd160_R11 :: "u32 \<Rightarrow> u32 \<Rightarrow> u32 \<Rightarrow> u32 \<Rightarrow> u32 \<Rightarrow> u32 \<Rightarrow> nat \<Rightarrow> u32 \<times> u32" where
  "ripemd160_R11 a b c d e x r = ripemd160_Round a b c d e (ripemd160_f1 b c d) x 0 r"

definition ripemd160_R21 :: "u32 \<Rightarrow> u32 \<Rightarrow> u32 \<Rightarrow> u32 \<Rightarrow> u32 \<Rightarrow> u32 \<Rightarrow> nat \<Rightarrow> u32 \<times> u32" where
  "ripemd160_R21 a b c d e x r = ripemd160_Round a b c d e (ripemd160_f2 b c d) x 0x5A827999 r"

definition ripemd160_R31 :: "u32 \<Rightarrow> u32 \<Rightarrow> u32 \<Rightarrow> u32 \<Rightarrow> u32 \<Rightarrow> u32 \<Rightarrow> nat \<Rightarrow> u32 \<times> u32" where
  "ripemd160_R31 a b c d e x r = ripemd160_Round a b c d e (ripemd160_f3 b c d) x 0x6ED9EBA1 r"

definition ripemd160_R41 :: "u32 \<Rightarrow> u32 \<Rightarrow> u32 \<Rightarrow> u32 \<Rightarrow> u32 \<Rightarrow> u32 \<Rightarrow> nat \<Rightarrow> u32 \<times> u32" where
  "ripemd160_R41 a b c d e x r = ripemd160_Round a b c d e (ripemd160_f4 b c d) x 0x8F1BBCDC r"

definition ripemd160_R51 :: "u32 \<Rightarrow> u32 \<Rightarrow> u32 \<Rightarrow> u32 \<Rightarrow> u32 \<Rightarrow> u32 \<Rightarrow> nat \<Rightarrow> u32 \<times> u32" where
  "ripemd160_R51 a b c d e x r = ripemd160_Round a b c d e (ripemd160_f5 b c d) x 0xA953FD4E r"

definition ripemd160_R12 :: "u32 \<Rightarrow> u32 \<Rightarrow> u32 \<Rightarrow> u32 \<Rightarrow> u32 \<Rightarrow> u32 \<Rightarrow> nat \<Rightarrow> u32 \<times> u32" where
  "ripemd160_R12 a b c d e x r = ripemd160_Round a b c d e (ripemd160_f5 b c d) x 0x50A28BE6 r"

definition ripemd160_R22 :: "u32 \<Rightarrow> u32 \<Rightarrow> u32 \<Rightarrow> u32 \<Rightarrow> u32 \<Rightarrow> u32 \<Rightarrow> nat \<Rightarrow> u32 \<times> u32" where
  "ripemd160_R22 a b c d e x r = ripemd160_Round a b c d e (ripemd160_f4 b c d) x 0x5C4DD124 r"

definition ripemd160_R32 :: "u32 \<Rightarrow> u32 \<Rightarrow> u32 \<Rightarrow> u32 \<Rightarrow> u32 \<Rightarrow> u32 \<Rightarrow> nat \<Rightarrow> u32 \<times> u32" where
  "ripemd160_R32 a b c d e x r = ripemd160_Round a b c d e (ripemd160_f3 b c d) x 0x6D703EF3 r"

definition ripemd160_R42 :: "u32 \<Rightarrow> u32 \<Rightarrow> u32 \<Rightarrow> u32 \<Rightarrow> u32 \<Rightarrow> u32 \<Rightarrow> nat \<Rightarrow> u32 \<times> u32" where
  "ripemd160_R42 a b c d e x r = ripemd160_Round a b c d e (ripemd160_f2 b c d) x 0x7A6D76E9 r"

definition ripemd160_R52 :: "u32 \<Rightarrow> u32 \<Rightarrow> u32 \<Rightarrow> u32 \<Rightarrow> u32 \<Rightarrow> u32 \<Rightarrow> nat \<Rightarrow> u32 \<times> u32" where
  "ripemd160_R52 a b c d e x r = ripemd160_Round a b c d e (ripemd160_f1 b c d) x 0 r"

definition ripemd160_Transform :: "u32 list \<Rightarrow> bytes \<Rightarrow> u32 list" where
  "ripemd160_Transform s chunk =
     (let a1 = s ! 0; b1 = s ! 1; c1 = s ! 2; d1 = s ! 3; e1 = s ! 4;
       a2 = a1; b2 = b1; c2 = c1; d2 = d1; e2 = e1;
       w0 = ReadLE32 (drop 0 chunk); w1 = ReadLE32 (drop 4 chunk); w2 = ReadLE32 (drop 8 chunk); w3 = ReadLE32 (drop 12 chunk);
       w4 = ReadLE32 (drop 16 chunk); w5 = ReadLE32 (drop 20 chunk); w6 = ReadLE32 (drop 24 chunk); w7 = ReadLE32 (drop 28 chunk);
       w8 = ReadLE32 (drop 32 chunk); w9 = ReadLE32 (drop 36 chunk); w10 = ReadLE32 (drop 40 chunk); w11 = ReadLE32 (drop 44 chunk);
       w12 = ReadLE32 (drop 48 chunk); w13 = ReadLE32 (drop 52 chunk); w14 = ReadLE32 (drop 56 chunk); w15 = ReadLE32 (drop 60 chunk);
       (a1, c1) = ripemd160_R11 a1 b1 c1 d1 e1 w0 11;
       (a2, c2) = ripemd160_R12 a2 b2 c2 d2 e2 w5 8;
       (e1, b1) = ripemd160_R11 e1 a1 b1 c1 d1 w1 14;
       (e2, b2) = ripemd160_R12 e2 a2 b2 c2 d2 w14 9;
       (d1, a1) = ripemd160_R11 d1 e1 a1 b1 c1 w2 15;
       (d2, a2) = ripemd160_R12 d2 e2 a2 b2 c2 w7 9;
       (c1, e1) = ripemd160_R11 c1 d1 e1 a1 b1 w3 12;
       (c2, e2) = ripemd160_R12 c2 d2 e2 a2 b2 w0 11;
       (b1, d1) = ripemd160_R11 b1 c1 d1 e1 a1 w4 5;
       (b2, d2) = ripemd160_R12 b2 c2 d2 e2 a2 w9 13;
       (a1, c1) = ripemd160_R11 a1 b1 c1 d1 e1 w5 8;
       (a2, c2) = ripemd160_R12 a2 b2 c2 d2 e2 w2 15;
       (e1, b1) = ripemd160_R11 e1 a1 b1 c1 d1 w6 7;
       (e2, b2) = ripemd160_R12 e2 a2 b2 c2 d2 w11 15;
       (d1, a1) = ripemd160_R11 d1 e1 a1 b1 c1 w7 9;
       (d2, a2) = ripemd160_R12 d2 e2 a2 b2 c2 w4 5;
       (c1, e1) = ripemd160_R11 c1 d1 e1 a1 b1 w8 11;
       (c2, e2) = ripemd160_R12 c2 d2 e2 a2 b2 w13 7;
       (b1, d1) = ripemd160_R11 b1 c1 d1 e1 a1 w9 13;
       (b2, d2) = ripemd160_R12 b2 c2 d2 e2 a2 w6 7;
       (a1, c1) = ripemd160_R11 a1 b1 c1 d1 e1 w10 14;
       (a2, c2) = ripemd160_R12 a2 b2 c2 d2 e2 w15 8;
       (e1, b1) = ripemd160_R11 e1 a1 b1 c1 d1 w11 15;
       (e2, b2) = ripemd160_R12 e2 a2 b2 c2 d2 w8 11;
       (d1, a1) = ripemd160_R11 d1 e1 a1 b1 c1 w12 6;
       (d2, a2) = ripemd160_R12 d2 e2 a2 b2 c2 w1 14;
       (c1, e1) = ripemd160_R11 c1 d1 e1 a1 b1 w13 7;
       (c2, e2) = ripemd160_R12 c2 d2 e2 a2 b2 w10 14;
       (b1, d1) = ripemd160_R11 b1 c1 d1 e1 a1 w14 9;
       (b2, d2) = ripemd160_R12 b2 c2 d2 e2 a2 w3 12;
       (a1, c1) = ripemd160_R11 a1 b1 c1 d1 e1 w15 8;
       (a2, c2) = ripemd160_R12 a2 b2 c2 d2 e2 w12 6;
       (e1, b1) = ripemd160_R21 e1 a1 b1 c1 d1 w7 7;
       (e2, b2) = ripemd160_R22 e2 a2 b2 c2 d2 w6 9;
       (d1, a1) = ripemd160_R21 d1 e1 a1 b1 c1 w4 6;
       (d2, a2) = ripemd160_R22 d2 e2 a2 b2 c2 w11 13;
       (c1, e1) = ripemd160_R21 c1 d1 e1 a1 b1 w13 8;
       (c2, e2) = ripemd160_R22 c2 d2 e2 a2 b2 w3 15;
       (b1, d1) = ripemd160_R21 b1 c1 d1 e1 a1 w1 13;
       (b2, d2) = ripemd160_R22 b2 c2 d2 e2 a2 w7 7;
       (a1, c1) = ripemd160_R21 a1 b1 c1 d1 e1 w10 11;
       (a2, c2) = ripemd160_R22 a2 b2 c2 d2 e2 w0 12;
       (e1, b1) = ripemd160_R21 e1 a1 b1 c1 d1 w6 9;
       (e2, b2) = ripemd160_R22 e2 a2 b2 c2 d2 w13 8;
       (d1, a1) = ripemd160_R21 d1 e1 a1 b1 c1 w15 7;
       (d2, a2) = ripemd160_R22 d2 e2 a2 b2 c2 w5 9;
       (c1, e1) = ripemd160_R21 c1 d1 e1 a1 b1 w3 15;
       (c2, e2) = ripemd160_R22 c2 d2 e2 a2 b2 w10 11;
       (b1, d1) = ripemd160_R21 b1 c1 d1 e1 a1 w12 7;
       (b2, d2) = ripemd160_R22 b2 c2 d2 e2 a2 w14 7;
       (a1, c1) = ripemd160_R21 a1 b1 c1 d1 e1 w0 12;
       (a2, c2) = ripemd160_R22 a2 b2 c2 d2 e2 w15 7;
       (e1, b1) = ripemd160_R21 e1 a1 b1 c1 d1 w9 15;
       (e2, b2) = ripemd160_R22 e2 a2 b2 c2 d2 w8 12;
       (d1, a1) = ripemd160_R21 d1 e1 a1 b1 c1 w5 9;
       (d2, a2) = ripemd160_R22 d2 e2 a2 b2 c2 w12 7;
       (c1, e1) = ripemd160_R21 c1 d1 e1 a1 b1 w2 11;
       (c2, e2) = ripemd160_R22 c2 d2 e2 a2 b2 w4 6;
       (b1, d1) = ripemd160_R21 b1 c1 d1 e1 a1 w14 7;
       (b2, d2) = ripemd160_R22 b2 c2 d2 e2 a2 w9 15;
       (a1, c1) = ripemd160_R21 a1 b1 c1 d1 e1 w11 13;
       (a2, c2) = ripemd160_R22 a2 b2 c2 d2 e2 w1 13;
       (e1, b1) = ripemd160_R21 e1 a1 b1 c1 d1 w8 12;
       (e2, b2) = ripemd160_R22 e2 a2 b2 c2 d2 w2 11;
       (d1, a1) = ripemd160_R31 d1 e1 a1 b1 c1 w3 11;
       (d2, a2) = ripemd160_R32 d2 e2 a2 b2 c2 w15 9;
       (c1, e1) = ripemd160_R31 c1 d1 e1 a1 b1 w10 13;
       (c2, e2) = ripemd160_R32 c2 d2 e2 a2 b2 w5 7;
       (b1, d1) = ripemd160_R31 b1 c1 d1 e1 a1 w14 6;
       (b2, d2) = ripemd160_R32 b2 c2 d2 e2 a2 w1 15;
       (a1, c1) = ripemd160_R31 a1 b1 c1 d1 e1 w4 7;
       (a2, c2) = ripemd160_R32 a2 b2 c2 d2 e2 w3 11;
       (e1, b1) = ripemd160_R31 e1 a1 b1 c1 d1 w9 14;
       (e2, b2) = ripemd160_R32 e2 a2 b2 c2 d2 w7 8;
       (d1, a1) = ripemd160_R31 d1 e1 a1 b1 c1 w15 9;
       (d2, a2) = ripemd160_R32 d2 e2 a2 b2 c2 w14 6;
       (c1, e1) = ripemd160_R31 c1 d1 e1 a1 b1 w8 13;
       (c2, e2) = ripemd160_R32 c2 d2 e2 a2 b2 w6 6;
       (b1, d1) = ripemd160_R31 b1 c1 d1 e1 a1 w1 15;
       (b2, d2) = ripemd160_R32 b2 c2 d2 e2 a2 w9 14;
       (a1, c1) = ripemd160_R31 a1 b1 c1 d1 e1 w2 14;
       (a2, c2) = ripemd160_R32 a2 b2 c2 d2 e2 w11 12;
       (e1, b1) = ripemd160_R31 e1 a1 b1 c1 d1 w7 8;
       (e2, b2) = ripemd160_R32 e2 a2 b2 c2 d2 w8 13;
       (d1, a1) = ripemd160_R31 d1 e1 a1 b1 c1 w0 13;
       (d2, a2) = ripemd160_R32 d2 e2 a2 b2 c2 w12 5;
       (c1, e1) = ripemd160_R31 c1 d1 e1 a1 b1 w6 6;
       (c2, e2) = ripemd160_R32 c2 d2 e2 a2 b2 w2 14;
       (b1, d1) = ripemd160_R31 b1 c1 d1 e1 a1 w13 5;
       (b2, d2) = ripemd160_R32 b2 c2 d2 e2 a2 w10 13;
       (a1, c1) = ripemd160_R31 a1 b1 c1 d1 e1 w11 12;
       (a2, c2) = ripemd160_R32 a2 b2 c2 d2 e2 w0 13;
       (e1, b1) = ripemd160_R31 e1 a1 b1 c1 d1 w5 7;
       (e2, b2) = ripemd160_R32 e2 a2 b2 c2 d2 w4 7;
       (d1, a1) = ripemd160_R31 d1 e1 a1 b1 c1 w12 5;
       (d2, a2) = ripemd160_R32 d2 e2 a2 b2 c2 w13 5;
       (c1, e1) = ripemd160_R41 c1 d1 e1 a1 b1 w1 11;
       (c2, e2) = ripemd160_R42 c2 d2 e2 a2 b2 w8 15;
       (b1, d1) = ripemd160_R41 b1 c1 d1 e1 a1 w9 12;
       (b2, d2) = ripemd160_R42 b2 c2 d2 e2 a2 w6 5;
       (a1, c1) = ripemd160_R41 a1 b1 c1 d1 e1 w11 14;
       (a2, c2) = ripemd160_R42 a2 b2 c2 d2 e2 w4 8;
       (e1, b1) = ripemd160_R41 e1 a1 b1 c1 d1 w10 15;
       (e2, b2) = ripemd160_R42 e2 a2 b2 c2 d2 w1 11;
       (d1, a1) = ripemd160_R41 d1 e1 a1 b1 c1 w0 14;
       (d2, a2) = ripemd160_R42 d2 e2 a2 b2 c2 w3 14;
       (c1, e1) = ripemd160_R41 c1 d1 e1 a1 b1 w8 15;
       (c2, e2) = ripemd160_R42 c2 d2 e2 a2 b2 w11 14;
       (b1, d1) = ripemd160_R41 b1 c1 d1 e1 a1 w12 9;
       (b2, d2) = ripemd160_R42 b2 c2 d2 e2 a2 w15 6;
       (a1, c1) = ripemd160_R41 a1 b1 c1 d1 e1 w4 8;
       (a2, c2) = ripemd160_R42 a2 b2 c2 d2 e2 w0 14;
       (e1, b1) = ripemd160_R41 e1 a1 b1 c1 d1 w13 9;
       (e2, b2) = ripemd160_R42 e2 a2 b2 c2 d2 w5 6;
       (d1, a1) = ripemd160_R41 d1 e1 a1 b1 c1 w3 14;
       (d2, a2) = ripemd160_R42 d2 e2 a2 b2 c2 w12 9;
       (c1, e1) = ripemd160_R41 c1 d1 e1 a1 b1 w7 5;
       (c2, e2) = ripemd160_R42 c2 d2 e2 a2 b2 w2 12;
       (b1, d1) = ripemd160_R41 b1 c1 d1 e1 a1 w15 6;
       (b2, d2) = ripemd160_R42 b2 c2 d2 e2 a2 w13 9;
       (a1, c1) = ripemd160_R41 a1 b1 c1 d1 e1 w14 8;
       (a2, c2) = ripemd160_R42 a2 b2 c2 d2 e2 w9 12;
       (e1, b1) = ripemd160_R41 e1 a1 b1 c1 d1 w5 6;
       (e2, b2) = ripemd160_R42 e2 a2 b2 c2 d2 w7 5;
       (d1, a1) = ripemd160_R41 d1 e1 a1 b1 c1 w6 5;
       (d2, a2) = ripemd160_R42 d2 e2 a2 b2 c2 w10 15;
       (c1, e1) = ripemd160_R41 c1 d1 e1 a1 b1 w2 12;
       (c2, e2) = ripemd160_R42 c2 d2 e2 a2 b2 w14 8;
       (b1, d1) = ripemd160_R51 b1 c1 d1 e1 a1 w4 9;
       (b2, d2) = ripemd160_R52 b2 c2 d2 e2 a2 w12 8;
       (a1, c1) = ripemd160_R51 a1 b1 c1 d1 e1 w0 15;
       (a2, c2) = ripemd160_R52 a2 b2 c2 d2 e2 w15 5;
       (e1, b1) = ripemd160_R51 e1 a1 b1 c1 d1 w5 5;
       (e2, b2) = ripemd160_R52 e2 a2 b2 c2 d2 w10 12;
       (d1, a1) = ripemd160_R51 d1 e1 a1 b1 c1 w9 11;
       (d2, a2) = ripemd160_R52 d2 e2 a2 b2 c2 w4 9;
       (c1, e1) = ripemd160_R51 c1 d1 e1 a1 b1 w7 6;
       (c2, e2) = ripemd160_R52 c2 d2 e2 a2 b2 w1 12;
       (b1, d1) = ripemd160_R51 b1 c1 d1 e1 a1 w12 8;
       (b2, d2) = ripemd160_R52 b2 c2 d2 e2 a2 w5 5;
       (a1, c1) = ripemd160_R51 a1 b1 c1 d1 e1 w2 13;
       (a2, c2) = ripemd160_R52 a2 b2 c2 d2 e2 w8 14;
       (e1, b1) = ripemd160_R51 e1 a1 b1 c1 d1 w10 12;
       (e2, b2) = ripemd160_R52 e2 a2 b2 c2 d2 w7 6;
       (d1, a1) = ripemd160_R51 d1 e1 a1 b1 c1 w14 5;
       (d2, a2) = ripemd160_R52 d2 e2 a2 b2 c2 w6 8;
       (c1, e1) = ripemd160_R51 c1 d1 e1 a1 b1 w1 12;
       (c2, e2) = ripemd160_R52 c2 d2 e2 a2 b2 w2 13;
       (b1, d1) = ripemd160_R51 b1 c1 d1 e1 a1 w3 13;
       (b2, d2) = ripemd160_R52 b2 c2 d2 e2 a2 w13 6;
       (a1, c1) = ripemd160_R51 a1 b1 c1 d1 e1 w8 14;
       (a2, c2) = ripemd160_R52 a2 b2 c2 d2 e2 w14 5;
       (e1, b1) = ripemd160_R51 e1 a1 b1 c1 d1 w11 11;
       (e2, b2) = ripemd160_R52 e2 a2 b2 c2 d2 w0 15;
       (d1, a1) = ripemd160_R51 d1 e1 a1 b1 c1 w6 8;
       (d2, a2) = ripemd160_R52 d2 e2 a2 b2 c2 w3 13;
       (c1, e1) = ripemd160_R51 c1 d1 e1 a1 b1 w15 5;
       (c2, e2) = ripemd160_R52 c2 d2 e2 a2 b2 w9 11;
       (b1, d1) = ripemd160_R51 b1 c1 d1 e1 a1 w13 6;
       (b2, d2) = ripemd160_R52 b2 c2 d2 e2 a2 w11 11;
       t = s ! 0
      in [s ! 1 + c1 + d2, s ! 2 + d1 + e2, s ! 3 + e1 + a2, s ! 4 + a1 + b2, t + b1 + c2])"

section \<open>Reference compression function (Dobbertin, Bosselaers, Preneel)\<close>

text \<open>Message word selection and rotation amounts of the left (\<open>True\<close>) and right line.\<close>

definition ripemd160_r :: "bool \<Rightarrow> nat list" where
  "ripemd160_r left =
     (if left then
       [0, 1, 2, 3, 4, 5, 6, 7, 8, 9, 10, 11, 12, 13, 14, 15,
        7, 4, 13, 1, 10, 6, 15, 3, 12, 0, 9, 5, 2, 14, 11, 8,
        3, 10, 14, 4, 9, 15, 8, 1, 2, 7, 0, 6, 13, 11, 5, 12,
        1, 9, 11, 10, 0, 8, 12, 4, 13, 3, 7, 15, 14, 5, 6, 2,
        4, 0, 5, 9, 7, 12, 2, 10, 14, 1, 3, 8, 11, 6, 15, 13]
      else
       [5, 14, 7, 0, 9, 2, 11, 4, 13, 6, 15, 8, 1, 10, 3, 12,
        6, 11, 3, 7, 0, 13, 5, 10, 14, 15, 8, 12, 4, 9, 1, 2,
        15, 5, 1, 3, 7, 14, 6, 9, 11, 8, 12, 2, 10, 0, 4, 13,
        8, 6, 4, 1, 3, 11, 15, 0, 5, 12, 2, 13, 9, 7, 10, 14,
        12, 15, 10, 4, 1, 5, 8, 7, 6, 2, 13, 14, 0, 3, 9, 11])"

definition ripemd160_s :: "bool \<Rightarrow> nat list" where
  "ripemd160_s left =
     (if left then
       [11, 14, 15, 12, 5, 8, 7, 9, 11, 13, 14, 15, 6, 7, 9, 8,
        7, 6, 8, 13, 11, 9, 7, 15, 7, 12, 15, 9, 11, 7, 13, 12,
        11, 13, 6, 7, 14, 9, 13, 15, 14, 8, 13, 6, 5, 12, 7, 5,
        11, 12, 14, 15, 14, 15, 9, 8, 9, 14, 5, 6, 8, 6, 5, 12,
        9, 15, 5, 11, 6, 8, 13, 12, 5, 12, 13, 14, 11, 8, 5, 6]
      else
       [8, 9, 9, 11, 13, 15, 15, 5, 7, 7, 8, 11, 14, 14, 12, 6,
        9, 13, 15, 7, 12, 8, 9, 11, 7, 7, 12, 7, 6, 15, 13, 11,
        9, 7, 15, 11, 8, 6, 6, 14, 12, 13, 5, 14, 13, 13, 7, 5,
        15, 5, 8, 11, 14, 14, 6, 14, 6, 9, 12, 9, 12, 5, 15, 8,
        8, 5, 12, 9, 12, 5, 14, 6, 8, 13, 6, 5, 15, 13, 11, 11])"

definition ripemd160_K :: "bool \<Rightarrow> nat \<Rightarrow> u32" where
  "ripemd160_K left t = (if left then [0, 0x5A827999, 0x6ED9EBA1, 0x8F1BBCDC, 0xA953FD4E]
     else [0x50A28BE6, 0x5C4DD124, 0x6D703EF3, 0x7A6D76E9, 0]) ! (t div 16)"

definition ripemd160_F :: "bool \<Rightarrow> nat \<Rightarrow> u32 \<Rightarrow> u32 \<Rightarrow> u32 \<Rightarrow> u32" where
  "ripemd160_F left t x y z =
     [x XOR y XOR z, (x AND y) OR (NOT x AND z), (x OR NOT y) XOR z,
      (x AND z) OR (y AND NOT z), x XOR (y OR NOT z)] ! (if left then t div 16 else 4 - t div 16)"

definition ripemd160_X :: "bytes \<Rightarrow> nat \<Rightarrow> u32" where
  "ripemd160_X m i = ReadLE32 (drop (4 * i) m)"

definition ripemd160_step :: "bool \<Rightarrow> bytes \<Rightarrow> u32 list \<Rightarrow> nat \<Rightarrow> u32 list" where
  "ripemd160_step left m v t =
     [v ! 4,
      word_rotl (ripemd160_s left ! t) (v ! 0 + ripemd160_F left t (v ! 1) (v ! 2) (v ! 3)
        + ripemd160_X m (ripemd160_r left ! t) + ripemd160_K left t) + v ! 4,
      v ! 1, word_rotl 10 (v ! 2), v ! 3]"

definition ripemd160_compress :: "u32 list \<Rightarrow> bytes \<Rightarrow> u32 list" where
  "ripemd160_compress H m =
     (let v = foldl (ripemd160_step True m) H [0..<80];
          v' = foldl (ripemd160_step False m) H [0..<80]
      in [H ! 1 + v ! 2 + v' ! 3, H ! 2 + v ! 3 + v' ! 4, H ! 3 + v ! 4 + v' ! 0,
          H ! 4 + v ! 0 + v' ! 1, H ! 0 + v ! 1 + v' ! 2])"

section \<open>The unrolled transform computes the reference compression\<close>

text \<open>The successive values of the register \<open>b\<close> of a line, paired with the rotated value it has
  once it has moved to the register \<open>d\<close>.\<close>

fun ripemd160_QR :: "bool \<Rightarrow> u32 list \<Rightarrow> bytes \<Rightarrow> nat \<Rightarrow> u32 \<times> u32" where
  "ripemd160_QR left H m t =
     (if t < 3 then (0, [H ! 0, H ! 4, H ! 3] ! t)
      else let q = (if t < 5 then H ! (5 - t)
             else word_rotl (ripemd160_s left ! (t - 5))
               (snd (ripemd160_QR left H m (t - 5))
                + ripemd160_F left (t - 5) (fst (ripemd160_QR left H m (t - 1)))
                    (fst (ripemd160_QR left H m (t - 2))) (snd (ripemd160_QR left H m (t - 3)))
                + ripemd160_X m (ripemd160_r left ! (t - 5)) + ripemd160_K left (t - 5))
               + snd (ripemd160_QR left H m (t - 4)))
           in (q, word_rotl 10 q))"

declare ripemd160_QR.simps [simp del]

definition ripemd160_Q :: "bool \<Rightarrow> u32 list \<Rightarrow> bytes \<Rightarrow> nat \<Rightarrow> u32" where
  "ripemd160_Q left H m t = fst (ripemd160_QR left H m t)"

definition ripemd160_R :: "bool \<Rightarrow> u32 list \<Rightarrow> bytes \<Rightarrow> nat \<Rightarrow> u32" where
  "ripemd160_R left H m t = snd (ripemd160_QR left H m t)"

lemma ripemd160_R_rotl: "3 \<le> t \<Longrightarrow> ripemd160_R left H m t = word_rotl 10 (ripemd160_Q left H m t)"
  unfolding ripemd160_Q_def ripemd160_R_def by (subst (1 2) ripemd160_QR.simps) (simp add: Let_def)

lemma ripemd160_Q_rec:
  "ripemd160_Q left H m (t + 5) = word_rotl (ripemd160_s left ! t) (ripemd160_R left H m t
     + ripemd160_F left t (ripemd160_Q left H m (t + 4)) (ripemd160_Q left H m (t + 3)) (ripemd160_R left H m (t + 2))
     + ripemd160_X m (ripemd160_r left ! t) + ripemd160_K left t) + ripemd160_R left H m (t + 1)"
  unfolding ripemd160_Q_def ripemd160_R_def
  by (subst ripemd160_QR.simps) (simp add: Let_def add.commute [of t])

lemma ripemd160_rol_rotl: "0 < i \<Longrightarrow> i < 32 \<Longrightarrow> ripemd160_rol x i = word_rotl i x"
  unfolding ripemd160_rol_def by (rule rotl_push_drop) simp_all

lemma ripemd160_Round_Q:
  assumes "t1 = t + 1" "t2 = t + 2" "t3 = t + 3" "t4 = t + 4" "k = ripemd160_K left t"
    and "f = ripemd160_F left t (ripemd160_Q left H m t4) (ripemd160_Q left H m t3) (ripemd160_R left H m t2)"
    and "i = ripemd160_r left ! t" "r = ripemd160_s left ! t" "0 < r" "r < 32"
  shows "ripemd160_Round (ripemd160_R left H m t) (ripemd160_Q left H m t4) (ripemd160_Q left H m t3)
      (ripemd160_R left H m t2) (ripemd160_R left H m t1) f (ripemd160_X m i) k r
    = (ripemd160_Q left H m (t + 5), ripemd160_R left H m t3)"
  using assms(9,10) unfolding ripemd160_Q_rec assms
  by (simp add: ripemd160_Round_def ripemd160_rol_rotl ripemd160_R_rotl)

lemma ripemd160_X_read: "n < 64 \<Longrightarrow> n mod 4 = 0 \<Longrightarrow> ReadLE32 (drop n m) = ripemd160_X m (n div 4)"
  by (auto simp: ripemd160_X_def)

lemma ripemd160_Q_init:
  "ripemd160_R left H m 0 = H ! 0" "ripemd160_Q left H m 4 = H ! 1" "ripemd160_Q left H m 3 = H ! 2"
  "ripemd160_R left H m 2 = H ! 3" "ripemd160_R left H m 1 = H ! 4"
  by (simp_all add: ripemd160_Q_def ripemd160_R_def ripemd160_QR.simps Let_def)

lemma ripemd160_step_Q:
  "ripemd160_step left m [ripemd160_R left H m t, ripemd160_Q left H m (t + 4), ripemd160_Q left H m (t + 3),
      ripemd160_R left H m (t + 2), ripemd160_R left H m (t + 1)] t
   = [ripemd160_R left H m (t + 1), ripemd160_Q left H m (t + 5), ripemd160_Q left H m (t + 4),
      ripemd160_R left H m (t + 3), ripemd160_R left H m (t + 2)]"
  by (simp add: ripemd160_step_def ripemd160_Q_rec ripemd160_R_rotl)

lemma ripemd160_rounds_Q:
  "length H = 5 \<Longrightarrow> foldl (ripemd160_step left m) H [0..<t] =
     [ripemd160_R left H m t, ripemd160_Q left H m (t + 4), ripemd160_Q left H m (t + 3),
      ripemd160_R left H m (t + 2), ripemd160_R left H m (t + 1)]"
proof (induction t)
  case 0
  then have "H = [H ! 0, H ! 1, H ! 2, H ! 3, H ! 4]"
    by (auto simp: length_Suc_conv numeral_eq_Suc)
  then show ?case by (simp only: ripemd160_Q_init add_0 upt_0 foldl.simps upt_conv_Nil le_refl)
next
  case (Suc t)
  then have "foldl (ripemd160_step left m) H [0..<Suc t] = ripemd160_step left m
     [ripemd160_R left H m t, ripemd160_Q left H m (t + 4), ripemd160_Q left H m (t + 3),
      ripemd160_R left H m (t + 2), ripemd160_R left H m (t + 1)] t" by simp
  also note ripemd160_step_Q
  finally show ?case by (simp add: eval_nat_numeral)
qed

lemma ripemd160_compress_Q:
  "length H = 5 \<Longrightarrow> ripemd160_compress H m =
     [H ! 1 + ripemd160_Q True H m 83 + ripemd160_R False H m 82,
      H ! 2 + ripemd160_R True H m 82 + ripemd160_R False H m 81,
      H ! 3 + ripemd160_R True H m 81 + ripemd160_R False H m 80,
      H ! 4 + ripemd160_R True H m 80 + ripemd160_Q False H m 84,
      H ! 0 + ripemd160_Q True H m 84 + ripemd160_Q False H m 83]"
  unfolding ripemd160_compress_def by (simp add: ripemd160_rounds_Q)

lemma length_ripemd160_compress: "length H = 5 \<Longrightarrow> length (ripemd160_compress H m) = 5"
  by (simp add: ripemd160_compress_def Let_def)

text \<open>The registers of the two lines start as copies of the chaining state; naming them as the
  start of the left and of the right sequence lets the rounds rewrite to these sequences.\<close>

definition ripemd160_lines :: "u32 list \<Rightarrow> bytes \<Rightarrow> u32 \<Rightarrow> u32 \<Rightarrow> u32 \<Rightarrow> u32 \<Rightarrow> u32 \<Rightarrow> u32 \<Rightarrow> u32 \<Rightarrow> u32 \<Rightarrow> u32 \<Rightarrow> u32 \<Rightarrow> u32 list" where
  "ripemd160_lines s chunk a1 b1 c1 d1 e1 a2 b2 c2 d2 e2 =
     (let w0 = ReadLE32 (drop 0 chunk); w1 = ReadLE32 (drop 4 chunk); w2 = ReadLE32 (drop 8 chunk); w3 = ReadLE32 (drop 12 chunk);
       w4 = ReadLE32 (drop 16 chunk); w5 = ReadLE32 (drop 20 chunk); w6 = ReadLE32 (drop 24 chunk); w7 = ReadLE32 (drop 28 chunk);
       w8 = ReadLE32 (drop 32 chunk); w9 = ReadLE32 (drop 36 chunk); w10 = ReadLE32 (drop 40 chunk); w11 = ReadLE32 (drop 44 chunk);
       w12 = ReadLE32 (drop 48 chunk); w13 = ReadLE32 (drop 52 chunk); w14 = ReadLE32 (drop 56 chunk); w15 = ReadLE32 (drop 60 chunk);
       (a1, c1) = ripemd160_R11 a1 b1 c1 d1 e1 w0 11;
       (a2, c2) = ripemd160_R12 a2 b2 c2 d2 e2 w5 8;
       (e1, b1) = ripemd160_R11 e1 a1 b1 c1 d1 w1 14;
       (e2, b2) = ripemd160_R12 e2 a2 b2 c2 d2 w14 9;
       (d1, a1) = ripemd160_R11 d1 e1 a1 b1 c1 w2 15;
       (d2, a2) = ripemd160_R12 d2 e2 a2 b2 c2 w7 9;
       (c1, e1) = ripemd160_R11 c1 d1 e1 a1 b1 w3 12;
       (c2, e2) = ripemd160_R12 c2 d2 e2 a2 b2 w0 11;
       (b1, d1) = ripemd160_R11 b1 c1 d1 e1 a1 w4 5;
       (b2, d2) = ripemd160_R12 b2 c2 d2 e2 a2 w9 13;
       (a1, c1) = ripemd160_R11 a1 b1 c1 d1 e1 w5 8;
       (a2, c2) = ripemd160_R12 a2 b2 c2 d2 e2 w2 15;
       (e1, b1) = ripemd160_R11 e1 a1 b1 c1 d1 w6 7;
       (e2, b2) = ripemd160_R12 e2 a2 b2 c2 d2 w11 15;
       (d1, a1) = ripemd160_R11 d1 e1 a1 b1 c1 w7 9;
       (d2, a2) = ripemd160_R12 d2 e2 a2 b2 c2 w4 5;
       (c1, e1) = ripemd160_R11 c1 d1 e1 a1 b1 w8 11;
       (c2, e2) = ripemd160_R12 c2 d2 e2 a2 b2 w13 7;
       (b1, d1) = ripemd160_R11 b1 c1 d1 e1 a1 w9 13;
       (b2, d2) = ripemd160_R12 b2 c2 d2 e2 a2 w6 7;
       (a1, c1) = ripemd160_R11 a1 b1 c1 d1 e1 w10 14;
       (a2, c2) = ripemd160_R12 a2 b2 c2 d2 e2 w15 8;
       (e1, b1) = ripemd160_R11 e1 a1 b1 c1 d1 w11 15;
       (e2, b2) = ripemd160_R12 e2 a2 b2 c2 d2 w8 11;
       (d1, a1) = ripemd160_R11 d1 e1 a1 b1 c1 w12 6;
       (d2, a2) = ripemd160_R12 d2 e2 a2 b2 c2 w1 14;
       (c1, e1) = ripemd160_R11 c1 d1 e1 a1 b1 w13 7;
       (c2, e2) = ripemd160_R12 c2 d2 e2 a2 b2 w10 14;
       (b1, d1) = ripemd160_R11 b1 c1 d1 e1 a1 w14 9;
       (b2, d2) = ripemd160_R12 b2 c2 d2 e2 a2 w3 12;
       (a1, c1) = ripemd160_R11 a1 b1 c1 d1 e1 w15 8;
       (a2, c2) = ripemd160_R12 a2 b2 c2 d2 e2 w12 6;
       (e1, b1) = ripemd160_R21 e1 a1 b1 c1 d1 w7 7;
       (e2, b2) = ripemd160_R22 e2 a2 b2 c2 d2 w6 9;
       (d1, a1) = ripemd160_R21 d1 e1 a1 b1 c1 w4 6;
       (d2, a2) = ripemd160_R22 d2 e2 a2 b2 c2 w11 13;
       (c1, e1) = ripemd160_R21 c1 d1 e1 a1 b1 w13 8;
       (c2, e2) = ripemd160_R22 c2 d2 e2 a2 b2 w3 15;
       (b1, d1) = ripemd160_R21 b1 c1 d1 e1 a1 w1 13;
       (b2, d2) = ripemd160_R22 b2 c2 d2 e2 a2 w7 7;
       (a1, c1) = ripemd160_R21 a1 b1 c1 d1 e1 w10 11;
       (a2, c2) = ripemd160_R22 a2 b2 c2 d2 e2 w0 12;
       (e1, b1) = ripemd160_R21 e1 a1 b1 c1 d1 w6 9;
       (e2, b2) = ripemd160_R22 e2 a2 b2 c2 d2 w13 8;
       (d1, a1) = ripemd160_R21 d1 e1 a1 b1 c1 w15 7;
       (d2, a2) = ripemd160_R22 d2 e2 a2 b2 c2 w5 9;
       (c1, e1) = ripemd160_R21 c1 d1 e1 a1 b1 w3 15;
       (c2, e2) = ripemd160_R22 c2 d2 e2 a2 b2 w10 11;
       (b1, d1) = ripemd160_R21 b1 c1 d1 e1 a1 w12 7;
       (b2, d2) = ripemd160_R22 b2 c2 d2 e2 a2 w14 7;
       (a1, c1) = ripemd160_R21 a1 b1 c1 d1 e1 w0 12;
       (a2, c2) = ripemd160_R22 a2 b2 c2 d2 e2 w15 7;
       (e1, b1) = ripemd160_R21 e1 a1 b1 c1 d1 w9 15;
       (e2, b2) = ripemd160_R22 e2 a2 b2 c2 d2 w8 12;
       (d1, a1) = ripemd160_R21 d1 e1 a1 b1 c1 w5 9;
       (d2, a2) = ripemd160_R22 d2 e2 a2 b2 c2 w12 7;
       (c1, e1) = ripemd160_R21 c1 d1 e1 a1 b1 w2 11;
       (c2, e2) = ripemd160_R22 c2 d2 e2 a2 b2 w4 6;
       (b1, d1) = ripemd160_R21 b1 c1 d1 e1 a1 w14 7;
       (b2, d2) = ripemd160_R22 b2 c2 d2 e2 a2 w9 15;
       (a1, c1) = ripemd160_R21 a1 b1 c1 d1 e1 w11 13;
       (a2, c2) = ripemd160_R22 a2 b2 c2 d2 e2 w1 13;
       (e1, b1) = ripemd160_R21 e1 a1 b1 c1 d1 w8 12;
       (e2, b2) = ripemd160_R22 e2 a2 b2 c2 d2 w2 11;
       (d1, a1) = ripemd160_R31 d1 e1 a1 b1 c1 w3 11;
       (d2, a2) = ripemd160_R32 d2 e2 a2 b2 c2 w15 9;
       (c1, e1) = ripemd160_R31 c1 d1 e1 a1 b1 w10 13;
       (c2, e2) = ripemd160_R32 c2 d2 e2 a2 b2 w5 7;
       (b1, d1) = ripemd160_R31 b1 c1 d1 e1 a1 w14 6;
       (b2, d2) = ripemd160_R32 b2 c2 d2 e2 a2 w1 15;
       (a1, c1) = ripemd160_R31 a1 b1 c1 d1 e1 w4 7;
       (a2, c2) = ripemd160_R32 a2 b2 c2 d2 e2 w3 11;
       (e1, b1) = ripemd160_R31 e1 a1 b1 c1 d1 w9 14;
       (e2, b2) = ripemd160_R32 e2 a2 b2 c2 d2 w7 8;
       (d1, a1) = ripemd160_R31 d1 e1 a1 b1 c1 w15 9;
       (d2, a2) = ripemd160_R32 d2 e2 a2 b2 c2 w14 6;
       (c1, e1) = ripemd160_R31 c1 d1 e1 a1 b1 w8 13;
       (c2, e2) = ripemd160_R32 c2 d2 e2 a2 b2 w6 6;
       (b1, d1) = ripemd160_R31 b1 c1 d1 e1 a1 w1 15;
       (b2, d2) = ripemd160_R32 b2 c2 d2 e2 a2 w9 14;
       (a1, c1) = ripemd160_R31 a1 b1 c1 d1 e1 w2 14;
       (a2, c2) = ripemd160_R32 a2 b2 c2 d2 e2 w11 12;
       (e1, b1) = ripemd160_R31 e1 a1 b1 c1 d1 w7 8;
       (e2, b2) = ripemd160_R32 e2 a2 b2 c2 d2 w8 13;
       (d1, a1) = ripemd160_R31 d1 e1 a1 b1 c1 w0 13;
       (d2, a2) = ripemd160_R32 d2 e2 a2 b2 c2 w12 5;
       (c1, e1) = ripemd160_R31 c1 d1 e1 a1 b1 w6 6;
       (c2, e2) = ripemd160_R32 c2 d2 e2 a2 b2 w2 14;
       (b1, d1) = ripemd160_R31 b1 c1 d1 e1 a1 w13 5;
       (b2, d2) = ripemd160_R32 b2 c2 d2 e2 a2 w10 13;
       (a1, c1) = ripemd160_R31 a1 b1 c1 d1 e1 w11 12;
       (a2, c2) = ripemd160_R32 a2 b2 c2 d2 e2 w0 13;
       (e1, b1) = ripemd160_R31 e1 a1 b1 c1 d1 w5 7;
       (e2, b2) = ripemd160_R32 e2 a2 b2 c2 d2 w4 7;
       (d1, a1) = ripemd160_R31 d1 e1 a1 b1 c1 w12 5;
       (d2, a2) = ripemd160_R32 d2 e2 a2 b2 c2 w13 5;
       (c1, e1) = ripemd160_R41 c1 d1 e1 a1 b1 w1 11;
       (c2, e2) = ripemd160_R42 c2 d2 e2 a2 b2 w8 15;
       (b1, d1) = ripemd160_R41 b1 c1 d1 e1 a1 w9 12;
       (b2, d2) = ripemd160_R42 b2 c2 d2 e2 a2 w6 5;
       (a1, c1) = ripemd160_R41 a1 b1 c1 d1 e1 w11 14;
       (a2, c2) = ripemd160_R42 a2 b2 c2 d2 e2 w4 8;
       (e1, b1) = ripemd160_R41 e1 a1 b1 c1 d1 w10 15;
       (e2, b2) = ripemd160_R42 e2 a2 b2 c2 d2 w1 11;
       (d1, a1) = ripemd160_R41 d1 e1 a1 b1 c1 w0 14;
       (d2, a2) = ripemd160_R42 d2 e2 a2 b2 c2 w3 14;
       (c1, e1) = ripemd160_R41 c1 d1 e1 a1 b1 w8 15;
       (c2, e2) = ripemd160_R42 c2 d2 e2 a2 b2 w11 14;
       (b1, d1) = ripemd160_R41 b1 c1 d1 e1 a1 w12 9;
       (b2, d2) = ripemd160_R42 b2 c2 d2 e2 a2 w15 6;
       (a1, c1) = ripemd160_R41 a1 b1 c1 d1 e1 w4 8;
       (a2, c2) = ripemd160_R42 a2 b2 c2 d2 e2 w0 14;
       (e1, b1) = ripemd160_R41 e1 a1 b1 c1 d1 w13 9;
       (e2, b2) = ripemd160_R42 e2 a2 b2 c2 d2 w5 6;
       (d1, a1) = ripemd160_R41 d1 e1 a1 b1 c1 w3 14;
       (d2, a2) = ripemd160_R42 d2 e2 a2 b2 c2 w12 9;
       (c1, e1) = ripemd160_R41 c1 d1 e1 a1 b1 w7 5;
       (c2, e2) = ripemd160_R42 c2 d2 e2 a2 b2 w2 12;
       (b1, d1) = ripemd160_R41 b1 c1 d1 e1 a1 w15 6;
       (b2, d2) = ripemd160_R42 b2 c2 d2 e2 a2 w13 9;
       (a1, c1) = ripemd160_R41 a1 b1 c1 d1 e1 w14 8;
       (a2, c2) = ripemd160_R42 a2 b2 c2 d2 e2 w9 12;
       (e1, b1) = ripemd160_R41 e1 a1 b1 c1 d1 w5 6;
       (e2, b2) = ripemd160_R42 e2 a2 b2 c2 d2 w7 5;
       (d1, a1) = ripemd160_R41 d1 e1 a1 b1 c1 w6 5;
       (d2, a2) = ripemd160_R42 d2 e2 a2 b2 c2 w10 15;
       (c1, e1) = ripemd160_R41 c1 d1 e1 a1 b1 w2 12;
       (c2, e2) = ripemd160_R42 c2 d2 e2 a2 b2 w14 8;
       (b1, d1) = ripemd160_R51 b1 c1 d1 e1 a1 w4 9;
       (b2, d2) = ripemd160_R52 b2 c2 d2 e2 a2 w12 8;
       (a1, c1) = ripemd160_R51 a1 b1 c1 d1 e1 w0 15;
       (a2, c2) = ripemd160_R52 a2 b2 c2 d2 e2 w15 5;
       (e1, b1) = ripemd160_R51 e1 a1 b1 c1 d1 w5 5;
       (e2, b2) = ripemd160_R52 e2 a2 b2 c2 d2 w10 12;
       (d1, a1) = ripemd160_R51 d1 e1 a1 b1 c1 w9 11;
       (d2, a2) = ripemd160_R52 d2 e2 a2 b2 c2 w4 9;
       (c1, e1) = ripemd160_R51 c1 d1 e1 a1 b1 w7 6;
       (c2, e2) = ripemd160_R52 c2 d2 e2 a2 b2 w1 12;
       (b1, d1) = ripemd160_R51 b1 c1 d1 e1 a1 w12 8;
       (b2, d2) = ripemd160_R52 b2 c2 d2 e2 a2 w5 5;
       (a1, c1) = ripemd160_R51 a1 b1 c1 d1 e1 w2 13;
       (a2, c2) = ripemd160_R52 a2 b2 c2 d2 e2 w8 14;
       (e1, b1) = ripemd160_R51 e1 a1 b1 c1 d1 w10 12;
       (e2, b2) = ripemd160_R52 e2 a2 b2 c2 d2 w7 6;
       (d1, a1) = ripemd160_R51 d1 e1 a1 b1 c1 w14 5;
       (d2, a2) = ripemd160_R52 d2 e2 a2 b2 c2 w6 8;
       (c1, e1) = ripemd160_R51 c1 d1 e1 a1 b1 w1 12;
       (c2, e2) = ripemd160_R52 c2 d2 e2 a2 b2 w2 13;
       (b1, d1) = ripemd160_R51 b1 c1 d1 e1 a1 w3 13;
       (b2, d2) = ripemd160_R52 b2 c2 d2 e2 a2 w13 6;
       (a1, c1) = ripemd160_R51 a1 b1 c1 d1 e1 w8 14;
       (a2, c2) = ripemd160_R52 a2 b2 c2 d2 e2 w14 5;
       (e1, b1) = ripemd160_R51 e1 a1 b1 c1 d1 w11 11;
       (e2, b2) = ripemd160_R52 e2 a2 b2 c2 d2 w0 15;
       (d1, a1) = ripemd160_R51 d1 e1 a1 b1 c1 w6 8;
       (d2, a2) = ripemd160_R52 d2 e2 a2 b2 c2 w3 13;
       (c1, e1) = ripemd160_R51 c1 d1 e1 a1 b1 w15 5;
       (c2, e2) = ripemd160_R52 c2 d2 e2 a2 b2 w9 11;
       (b1, d1) = ripemd160_R51 b1 c1 d1 e1 a1 w13 6;
       (b2, d2) = ripemd160_R52 b2 c2 d2 e2 a2 w11 11;
       t = s ! 0
      in [s ! 1 + c1 + d2, s ! 2 + d1 + e2, s ! 3 + e1 + a2, s ! 4 + a1 + b2, t + b1 + c2])"

lemma ripemd160_Transform_lines:
  "ripemd160_Transform s chunk = ripemd160_lines s chunk
     (ripemd160_R True s chunk 0) (ripemd160_Q True s chunk 4) (ripemd160_Q True s chunk 3)
     (ripemd160_R True s chunk 2) (ripemd160_R True s chunk 1)
     (ripemd160_R False s chunk 0) (ripemd160_Q False s chunk 4) (ripemd160_Q False s chunk 3)
     (ripemd160_R False s chunk 2) (ripemd160_R False s chunk 1)"
  unfolding ripemd160_Transform_def ripemd160_lines_def ripemd160_Q_init Let_def [of "_ ! _"] by (rule refl)

lemmas ripemd160_rounds = ripemd160_R11_def ripemd160_R21_def ripemd160_R31_def ripemd160_R41_def
  ripemd160_R51_def ripemd160_R12_def ripemd160_R22_def ripemd160_R32_def ripemd160_R42_def ripemd160_R52_def

lemmas ripemd160_fs = ripemd160_f1_def ripemd160_f2_def ripemd160_f3_def ripemd160_f4_def ripemd160_f5_def

lemma ripemd160_Transform_compress:
  "length s = 5 \<Longrightarrow> ripemd160_Transform s chunk = ripemd160_compress s chunk"
  unfolding ripemd160_Transform_lines ripemd160_lines_def ripemd160_compress_Q
  by (simp add: ripemd160_X_read ripemd160_rounds ripemd160_Round_Q Let_def
      ripemd160_K_def ripemd160_F_def ripemd160_fs ripemd160_r_def ripemd160_s_def
      del: One_nat_def drop0 cong: let_weak_cong prod.case_cong_weak)

section \<open>The class CRIPEMD160\<close>

text \<open>The constructor leaves the buffer uninitialised: its contents are an argument.
  \<^verbatim>\<open>Finalize\<close> returns the object it has modified and the digest.\<close>

definition CRIPEMD160 :: "bytes \<Rightarrow> u32 hasher" where
  "CRIPEMD160 b = \<lparr>hs = ripemd160_Initialize, hbuf = b, hbytes = 0\<rparr>"

definition CRIPEMD160_Write :: "bytes \<Rightarrow> u32 hasher \<Rightarrow> u32 hasher" where
  "CRIPEMD160_Write = hasher_Write 64 ripemd160_Transform"

definition CRIPEMD160_Finalize :: "u32 hasher \<Rightarrow> u32 hasher \<times> bytes" where
  "CRIPEMD160_Finalize h =
     (let sizedesc = WriteLE64 (push_bit 3 (hbytes h));
          h = CRIPEMD160_Write (take (1 + ((119 - unat (hbytes h) mod 64) mod 64)) (pad_array 64)) h;
          h = CRIPEMD160_Write sizedesc h
      in (h, concat (map WriteLE32 (hs h))))"

definition CRIPEMD160_Reset :: "u32 hasher \<Rightarrow> u32 hasher" where
  "CRIPEMD160_Reset h = h\<lparr>hbytes := 0, hs := ripemd160_Initialize\<rparr>"

text \<open>Specification: the padded message, cut into blocks, compressed in order.\<close>

definition ripemd160_digest :: "bytes \<Rightarrow> bytes" where
  "ripemd160_digest m = concat (map WriteLE32
     (foldl ripemd160_compress ripemd160_Initialize (chunks 64 (md_pad 64 (WriteLE64 (of_nat (8 * length m))) m))))"

lemma length_ripemd160_Initialize [simp]: "length ripemd160_Initialize = 5"
  by (simp add: ripemd160_Initialize_def)

interpretation ripemd160_block: block_hash 64 ripemd160_Transform
  by unfold_locales simp_all

lemma CRIPEMD160_Write_eq: "CRIPEMD160_Write data h = hasher_Write 64 ripemd160_Transform data h"
  by (simp add: CRIPEMD160_Write_def)

interpretation ripemd160: hasher_class 64 ripemd160_Transform CRIPEMD160_Write ripemd160_compress ripemd160_Initialize
  by unfold_locales (simp_all add: ripemd160_Transform_compress length_ripemd160_compress CRIPEMD160_Write_eq)

lemma CRIPEMD160_Finalize_holds:
  assumes "absorbed 64 ripemd160_Transform ripemd160_Initialize m h"
  shows "snd (CRIPEMD160_Finalize h) = ripemd160_digest m"
proof -
  let ?szd = "WriteLE64 (push_bit 3 (hbytes h))"
  let ?k = "(119 - unat (hbytes h) mod 64) mod 64"
  have "?k = (2 * 64 - length ?szd - 1 - unat (hbytes h) mod 64) mod 64" by simp
  from ripemd160.Finalize_holds [OF assms this] show ?thesis
    unfolding CRIPEMD160_Finalize_def ripemd160_digest_def Let_def snd_conv ripemd160.holds_hbytes [OF assms]
    by (rule arg_cong)
qed

lemma CRIPEMD160_holds:
  assumes "length b = 64"
  shows "absorbed 64 ripemd160_Transform ripemd160_Initialize (concat ps) (fold CRIPEMD160_Write ps (CRIPEMD160 b))"
  using ripemd160.Write_list_holds [OF ripemd160_block.absorbed_init [OF assms], of ps] by (simp add: CRIPEMD160_def)

lemma CRIPEMD160_Reset_holds:
  "length (hbuf h) = 64 \<Longrightarrow> absorbed 64 ripemd160_Transform ripemd160_Initialize [] (CRIPEMD160_Reset h)"
  by (simp add: CRIPEMD160_Reset_def absorbed_def)

lemma length_ripemd160_digest [simp]: "length (ripemd160_digest m) = 20"
  by (simp add: ripemd160_digest_def length_concat_map_const ripemd160.length_foldl_compress)

lemma ripemd160_stream:
  "length b = 64 \<Longrightarrow>
   snd (CRIPEMD160_Finalize (fold CRIPEMD160_Write ps (CRIPEMD160 b))) = ripemd160_digest (concat ps)"
  by (rule CRIPEMD160_Finalize_holds [OF CRIPEMD160_holds])

section \<open>Properties\<close>

text \<open>
  \<^verbatim>\<open>CRIPEMD160\<close> computes RIPEMD-160 of the whole message: however the message is split into \<^verbatim>\<open>Write\<close>
  calls, and whatever the uninitialised buffer holds, \<^verbatim>\<open>Finalize\<close> returns the digest that the
  round-by-round reference compression yields on the padded blocks of the concatenation.
\<close>
theorem CRIPEMD160_correct:
  assumes "length b = 64"
  shows "snd (CRIPEMD160_Finalize (fold CRIPEMD160_Write ps (CRIPEMD160 b))) = ripemd160_digest (concat ps)"
  using ripemd160_stream [OF assms] .

theorem CRIPEMD160_correct_witness:
  "snd (CRIPEMD160_Finalize (fold CRIPEMD160_Write [[0x61], [], [0x62, 0x63]] (CRIPEMD160 (replicate 64 0)))) = ripemd160_digest [0x61, 0x62, 0x63]"
  using CRIPEMD160_correct [of "replicate 64 0" "[[0x61], [], [0x62, 0x63]]"] by simp

end
