(* ===== verification/Hash.thy ===== *)
theory Hash
  imports Sha256 Sha512 Ripemd160
begin

text \<open>
  Hash compositions: HMAC (\<^verbatim>\<open>src/crypto/hmac_sha256.cpp\<close>, \<^verbatim>\<open>src/crypto/hmac_sha512.cpp\<close>), the double
  hashes \<^verbatim>\<open>CHash256\<close> and \<^verbatim>\<open>CHash160\<close>, \<^verbatim>\<open>CHashWriter\<close>, MurmurHash3, BIP32 derivation, SipHash-2-4 and
  the X16R selection loop (\<^verbatim>\<open>src/hash.h\<close>, \<^verbatim>\<open>src/hash.cpp\<close>).  A 160-, 256- or 512-bit blob is the byte
  list of its memory.
\<close>

unbundle bit_operations_syntax

section \<open>HMAC\<close>

record 'w hmac =
  outer :: "'w hasher"
  inner :: "'w hasher"

definition CHMAC_SHA256 :: "bytes \<Rightarrow> bytes \<Rightarrow> bytes \<Rightarrow> u32 hmac" where
  "CHMAC_SHA256 b1 b2 key =
     (let rkey = (if length key \<le> 64 then key @ replicate (64 - length key) 0
                  else snd (CSHA256_Finalize (CSHA256_Write key (CSHA256 (replicate 64 0)))) @ replicate 32 0);
          rkey = map (\<lambda>b. b XOR 0x5c) rkey;
          outer = CSHA256_Write rkey (CSHA256 b1);
          rkey = map (\<lambda>b. b XOR (0x5c XOR 0x36)) rkey;
          inner = CSHA256_Write rkey (CSHA256 b2)
      in \<lparr>outer = outer, inner = inner\<rparr>)"

definition CHMAC_SHA256_Write :: "bytes \<Rightarrow> u32 hmac \<Rightarrow> u32 hmac" where
  "CHMAC_SHA256_Write data h = h\<lparr>inner := CSHA256_Write data (inner h)\<rparr>"

definition CHMAC_SHA256_Finalize :: "u32 hmac \<Rightarrow> bytes" where
  "CHMAC_SHA256_Finalize h =
     (let temp = snd (CSHA256_Finalize (inner h))
      in snd (CSHA256_Finalize (CSHA256_Write temp (outer h))))"

definition CHMAC_SHA512 :: "bytes \<Rightarrow> bytes \<Rightarrow> bytes \<Rightarrow> u64 hmac" where
  "CHMAC_SHA512 b1 b2 key =
     (let rkey = (if length key \<le> 128 then key @ replicate (128 - length key) 0
                  else snd (CSHA512_Finalize (CSHA512_Write key (CSHA512 (replicate 128 0)))) @ replicate 64 0);
          rkey = map (\<lambda>b. b XOR 0x5c) rkey;
          outer = CSHA512_Write rkey (CSHA512 b1);
          rkey = map (\<lambda>b. b XOR (0x5c XOR 0x36)) rkey;
          inner = CSHA512_Write rkey (CSHA512 b2)
      in \<lparr>outer = outer, inner = inner\<rparr>)"

definition CHMAC_SHA512_Write :: "bytes \<Rightarrow> u64 hmac \<Rightarrow> u64 hmac" where
  "CHMAC_SHA512_Write data h = h\<lparr>inner := CSHA512_Write data (inner h)\<rparr>"

definition CHMAC_SHA512_Finalize :: "u64 hmac \<Rightarrow> bytes" where
  "CHMAC_SHA512_Finalize h =
     (let temp = snd (CSHA512_Finalize (inner h))
      in snd (CSHA512_Finalize (CSHA512_Write temp (outer h))))"

text \<open>RFC 2104.\<close>

definition hmac_spec :: "nat \<Rightarrow> (bytes \<Rightarrow> bytes) \<Rightarrow> bytes \<Rightarrow> bytes \<Rightarrow> bytes" where
  "hmac_spec B H key m =
     (let k = (if length key \<le> B then key else H key);
          k = k @ replicate (B - length k) 0
      in H (map (\<lambda>b. b XOR 0x5c) k @ H (map (\<lambda>b. b XOR 0x36) k @ m)))"

lemma xor_ipad: "(b XOR 0x5c) XOR (0x5c XOR 0x36) = b XOR (0x36 :: byte)"
proof -
  have "(b XOR 0x5c) XOR (0x5c XOR 0x36) = b XOR (0x5c XOR 0x5c) XOR (0x36 :: byte)"
    by (simp only: xor.assoc)
  then show ?thesis by simp
qed

lemma map_xor_ipad: "map (\<lambda>b. b XOR (0x5c XOR 0x36)) (map (\<lambda>b. b XOR 0x5c) k) = map (\<lambda>b. b XOR (0x36 :: byte)) k"
  unfolding map_map comp_def xor_ipad ..

section \<open>Double hashes\<close>

definition CHash256_Finalize :: "u32 hasher \<Rightarrow> bytes" where
  "CHash256_Finalize sha =
     (let (sha, buf) = CSHA256_Finalize sha
      in snd (CSHA256_Finalize (CSHA256_Write buf (CSHA256_Reset sha))))"

definition CHash256_Write :: "bytes \<Rightarrow> u32 hasher \<Rightarrow> u32 hasher" where
  "CHash256_Write data sha = CSHA256_Write data sha"

definition CHash256_Reset :: "u32 hasher \<Rightarrow> u32 hasher" where
  "CHash256_Reset sha = CSHA256_Reset sha"

definition CHash160_Finalize :: "bytes \<Rightarrow> u32 hasher \<Rightarrow> bytes" where
  "CHash160_Finalize b sha =
     (let buf = snd (CSHA256_Finalize sha)
      in snd (CRIPEMD160_Finalize (CRIPEMD160_Write buf (CRIPEMD160 b))))"

text \<open>The overloads of \<^verbatim>\<open>Hash\<close> for one to six ranges write the ranges in order.\<close>

definition Hash :: "bytes list \<Rightarrow> bytes" where
  "Hash ps = CHash256_Finalize (fold CHash256_Write ps (CSHA256 (replicate 64 0)))"

definition Hash160 :: "bytes \<Rightarrow> bytes" where
  "Hash160 p = CHash160_Finalize (replicate 64 0) (CSHA256_Write p (CSHA256 (replicate 64 0)))"

text \<open>\<^verbatim>\<open>CHashWriter\<close>: the serialisation of an object is the list of writes it performs.\<close>

definition CHashWriter_write :: "bytes \<Rightarrow> u32 hasher \<Rightarrow> u32 hasher" where
  "CHashWriter_write pch ctx = CHash256_Write pch ctx"

definition CHashWriter_GetHash :: "u32 hasher \<Rightarrow> bytes" where
  "CHashWriter_GetHash ctx = CHash256_Finalize ctx"

definition SerializeHash :: "bytes list \<Rightarrow> bytes" where
  "SerializeHash writes = CHashWriter_GetHash (fold CHashWriter_write writes (CSHA256 (replicate 64 0)))"

section \<open>MurmurHash3\<close>

definition ROTL32 :: "u32 \<Rightarrow> nat \<Rightarrow> u32" where
  "ROTL32 x r = push_bit r x OR drop_bit (32 - r) x"

definition murmur_mix_k1 :: "u32 \<Rightarrow> u32" where
  "murmur_mix_k1 k1 = ROTL32 (k1 * 0xcc9e2d51) 15 * 0x1b873593"

fun murmur_body :: "u32 \<Rightarrow> bytes \<Rightarrow> u32 \<times> bytes" where
  "murmur_body h1 blocks =
     (if length blocks < 4 then (h1, blocks)
      else let h1 = h1 XOR murmur_mix_k1 (ReadLE32 blocks);
               h1 = ROTL32 h1 13;
               h1 = h1 * 5 + 0xe6546b64
           in murmur_body h1 (drop 4 blocks))"

definition murmur_tail :: "u32 \<Rightarrow> bytes \<Rightarrow> u32" where
  "murmur_tail h1 tail =
     (let k1 = 0;
          k1 = (if length tail = 3 then k1 XOR push_bit 16 (ucast (tail ! 2)) else k1);
          k1 = (if length tail \<ge> 2 then k1 XOR push_bit 8 (ucast (tail ! 1)) else k1)
      in if length tail \<ge> 1 then h1 XOR murmur_mix_k1 (k1 XOR ucast (tail ! 0)) else h1)"

definition MurmurHash3 :: "u32 \<Rightarrow> bytes \<Rightarrow> u32" where
  "MurmurHash3 nHashSeed vDataToHash =
     (let (h1, tail) = murmur_body nHashSeed vDataToHash;
          h1 = murmur_tail h1 tail;
          h1 = h1 XOR of_nat (length vDataToHash);
          h1 = h1 XOR drop_bit 16 h1;
          h1 = h1 * 0x85ebca6b;
          h1 = h1 XOR drop_bit 13 h1;
          h1 = h1 * 0xc2b2ae35
      in h1 XOR drop_bit 16 h1)"

section \<open>BIP32 child derivation\<close>

definition BIP32Hash :: "bytes \<Rightarrow> u32 \<Rightarrow> byte \<Rightarrow> bytes \<Rightarrow> bytes" where
  "BIP32Hash chainCode nChild header data =
     (let num = [ucast (drop_bit 24 nChild AND 0xFF), ucast (drop_bit 16 nChild AND 0xFF),
                 ucast (drop_bit 8 nChild AND 0xFF), ucast (drop_bit 0 nChild AND 0xFF)]
      in CHMAC_SHA512_Finalize (CHMAC_SHA512_Write num (CHMAC_SHA512_Write data
           (CHMAC_SHA512_Write [header] (CHMAC_SHA512 (replicate 128 0) (replicate 128 0) chainCode)))))"

section \<open>SipHash-2-4\<close>

record siphasher =
  sip_v0 :: u64
  sip_v1 :: u64
  sip_v2 :: u64
  sip_v3 :: u64
  sip_tmp :: u64
  sip_count :: nat

type_synonym sip_state = "u64 \<times> u64 \<times> u64 \<times> u64"

definition ROTL :: "u64 \<Rightarrow> nat \<Rightarrow> u64" where
  "ROTL x b = push_bit b x OR drop_bit (64 - b) x"

definition SIPROUND :: "sip_state \<Rightarrow> sip_state" where
  "SIPROUND v =
     (let (v0, v1, v2, v3) = v;
          v0 = v0 + v1; v1 = ROTL v1 13; v1 = v1 XOR v0;
          v0 = ROTL v0 32;
          v2 = v2 + v3; v3 = ROTL v3 16; v3 = v3 XOR v2;
          v0 = v0 + v3; v3 = ROTL v3 21; v3 = v3 XOR v0;
          v2 = v2 + v1; v1 = ROTL v1 17; v1 = v1 XOR v2;
          v2 = ROTL v2 32
      in (v0, v1, v2, v3))"

text \<open>\<^verbatim>\<open>v3 ^= d; SIPROUND; SIPROUND; v0 ^= d;\<close>\<close>

definition sip_compress :: "u64 \<Rightarrow> sip_state \<Rightarrow> sip_state" where
  "sip_compress d v =
     (let (v0, v1, v2, v3) = v;
          (v0, v1, v2, v3) = SIPROUND (SIPROUND (v0, v1, v2, v3 XOR d))
      in (v0 XOR d, v1, v2, v3))"

text \<open>\<^verbatim>\<open>v2 ^= 0xFF;\<close>, four rounds, and the exclusive or of the four words.\<close>

definition sip_finish :: "sip_state \<Rightarrow> u64" where
  "sip_finish v =
     (let (v0, v1, v2, v3) = v;
          (v0, v1, v2, v3) = SIPROUND (SIPROUND (SIPROUND (SIPROUND (v0, v1, v2 XOR 0xFF, v3))))
      in v0 XOR v1 XOR v2 XOR v3)"

definition sip_get :: "siphasher \<Rightarrow> sip_state" where
  "sip_get h = (sip_v0 h, sip_v1 h, sip_v2 h, sip_v3 h)"

definition sip_put :: "sip_state \<Rightarrow> siphasher \<Rightarrow> siphasher" where
  "sip_put v h = (let (v0, v1, v2, v3) = v
     in h\<lparr>sip_v0 := v0, sip_v1 := v1, sip_v2 := v2, sip_v3 := v3\<rparr>)"

definition CSipHasher :: "u64 \<Rightarrow> u64 \<Rightarrow> siphasher" where
  "CSipHasher k0 k1 =
     \<lparr>sip_v0 = 0x736f6d6570736575 XOR k0, sip_v1 = 0x646f72616e646f6d XOR k1,
      sip_v2 = 0x6c7967656e657261 XOR k0, sip_v3 = 0x7465646279746573 XOR k1,
      sip_tmp = 0, sip_count = 0\<rparr>"

text \<open>The 64-bit overload asserts that a multiple of eight bytes has been written.\<close>

definition CSipHasher_Write64 :: "u64 \<Rightarrow> siphasher \<Rightarrow> siphasher option" where
  "CSipHasher_Write64 data h =
     (if sip_count h mod 8 \<noteq> 0 then None
      else Some ((sip_put (sip_compress data (sip_get h)) h)\<lparr>sip_count := sip_count h + 8\<rparr>))"

fun sip_write_loop :: "bytes \<Rightarrow> sip_state \<Rightarrow> u64 \<Rightarrow> nat \<Rightarrow> sip_state \<times> u64 \<times> nat" where
  "sip_write_loop [] v t c = (v, t, c)"
| "sip_write_loop (b # data) v t c =
     (let t = t OR push_bit (8 * (c mod 8)) (ucast b);
          c = c + 1
      in if c mod 8 = 0 then sip_write_loop data (sip_compress t v) 0 c
         else sip_write_loop data v t c)"

definition CSipHasher_Write :: "bytes \<Rightarrow> siphasher \<Rightarrow> siphasher" where
  "CSipHasher_Write data h =
     (let (v, t, c) = sip_write_loop data (sip_get h) (sip_tmp h) (sip_count h)
      in (sip_put v h)\<lparr>sip_count := c, sip_tmp := t\<rparr>)"

definition CSipHasher_Finalize :: "siphasher \<Rightarrow> u64" where
  "CSipHasher_Finalize h =
     (let t = sip_tmp h OR push_bit 56 (of_nat (sip_count h))
      in sip_finish (sip_compress t (sip_get h)))"

definition GetUint64 :: "bytes \<Rightarrow> nat \<Rightarrow> u64" where
  "GetUint64 data pos =
     (let ptr = drop (pos * 8) data
      in ucast (ptr ! 0) OR push_bit 8 (ucast (ptr ! 1)) OR push_bit 16 (ucast (ptr ! 2))
         OR push_bit 24 (ucast (ptr ! 3)) OR push_bit 32 (ucast (ptr ! 4)) OR push_bit 40 (ucast (ptr ! 5))
         OR push_bit 48 (ucast (ptr ! 6)) OR push_bit 56 (ucast (ptr ! 7)))"

definition SipHashUint256 :: "u64 \<Rightarrow> u64 \<Rightarrow> bytes \<Rightarrow> u64" where
  "SipHashUint256 k0 k1 val =
     (let d = GetUint64 val 0;
          v0 = 0x736f6d6570736575 XOR k0;
          v1 = 0x646f72616e646f6d XOR k1;
          v2 = 0x6c7967656e657261 XOR k0;
          v3 = 0x7465646279746573 XOR k1 XOR d;
          (v0, v1, v2, v3) = SIPROUND (SIPROUND (v0, v1, v2, v3));
          v0 = v0 XOR d;
          d = GetUint64 val 1;
          v3 = v3 XOR d;
          (v0, v1, v2, v3) = SIPROUND (SIPROUND (v0, v1, v2, v3));
          v0 = v0 XOR d;
          d = GetUint64 val 2;
          v3 = v3 XOR d;
          (v0, v1, v2, v3) = SIPROUND (SIPROUND (v0, v1, v2, v3));
          v0 = v0 XOR d;
          d = GetUint64 val 3;
          v3 = v3 XOR d;
          (v0, v1, v2, v3) = SIPROUND (SIPROUND (v0, v1, v2, v3));
          v0 = v0 XOR d;
          v3 = v3 XOR push_bit 59 4;
          (v0, v1, v2, v3) = SIPROUND (SIPROUND (v0, v1, v2, v3));
          v0 = v0 XOR push_bit 59 4;
          v2 = v2 XOR 0xFF;
          (v0, v1, v2, v3) = SIPROUND (SIPROUND (SIPROUND (SIPROUND (v0, v1, v2, v3))))
      in v0 XOR v1 XOR v2 XOR v3)"

definition SipHashUint256Extra :: "u64 \<Rightarrow> u64 \<Rightarrow> bytes \<Rightarrow> u32 \<Rightarrow> u64" where
  "SipHashUint256Extra k0 k1 val extra =
     (let d = GetUint64 val 0;
          v0 = 0x736f6d6570736575 XOR k0;
          v1 = 0x646f72616e646f6d XOR k1;
          v2 = 0x6c7967656e657261 XOR k0;
          v3 = 0x7465646279746573 XOR k1 XOR d;
          (v0, v1, v2, v3) = SIPROUND (SIPROUND (v0, v1, v2, v3));
          v0 = v0 XOR d;
          d = GetUint64 val 1;
          v3 = v3 XOR d;
          (v0, v1, v2, v3) = SIPROUND (SIPROUND (v0, v1, v2, v3));
          v0 = v0 XOR d;
          d = GetUint64 val 2;
          v3 = v3 XOR d;
          (v0, v1, v2, v3) = SIPROUND (SIPROUND (v0, v1, v2, v3));
          v0 = v0 XOR d;
          d = GetUint64 val 3;
          v3 = v3 XOR d;
          (v0, v1, v2, v3) = SIPROUND (SIPROUND (v0, v1, v2, v3));
          v0 = v0 XOR d;
          d = push_bit 56 36 OR ucast extra;
          v3 = v3 XOR d;
          (v0, v1, v2, v3) = SIPROUND (SIPROUND (v0, v1, v2, v3));
          v0 = v0 XOR d;
          v2 = v2 XOR 0xFF;
          (v0, v1, v2, v3) = SIPROUND (SIPROUND (SIPROUND (SIPROUND (v0, v1, v2, v3))))
      in v0 XOR v1 XOR v2 XOR v3)"

section \<open>X16R\<close>

definition GetNibble :: "bytes \<Rightarrow> nat \<Rightarrow> nat" where
  "GetNibble data index =
     (let index = 63 - index
      in if index mod 2 = 1 then unat (drop_bit 4 (data ! (index div 2)))
         else unat (data ! (index div 2) AND 0x0F))"

definition GetHashSelection :: "bytes \<Rightarrow> nat \<Rightarrow> nat" where
  "GetHashSelection PrevBlockHash index = GetNibble PrevBlockHash (48 + index)"

definition trim256 :: "bytes \<Rightarrow> bytes" where
  "trim256 data = take 32 data"

text \<open>The sixteen 512-bit hash functions of the \<^verbatim>\<open>sph\<close> library are the argument \<open>sph\<close>, selected by
  the case of the switch; the hash of round \<open>i\<close> is hashed in round \<open>i + 1\<close>.\<close>

fun x16r_rounds :: "(nat \<Rightarrow> bytes \<Rightarrow> bytes) \<Rightarrow> bytes \<Rightarrow> nat list \<Rightarrow> bytes \<Rightarrow> bytes" where
  "x16r_rounds sph PrevBlockHash [] toHash = toHash"
| "x16r_rounds sph PrevBlockHash (i # is) toHash =
     x16r_rounds sph PrevBlockHash is (sph (GetHashSelection PrevBlockHash i) toHash)"

definition HashX16R :: "(nat \<Rightarrow> bytes \<Rightarrow> bytes) \<Rightarrow> bytes \<Rightarrow> bytes \<Rightarrow> bytes" where
  "HashX16R sph p PrevBlockHash = trim256 (x16r_rounds sph PrevBlockHash [0..<16] p)"

section \<open>HMAC computes the RFC 2104 construction\<close>

lemma sha256_oneshot: "length b = 64 \<Longrightarrow> snd (CSHA256_Finalize (CSHA256_Write m (CSHA256 b))) = sha256_digest m"
  using sha256_stream [of b "[m]"] by simp

lemma sha512_oneshot: "length b = 128 \<Longrightarrow> snd (CSHA512_Finalize (CSHA512_Write m (CSHA512 b))) = sha512_digest m"
  using sha512_stream [of b "[m]"] by simp

lemma ripemd160_oneshot:
  "length b = 64 \<Longrightarrow> snd (CRIPEMD160_Finalize (CRIPEMD160_Write m (CRIPEMD160 b))) = ripemd160_digest m"
  using ripemd160_stream [of b "[m]"] by simp

lemma CHMAC_SHA256_fold:
  "fold CHMAC_SHA256_Write ps h = h\<lparr>inner := fold CSHA256_Write ps (inner h)\<rparr>"
  by (induction ps arbitrary: h) (simp_all add: CHMAC_SHA256_Write_def)

lemma CHMAC_SHA512_fold:
  "fold CHMAC_SHA512_Write ps h = h\<lparr>inner := fold CSHA512_Write ps (inner h)\<rparr>"
  by (induction ps arbitrary: h) (simp_all add: CHMAC_SHA512_Write_def)

lemma CHMAC_SHA256_spec:
  assumes "length b1 = 64" "length b2 = 64"
  shows "CHMAC_SHA256_Finalize (fold CHMAC_SHA256_Write ps (CHMAC_SHA256 b1 b2 key)) =
     hmac_spec 64 sha256_digest key (concat ps)"
proof -
  define k where "k = (if length key \<le> 64 then key @ replicate (64 - length key) 0
                  else sha256_digest key @ replicate 32 0)"
  have i: "snd (CSHA256_Finalize (fold CSHA256_Write ps (CSHA256_Write x (CSHA256 b2)))) = sha256_digest (x @ concat ps)" for x
    using sha256_stream [OF assms(2), of "x # ps"] by simp
  have o: "snd (CSHA256_Finalize (CSHA256_Write y (CSHA256_Write x (CSHA256 b1)))) = sha256_digest (x @ y)" for x y
    using sha256_stream [OF assms(1), of "[x, y]"] by simp
  have h: "CHMAC_SHA256 b1 b2 key = \<lparr>outer = CSHA256_Write (map (\<lambda>b. b XOR 0x5c) k) (CSHA256 b1),
      inner = CSHA256_Write (map (\<lambda>b. b XOR 0x36) k) (CSHA256 b2)\<rparr>"
    unfolding CHMAC_SHA256_def Let_def map_xor_ipad k_def by (simp add: sha256_oneshot)
  have s: "hmac_spec 64 sha256_digest key m =
      sha256_digest (map (\<lambda>b. b XOR 0x5c) k @ sha256_digest (map (\<lambda>b. b XOR 0x36) k @ m))" for m
    by (simp add: hmac_spec_def k_def Let_def)
  show ?thesis by (simp add: h s CHMAC_SHA256_fold CHMAC_SHA256_Finalize_def i o)
qed

lemma CHMAC_SHA512_spec:
  assumes "length b1 = 128" "length b2 = 128"
  shows "CHMAC_SHA512_Finalize (fold CHMAC_SHA512_Write ps (CHMAC_SHA512 b1 b2 key)) =
     hmac_spec 128 sha512_digest key (concat ps)"
proof -
  define k where "k = (if length key \<le> 128 then key @ replicate (128 - length key) 0
                  else sha512_digest key @ replicate 64 0)"
  have i: "snd (CSHA512_Finalize (fold CSHA512_Write ps (CSHA512_Write x (CSHA512 b2)))) = sha512_digest (x @ concat ps)" for x
    using sha512_stream [OF assms(2), of "x # ps"] by simp
  have o: "snd (CSHA512_Finalize (CSHA512_Write y (CSHA512_Write x (CSHA512 b1)))) = sha512_digest (x @ y)" for x y
    using sha512_stream [OF assms(1), of "[x, y]"] by simp
  have h: "CHMAC_SHA512 b1 b2 key = \<lparr>outer = CSHA512_Write (map (\<lambda>b. b XOR 0x5c) k) (CSHA512 b1),
      inner = CSHA512_Write (map (\<lambda>b. b XOR 0x36) k) (CSHA512 b2)\<rparr>"
    unfolding CHMAC_SHA512_def Let_def map_xor_ipad k_def by (simp add: sha512_oneshot)
  have s: "hmac_spec 128 sha512_digest key m =
      sha512_digest (map (\<lambda>b. b XOR 0x5c) k @ sha512_digest (map (\<lambda>b. b XOR 0x36) k @ m))" for m
    by (simp add: hmac_spec_def k_def Let_def)
  show ?thesis by (simp add: h s CHMAC_SHA512_fold CHMAC_SHA512_Finalize_def i o)
qed

section \<open>Double hashes\<close>

lemma CSHA256_Finalize_buf:
  assumes "absorbed 64 sha256_Transform1 sha256_Initialize m h"
  shows "length (hbuf (fst (CSHA256_Finalize h))) = 64"
proof -
  have "\<exists>m'. absorbed 64 sha256_Transform1 sha256_Initialize m' (fst (CSHA256_Finalize h))"
    unfolding CSHA256_Finalize_def Let_def fst_conv
    by (rule exI, rule sha256.Write_holds, rule sha256.Write_holds, rule assms)
  then show ?thesis by (auto simp: absorbed_def)
qed

lemma CHash256_Finalize_spec:
  assumes "absorbed 64 sha256_Transform1 sha256_Initialize m h"
  shows "CHash256_Finalize h = sha256_digest (sha256_digest m)"
proof -
  obtain g d where f: "CSHA256_Finalize h = (g, d)" by (cases "CSHA256_Finalize h")
  have d: "d = sha256_digest m" using CSHA256_Finalize_holds [OF assms] f by simp
  have "length (hbuf g) = 64" using CSHA256_Finalize_buf [OF assms] f by simp
  from sha256.Write_holds [OF CSHA256_Reset_holds [OF this], of d]
  have "absorbed 64 sha256_Transform1 sha256_Initialize d (CSHA256_Write d (CSHA256_Reset g))" by simp
  from CSHA256_Finalize_holds [OF this] show ?thesis by (simp add: CHash256_Finalize_def f d)
qed

lemma Hash_spec: "Hash ps = sha256_digest (sha256_digest (concat ps))"
proof -
  have "absorbed 64 sha256_Transform1 sha256_Initialize (concat ps) (fold CSHA256_Write ps (CSHA256 (replicate 64 0)))"
    by (rule CSHA256_holds) simp
  moreover have "CHash256_Write = CSHA256_Write" by (intro ext) (simp add: CHash256_Write_def)
  ultimately show ?thesis unfolding Hash_def by (simp add: CHash256_Finalize_spec)
qed

lemma Hash160_spec: "Hash160 p = ripemd160_digest (sha256_digest p)"
  by (simp add: Hash160_def CHash160_Finalize_def sha256_oneshot ripemd160_oneshot)

lemma SerializeHash_spec: "SerializeHash ws = sha256_digest (sha256_digest (concat ws))"
proof -
  have "CHashWriter_write = CHash256_Write" by (intro ext) (simp add: CHashWriter_write_def)
  then have "SerializeHash ws = Hash ws" by (simp add: SerializeHash_def CHashWriter_GetHash_def Hash_def)
  then show ?thesis by (simp add: Hash_spec)
qed

section \<open>SipHash: the specialised versions\<close>

lemma sip_write_loop_append:
  "sip_write_loop (a @ b) v t c = (let (v, t, c) = sip_write_loop a v t c in sip_write_loop b v t c)"
  by (induction a v t c rule: sip_write_loop.induct) (simp_all add: Let_def)

lemma sip_get_put [simp]: "sip_get (sip_put v h) = v"
  "sip_tmp (sip_put v h) = sip_tmp h" "sip_count (sip_put v h) = sip_count h"
  "sip_get (h\<lparr>sip_count := n\<rparr>) = sip_get h" "sip_get (h\<lparr>sip_tmp := t\<rparr>) = sip_get h"
  "sip_put v (sip_put w h) = sip_put v h"
  "sip_put v (h\<lparr>sip_count := n\<rparr>) = (sip_put v h)\<lparr>sip_count := n\<rparr>"
  "sip_put v (h\<lparr>sip_tmp := t\<rparr>) = (sip_put v h)\<lparr>sip_tmp := t\<rparr>"
  by (simp_all add: sip_get_def sip_put_def split: prod.splits)

lemma CSipHasher_Write_append: "CSipHasher_Write (a @ b) h = CSipHasher_Write b (CSipHasher_Write a h)"
  by (simp add: CSipHasher_Write_def sip_write_loop_append Let_def split: prod.splits)

lemma sip_write_loop_eight:
  assumes "length d = 8" "c mod 8 = 0"
  shows "sip_write_loop d v 0 c = (sip_compress (GetUint64 d 0) v, 0, c + 8)"
proof -
  obtain a0 a1 a2 a3 a4 a5 a6 a7 where d: "d = [a0, a1, a2, a3, a4, a5, a6, a7]"
    using assms(1) by (auto simp: length_Suc_conv numeral_eq_Suc)
  obtain k where c: "c = 8 * k" using assms(2) by auto
  show ?thesis by (simp add: d c Let_def GetUint64_def or.assoc mod_Suc)
qed

lemmas sip_unfold = sip_finish_def sip_compress_def CSipHasher_def sip_get_def siphasher.simps Let_def prod.case

lemma SipHashUint256_compress:
  "SipHashUint256 k0 k1 val = sip_finish (sip_compress (push_bit 59 4) (sip_compress (GetUint64 val 3)
     (sip_compress (GetUint64 val 2) (sip_compress (GetUint64 val 1) (sip_compress (GetUint64 val 0)
       (sip_get (CSipHasher k0 k1)))))))"
proof -
  define g where "g i = GetUint64 val i" for i
  obtain a0 a1 a2 a3 where a: "SIPROUND (SIPROUND (0x736f6d6570736575 XOR k0, 0x646f72616e646f6d XOR k1,
      0x6c7967656e657261 XOR k0, 0x7465646279746573 XOR k1 XOR g 0)) = (a0, a1, a2, a3)" by (rule prod_cases4)
  obtain b0 b1 b2 b3 where b: "SIPROUND (SIPROUND (a0 XOR g 0, a1, a2, a3 XOR g 1)) = (b0, b1, b2, b3)"
    by (rule prod_cases4)
  obtain c0 c1 c2 c3 where c: "SIPROUND (SIPROUND (b0 XOR g 1, b1, b2, b3 XOR g 2)) = (c0, c1, c2, c3)"
    by (rule prod_cases4)
  obtain d0 d1 d2 d3 where d: "SIPROUND (SIPROUND (c0 XOR g 2, c1, c2, c3 XOR g 3)) = (d0, d1, d2, d3)"
    by (rule prod_cases4)
  obtain e0 e1 e2 e3 where e: "SIPROUND (SIPROUND (d0 XOR g 3, d1, d2, d3 XOR push_bit 59 4)) = (e0, e1, e2, e3)"
    by (rule prod_cases4)
  show ?thesis
    by (simp only: SipHashUint256_def sip_unfold g_def [symmetric] xor.assoc a b c d e)
qed

lemma SipHashUint256Extra_compress:
  "SipHashUint256Extra k0 k1 val extra = sip_finish (sip_compress (push_bit 56 36 OR ucast extra)
     (sip_compress (GetUint64 val 3) (sip_compress (GetUint64 val 2) (sip_compress (GetUint64 val 1)
       (sip_compress (GetUint64 val 0) (sip_get (CSipHasher k0 k1)))))))"
proof -
  define g where "g i = GetUint64 val i" for i
  obtain a0 a1 a2 a3 where a: "SIPROUND (SIPROUND (0x736f6d6570736575 XOR k0, 0x646f72616e646f6d XOR k1,
      0x6c7967656e657261 XOR k0, 0x7465646279746573 XOR k1 XOR g 0)) = (a0, a1, a2, a3)" by (rule prod_cases4)
  obtain b0 b1 b2 b3 where b: "SIPROUND (SIPROUND (a0 XOR g 0, a1, a2, a3 XOR g 1)) = (b0, b1, b2, b3)"
    by (rule prod_cases4)
  obtain c0 c1 c2 c3 where c: "SIPROUND (SIPROUND (b0 XOR g 1, b1, b2, b3 XOR g 2)) = (c0, c1, c2, c3)"
    by (rule prod_cases4)
  obtain d0 d1 d2 d3 where d: "SIPROUND (SIPROUND (c0 XOR g 2, c1, c2, c3 XOR g 3)) = (d0, d1, d2, d3)"
    by (rule prod_cases4)
  obtain e0 e1 e2 e3 where e: "SIPROUND (SIPROUND (d0 XOR g 3, d1, d2, d3 XOR (push_bit 56 36 OR ucast extra)))
      = (e0, e1, e2, e3)" by (rule prod_cases4)
  show ?thesis
    by (simp only: SipHashUint256Extra_def sip_unfold g_def [symmetric] xor.assoc a b c d e)
qed

lemma sip_write_loop_val:
  assumes "length val = 32"
  shows "sip_write_loop val v 0 0 = (sip_compress (GetUint64 val 3) (sip_compress (GetUint64 val 2)
     (sip_compress (GetUint64 val 1) (sip_compress (GetUint64 val 0) v))), 0, 32)"
proof -
  define p where "p i = take 8 (drop (8 * i) val)" for i
  have "p 0 @ drop 8 val = val" "p 1 @ drop 16 val = drop 8 val" "p 2 @ drop 24 val = drop 16 val"
    using append_take_drop_id [of 8 "drop 8 val"] append_take_drop_id [of 8 "drop 16 val"]
    by (simp_all add: p_def)
  moreover have "p 3 = drop 24 val" using assms by (simp add: p_def)
  ultimately have val: "val = p 0 @ p 1 @ p 2 @ p 3" by simp
  have len: "length (p i) = 8" if "i < 4" for i using that assms by (simp add: p_def)
  have g: "GetUint64 (p i) 0 = GetUint64 val i" if "i < 4" for i
    using that assms by (simp add: p_def GetUint64_def mult.commute)
  show ?thesis unfolding val [THEN arg_cong, of "\<lambda>x. sip_write_loop x v 0 0"]
    by (simp add: sip_write_loop_append sip_write_loop_eight len g)
qed

lemma SipHashUint256_spec:
  assumes "length val = 32"
  shows "SipHashUint256 k0 k1 val = CSipHasher_Finalize (CSipHasher_Write val (CSipHasher k0 k1))"
proof -
  let ?h = "CSipHasher k0 k1"
  have h: "sip_tmp ?h = 0" "sip_count ?h = 0" by (simp_all add: CSipHasher_def)
  show ?thesis unfolding SipHashUint256_compress
    by (simp add: CSipHasher_Finalize_def CSipHasher_Write_def sip_write_loop_val [OF assms] h)
qed

lemma le_nat_snoc_u64:
  assumes "length xs < 8"
  shows "(of_nat (le_nat (xs @ [b])) :: u64) = of_nat (le_nat xs) OR push_bit (8 * length xs) (ucast b)"
proof -
  have small: "le_nat ys < 2 ^ 64" if "length ys \<le> 8" for ys
    using le_nat_less [of ys] power_increasing [OF that, of "256::nat"] by simp
  have u: "unat (of_nat (le_nat ys) :: u64) = le_nat ys" if "length ys \<le> 8" for ys
    using small [OF that] by (simp add: unsigned_of_nat take_bit_nat_eq_self)
  have "unat (of_nat (le_nat xs) OR push_bit (8 * length xs) (ucast b) :: u64) = le_nat xs + 256 ^ length xs * unat b"
    using unat_or_push_bit [of "of_nat (le_nat xs)" "length xs" b] assms le_nat_less [of xs] by (simp add: u)
  also have "\<dots> = le_nat (xs @ [b])" by (simp add: le_nat_append)
  also have "\<dots> = unat (of_nat (le_nat (xs @ [b])) :: u64)" using assms by (intro u [symmetric]) simp
  finally show ?thesis by (simp add: word_unat_eq_iff)
qed

lemma sip_write_loop_partial:
  "length pre + length x < 8 \<Longrightarrow> c mod 8 = length pre \<Longrightarrow>
   sip_write_loop x v (of_nat (le_nat pre)) c = (v, of_nat (le_nat (pre @ x)), c + length x)"
proof (induction x arbitrary: pre c)
  case (Cons b x)
  have "(c + 1) mod 8 = length (pre @ [b])" using Cons.prems by (simp add: mod_Suc)
  with Cons.IH [of "pre @ [b]" "c + 1"] Cons.prems show ?case
    by (simp add: le_nat_snoc_u64 [symmetric] Let_def del: of_nat_add)
qed simp

lemma GetUint64_le:
  assumes "8 \<le> length d"
  shows "GetUint64 d 0 = ReadLE64 d"
proof -
  obtain a0 a1 a2 a3 a4 a5 a6 a7 r where d: "d = [a0, a1, a2, a3, a4, a5, a6, a7] @ r"
    using assms by (auto simp: Suc_le_length_iff numeral_eq_Suc)
  show ?thesis unfolding ReadLE64_def GetUint64_def d
    using le_nat_snoc_u64 [of "[]" a0] le_nat_snoc_u64 [of "[a0]" a1] le_nat_snoc_u64 [of "[a0, a1]" a2]
      le_nat_snoc_u64 [of "[a0, a1, a2]" a3] le_nat_snoc_u64 [of "[a0, a1, a2, a3]" a4]
      le_nat_snoc_u64 [of "[a0, a1, a2, a3, a4]" a5] le_nat_snoc_u64 [of "[a0, a1, a2, a3, a4, a5]" a6]
      le_nat_snoc_u64 [of "[a0, a1, a2, a3, a4, a5, a6]" a7]
    by (simp add: or.assoc le_nat.simps(1) del: le_nat.simps(2) of_nat_add)
qed

lemma sip_write_loop_four: "sip_write_loop (WriteLE32 x) v 0 32 = (v, ucast x, 36)"
proof -
  have "(of_nat (le_nat (WriteLE32 x)) :: u64) = ucast x"
    using unat_ReadLE(2) [of "WriteLE32 x"] ReadLE_WriteLE(2) [of x "[]"]
    by (metis append_Nil2 length_Write(2) of_nat_unat order_refl take_all)
  then show ?thesis using sip_write_loop_partial [of "[]" "WriteLE32 x" 32 v] by simp
qed

lemma SipHashUint256Extra_spec:
  "length val = 32 \<Longrightarrow>
   SipHashUint256Extra k0 k1 val extra =
     CSipHasher_Finalize (CSipHasher_Write (WriteLE32 extra) (CSipHasher_Write val (CSipHasher k0 k1)))"
proof -
  assume val: "length val = 32"
  let ?h = "CSipHasher k0 k1"
  have h: "sip_tmp ?h = 0" "sip_count ?h = 0" by (simp_all add: CSipHasher_def)
  show ?thesis unfolding SipHashUint256Extra_compress
    by (simp add: sip_write_loop_four CSipHasher_Finalize_def CSipHasher_Write_def sip_write_loop_val [OF val] h or.commute)
qed

lemma CSipHasher_Write64_spec:
  "sip_count h mod 8 = 0 \<Longrightarrow> sip_tmp h = 0 \<Longrightarrow>
   CSipHasher_Write64 d h = Some (CSipHasher_Write (WriteLE64 d) h)"
  using ReadLE_WriteLE(3) [of d "[]"]
  by (simp add: CSipHasher_Write64_def CSipHasher_Write_def sip_write_loop_eight GetUint64_le)

section \<open>X16R: only the low eight bytes of the previous hash select algorithms\<close>

lemma GetNibble_less: "GetNibble data i < 16"
proof -
  have "unat (b AND 0x0F) < 16" for b :: byte
  proof -
    have "b AND 0x0F = take_bit 4 b" by (simp add: take_bit_eq_mask mask_eq_exp_minus_1)
    then show ?thesis by (simp add: unsigned_take_bit_eq take_bit_nat_less_exp [of 4, simplified])
  qed
  moreover have "unat (drop_bit 4 b) < 16" for b :: byte
    using unat_byte_less [of b] by (simp add: drop_bit_eq_div unat_div less_mult_imp_div_less)
  ultimately show ?thesis by (simp add: GetNibble_def Let_def)
qed

lemma GetHashSelection_cong:
  assumes "i < 16" "take 8 a = take 8 b"
  shows "GetHashSelection a i = GetHashSelection b i"
proof -
  have "(63 - (48 + i)) div 2 < 8" using assms(1) by simp
  then have "a ! ((63 - (48 + i)) div 2) = b ! ((63 - (48 + i)) div 2)"
    using assms(2) by (metis nth_take)
  then show ?thesis by (simp add: GetHashSelection_def GetNibble_def Let_def)
qed

lemma x16r_rounds_cong:
  "take 8 a = take 8 b \<Longrightarrow> (\<And>i. i \<in> set is \<Longrightarrow> i < 16) \<Longrightarrow> (\<And>k m. k < 16 \<Longrightarrow> f k m = g k m) \<Longrightarrow>
   x16r_rounds f a is m = x16r_rounds g b is m"
proof (induction "is" arbitrary: m)
  case (Cons i "is")
  have "GetHashSelection a i = GetHashSelection b i" using Cons.prems by (intro GetHashSelection_cong) simp_all
  moreover have "GetHashSelection b i < 16" by (simp add: GetHashSelection_def GetNibble_less)
  ultimately show ?case using Cons by simp
qed simp

lemma HashX16R_cong:
  "take 8 a = take 8 b \<Longrightarrow> (\<And>k m. k < 16 \<Longrightarrow> f k m = g k m) \<Longrightarrow> HashX16R f p a = HashX16R g p b"
  unfolding HashX16R_def by (intro arg_cong [of _ _ trim256] x16r_rounds_cong) simp_all

section \<open>Properties\<close>

text \<open>
  \<^verbatim>\<open>CHMAC_SHA256\<close> and \<^verbatim>\<open>CHMAC_SHA512\<close> compute HMAC (RFC 2104) over SHA-256 and SHA-512, however
  the message is split into \<^verbatim>\<open>Write\<close> calls and whatever the uninitialised buffers hold: keys up to
  the block size are padded with zeros, longer keys are hashed first.
\<close>
theorem CHMAC_correct:
  assumes "length b1 = 64" "length b2 = 64" "length c1 = 128" "length c2 = 128"
  shows "CHMAC_SHA256_Finalize (fold CHMAC_SHA256_Write ps (CHMAC_SHA256 b1 b2 key)) =
      hmac_spec 64 sha256_digest key (concat ps) \<and>
    CHMAC_SHA512_Finalize (fold CHMAC_SHA512_Write ps (CHMAC_SHA512 c1 c2 key)) =
      hmac_spec 128 sha512_digest key (concat ps)"
  using CHMAC_SHA256_spec [OF assms(1,2)] CHMAC_SHA512_spec [OF assms(3,4)] by simp

theorem CHMAC_correct_witness:
  "CHMAC_SHA256_Finalize (fold CHMAC_SHA256_Write [[1], [2, 3]] (CHMAC_SHA256 (replicate 64 0) (replicate 64 9) [7])) =
      hmac_spec 64 sha256_digest [7] [1, 2, 3]"
  using CHMAC_correct [of "replicate 64 0" "replicate 64 9" "replicate 128 0" "replicate 128 0" "[[1], [2, 3]]" "[7]"]
  by simp

text \<open>
  The object hashes: \<^verbatim>\<open>Hash\<close> over any number of ranges is double SHA-256 of their concatenation,
  \<^verbatim>\<open>SerializeHash\<close> is double SHA-256 of everything written to the stream, and \<^verbatim>\<open>Hash160\<close> is
  RIPEMD-160 of SHA-256.
\<close>
theorem object_hashes:
  "Hash ps = sha256_digest (sha256_digest (concat ps)) \<and>
   SerializeHash ws = sha256_digest (sha256_digest (concat ws)) \<and>
   Hash160 p = ripemd160_digest (sha256_digest p)"
  by (simp add: Hash_spec SerializeHash_spec Hash160_spec)

text \<open>
  The unrolled \<^verbatim>\<open>SipHashUint256\<close> and \<^verbatim>\<open>SipHashUint256Extra\<close> agree with the streaming
  \<^verbatim>\<open>CSipHasher\<close> fed the 32 bytes of the hash, followed by the 4 little-endian bytes of the extra word.
\<close>
theorem SipHashUint256_equals_streaming:
  assumes "length val = 32"
  shows "SipHashUint256 k0 k1 val = CSipHasher_Finalize (CSipHasher_Write val (CSipHasher k0 k1)) \<and>
    SipHashUint256Extra k0 k1 val extra =
      CSipHasher_Finalize (CSipHasher_Write (WriteLE32 extra) (CSipHasher_Write val (CSipHasher k0 k1)))"
  using SipHashUint256_spec [OF assms] SipHashUint256Extra_spec [OF assms] by simp

theorem SipHashUint256_equals_streaming_witness:
  "SipHashUint256 1 2 (replicate 32 5) = CSipHasher_Finalize (CSipHasher_Write (replicate 32 5) (CSipHasher 1 2)) \<and>
   SipHashUint256Extra 1 2 (replicate 32 5) 7 =
      CSipHasher_Finalize (CSipHasher_Write (WriteLE32 7) (CSipHasher_Write (replicate 32 5) (CSipHasher 1 2)))"
  using SipHashUint256_equals_streaming [of "replicate 32 5" 1 2 7] by simp

text \<open>
  The X16R work hash depends on the previous block only through the eight low-order bytes of its
  hash, which hold the sixteen nibbles that pick the sixteen rounds, and on the hash family only
  through its sixteen members.
\<close>
theorem HashX16R_selection:
  assumes "take 8 a = take 8 b" "\<And>k m. k < 16 \<Longrightarrow> f k m = g k m"
  shows "HashX16R f p a = HashX16R g p b"
  using HashX16R_cong [of a b f g p] assms by simp

theorem HashX16R_selection_witness:
  "HashX16R (\<lambda>k m. replicate 64 (of_nat k)) [1] (replicate 8 3 @ replicate 24 0) =
   HashX16R (\<lambda>k m. if k < 16 then replicate 64 (of_nat k) else []) [1] (replicate 8 3 @ replicate 24 1)"
  by (rule HashX16R_selection) simp_all

end
