(* ===== verification/Sha1.thy ===== *)
theory Sha1
  imports Hasher
begin

text \<open>
  SHA-1 (\<^verbatim>\<open>src/crypto/sha1.cpp\<close>): unrolled transform, the class \<^verbatim>\<open>CSHA1\<close>, the FIPS 180-4
  compression function and the proofs that relate them.
\<close>

unbundle bit_operations_syntax

section \<open>The code\<close>

definition sha1_Round :: "u32 \<Rightarrow> u32 \<Rightarrow> u32 \<Rightarrow> u32 \<Rightarrow> u32 \<Rightarrow> u32 \<Rightarrow> u32 \<Rightarrow> u32 \<Rightarrow> u32 \<times> u32" where
  "sha1_Round a b c d e f k w =
     (push_bit 30 b OR drop_bit 2 b, e + ((push_bit 5 a OR drop_bit 27 a) + f + k + w))"

definition sha1_f1 :: "u32 \<Rightarrow> u32 \<Rightarrow> u32 \<Rightarrow> u32" where
  "sha1_f1 b c d = d XOR (b AND (c XOR d))"

definition sha1_f2 :: "u32 \<Rightarrow> u32 \<Rightarrow> u32 \<Rightarrow> u32" where
  "sha1_f2 b c d = b XOR c XOR d"

definition sha1_f3 :: "u32 \<Rightarrow> u32 \<Rightarrow> u32 \<Rightarrow> u32" where
  "sha1_f3 b c d = (b AND c) OR (d AND (b OR c))"

definition sha1_left :: "u32 \<Rightarrow> u32" where
  "sha1_left x = push_bit 1 x OR drop_bit 31 x"

definition sha1_Initialize :: "u32 list" where
  "sha1_Initialize = [0x67452301, 0xEFCDAB89, 0x98BADCFE, 0x10325476, 0xC3D2E1F0]"

definition sha1_k1 :: u32 where "sha1_k1 = 0x5A827999"
definition sha1_k2 :: u32 where "sha1_k2 = 0x6ED9EBA1"
definition sha1_k3 :: u32 where "sha1_k3 = 0x8F1BBCDC"
definition sha1_k4 :: u32 where "sha1_k4 = 0xCA62C1D6"

text \<open>A round updates \<^verbatim>\<open>b\<close> and \<^verbatim>\<open>e\<close>, which are passed by reference.\<close>

definition sha1_Transform :: "u32 list \<Rightarrow> bytes \<Rightarrow> u32 list" where
  "sha1_Transform s chunk =
     (let a = s ! 0; b = s ! 1; c = s ! 2; d = s ! 3; e = s ! 4;
       w0 = ReadBE32 (drop 0 chunk);
       (b, e) = sha1_Round a b c d e (sha1_f1 b c d) sha1_k1 w0;
       w1 = ReadBE32 (drop 4 chunk);
       (a, d) = sha1_Round e a b c d (sha1_f1 a b c) sha1_k1 w1;
       w2 = ReadBE32 (drop 8 chunk);
       (e, c) = sha1_Round d e a b c (sha1_f1 e a b) sha1_k1 w2;
       w3 = ReadBE32 (drop 12 chunk);
       (d, b) = sha1_Round c d e a b (sha1_f1 d e a) sha1_k1 w3;
       w4 = ReadBE32 (drop 16 chunk);
       (c, a) = sha1_Round b c d e a (sha1_f1 c d e) sha1_k1 w4;
       w5 = ReadBE32 (drop 20 chunk);
       (b, e) = sha1_Round a b c d e (sha1_f1 b c d) sha1_k1 w5;
       w6 = ReadBE32 (drop 24 chunk);
       (a, d) = sha1_Round e a b c d (sha1_f1 a b c) sha1_k1 w6;
       w7 = ReadBE32 (drop 28 chunk);
       (e, c) = sha1_Round d e a b c (sha1_f1 e a b) sha1_k1 w7;
       w8 = ReadBE32 (drop 32 chunk);
       (d, b) = sha1_Round c d e a b (sha1_f1 d e a) sha1_k1 w8;
       w9 = ReadBE32 (drop 36 chunk);
       (c, a) = sha1_Round b c d e a (sha1_f1 c d e) sha1_k1 w9;
       w10 = ReadBE32 (drop 40 chunk);
       (b, e) = sha1_Round a b c d e (sha1_f1 b c d) sha1_k1 w10;
       w11 = ReadBE32 (drop 44 chunk);
       (a, d) = sha1_Round e a b c d (sha1_f1 a b c) sha1_k1 w11;
       w12 = ReadBE32 (drop 48 chunk);
       (e, c) = sha1_Round d e a b c (sha1_f1 e a b) sha1_k1 w12;
       w13 = ReadBE32 (drop 52 chunk);
       (d, b) = sha1_Round c d e a b (sha1_f1 d e a) sha1_k1 w13;
       w14 = ReadBE32 (drop 56 chunk);
       (c, a) = sha1_Round b c d e a (sha1_f1 c d e) sha1_k1 w14;
       w15 = ReadBE32 (drop 60 chunk);
       (b, e) = sha1_Round a b c d e (sha1_f1 b c d) sha1_k1 w15;
       w0 = sha1_left (w0 XOR w13 XOR w8 XOR w2);
       (a, d) = sha1_Round e a b c d (sha1_f1 a b c) sha1_k1 w0;
       w1 = sha1_left (w1 XOR w14 XOR w9 XOR w3);
       (e, c) = sha1_Round d e a b c (sha1_f1 e a b) sha1_k1 w1;
       w2 = sha1_left (w2 XOR w15 XOR w10 XOR w4);
       (d, b) = sha1_Round c d e a b (sha1_f1 d e a) sha1_k1 w2;
       w3 = sha1_left (w3 XOR w0 XOR w11 XOR w5);
       (c, a) = sha1_Round b c d e a (sha1_f1 c d e) sha1_k1 w3;
       w4 = sha1_left (w4 XOR w1 XOR w12 XOR w6);
       (b, e) = sha1_Round a b c d e (sha1_f2 b c d) sha1_k2 w4;
       w5 = sha1_left (w5 XOR w2 XOR w13 XOR w7);
       (a, d) = sha1_Round e a b c d (sha1_f2 a b c) sha1_k2 w5;
       w6 = sha1_left (w6 XOR w3 XOR w14 XOR w8);
       (e, c) = sha1_Round d e a b c (sha1_f2 e a b) sha1_k2 w6;
       w7 = sha1_left (w7 XOR w4 XOR w15 XOR w9);
       (d, b) = sha1_Round c d e a b (sha1_f2 d e a) sha1_k2 w7;
       w8 = sha1_left (w8 XOR w5 XOR w0 XOR w10);
       (c, a) = sha1_Round b c d e a (sha1_f2 c d e) sha1_k2 w8;
       w9 = sha1_left (w9 XOR w6 XOR w1 XOR w11);
       (b, e) = sha1_Round a b c d e (sha1_f2 b c d) sha1_k2 w9;
       w10 = sha1_left (w10 XOR w7 XOR w2 XOR w12);
       (a, d) = sha1_Round e a b c d (sha1_f2 a b c) sha1_k2 w10;
       w11 = sha1_left (w11 XOR w8 XOR w3 XOR w13);
       (e, c) = sha1_Round d e a b c (sha1_f2 e a b) sha1_k2 w11;
       w12 = sha1_left (w12 XOR w9 XOR w4 XOR w14);
       (d, b) = sha1_Round c d e a b (sha1_f2 d e a) sha1_k2 w12;
       w13 = sha1_left (w13 XOR w10 XOR w5 XOR w15);
       (c, a) = sha1_Round b c d e a (sha1_f2 c d e) sha1_k2 w13;
       w14 = sha1_left (w14 XOR w11 XOR w6 XOR w0);
       (b, e) = sha1_Round a b c d e (sha1_f2 b c d) sha1_k2 w14;
       w15 = sha1_left (w15 XOR w12 XOR w7 XOR w1);
       (a, d) = sha1_Round e a b c d (sha1_f2 a b c) sha1_k2 w15;
       w0 = sha1_left (w0 XOR w13 XOR w8 XOR w2);
       (e, c) = sha1_Round d e a b c (sha1_f2 e a b) sha1_k2 w0;
       w1 = sha1_left (w1 XOR w14 XOR w9 XOR w3);
       (d, b) = sha1_Round c d e a b (sha1_f2 d e a) sha1_k2 w1;
       w2 = sha1_left (w2 XOR w15 XOR w10 XOR w4);
       (c, a) = sha1_Round b c d e a (sha1_f2 c d e) sha1_k2 w2;
       w3 = sha1_left (w3 XOR w0 XOR w11 XOR w5);
       (b, e) = sha1_Round a b c d e (sha1_f2 b c d) sha1_k2 w3;
       w4 = sha1_left (w4 XOR w1 XOR w12 XOR w6);
       (a, d) = sha1_Round e a b c d (sha1_f2 a b c) sha1_k2 w4;
       w5 = sha1_left (w5 XOR w2 XOR w13 XOR w7);
       (e, c) = sha1_Round d e a b c (sha1_f2 e a b) sha1_k2 w5;
       w6 = sha1_left (w6 XOR w3 XOR w14 XOR w8);
       (d, b) = sha1_Round c d e a b (sha1_f2 d e a) sha1_k2 w6;
       w7 = sha1_left (w7 XOR w4 XOR w15 XOR w9);
       (c, a) = sha1_Round b c d e a (sha1_f2 c d e) sha1_k2 w7;
       w8 = sha1_left (w8 XOR w5 XOR w0 XOR w10);
       (b, e) = sha1_Round a b c d e (sha1_f3 b c d) sha1_k3 w8;
       w9 = sha1_left (w9 XOR w6 XOR w1 XOR w11);
       (a, d) = sha1_Round e a b c d (sha1_f3 a b c) sha1_k3 w9;
       w10 = sha1_left (w10 XOR w7 XOR w2 XOR w12);
       (e, c) = sha1_Round d e a b c (sha1_f3 e a b) sha1_k3 w10;
       w11 = sha1_left (w11 XOR w8 XOR w3 XOR w13);
       (d, b) = sha1_Round c d e a b (sha1_f3 d e a) sha1_k3 w11;
       w12 = sha1_left (w12 XOR w9 XOR w4 XOR w14);
       (c, a) = sha1_Round b c d e a (sha1_f3 c d e) sha1_k3 w12;
       w13 = sha1_left (w13 XOR w10 XOR w5 XOR w15);
       (b, e) = sha1_Round a b c d e (sha1_f3 b c d) sha1_k3 w13;
       w14 = sha1_left (w14 XOR w11 XOR w6 XOR w0);
       (a, d) = sha1_Round e a b c d (sha1_f3 a b c) sha1_k3 w14;
       w15 = sha1_left (w15 XOR w12 XOR w7 XOR w1);
       (e, c) = sha1_Round d e a b c (sha1_f3 e a b) sha1_k3 w15;
       w0 = sha1_left (w0 XOR w13 XOR w8 XOR w2);
       (d, b) = sha1_Round c d e a b (sha1_f3 d e a) sha1_k3 w0;
       w1 = sha1_left (w1 XOR w14 XOR w9 XOR w3);
       (c, a) = sha1_Round b c d e a (sha1_f3 c d e) sha1_k3 w1;
       w2 = sha1_left (w2 XOR w15 XOR w10 XOR w4);
       (b, e) = sha1_Round a b c d e (sha1_f3 b c d) sha1_k3 w2;
       w3 = sha1_left (w3 XOR w0 XOR w11 XOR w5);
       (a, d) = sha1_Round e a b c d (sha1_f3 a b c) sha1_k3 w3;
       w4 = sha1_left (w4 XOR w1 XOR w12 XOR w6);
       (e, c) = sha1_Round d e a b c (sha1_f3 e a b) sha1_k3 w4;
       w5 = sha1_left (w5 XOR w2 XOR w13 XOR w7);
       (d, b) = sha1_Round c d e a b (sha1_f3 d e a) sha1_k3 w5;
       w6 = sha1_left (w6 XOR w3 XOR w14 XOR w8);
       (c, a) = sha1_Round b c d e a (sha1_f3 c d e) sha1_k3 w6;
       w7 = sha1_left (w7 XOR w4 XOR w15 XOR w9);
       (b, e) = sha1_Round a b c d e (sha1_f3 b c d) sha1_k3 w7;
       w8 = sha1_left (w8 XOR w5 XOR w0 XOR w10);
       (a, d) = sha1_Round e a b c d (sha1_f3 a b c) sha1_k3 w8;
       w9 = sha1_left (w9 XOR w6 XOR w1 XOR w11);
       (e, c) = sha1_Round d e a b c (sha1_f3 e a b) sha1_k3 w9;
       w10 = sha1_left (w10 XOR w7 XOR w2 XOR w12);
       (d, b) = sha1_Round c d e a b (sha1_f3 d e a) sha1_k3 w10;
       w11 = sha1_left (w11 XOR w8 XOR w3 XOR w13);
       (c, a) = sha1_Round b c d e a (sha1_f3 c d e) sha1_k3 w11;
       w12 = sha1_left (w12 XOR w9 XOR w4 XOR w14);
       (b, e) = sha1_Round a b c d e (sha1_f2 b c d) sha1_k4 w12;
       w13 = sha1_left (w13 XOR w10 XOR w5 XOR w15);
       (a, d) = sha1_Round e a b c d (sha1_f2 a b c) sha1_k4 w13;
       w14 = sha1_left (w14 XOR w11 XOR w6 XOR w0);
       (e, c) = sha1_Round d e a b c (sha1_f2 e a b) sha1_k4 w14;
       w15 = sha1_left (w15 XOR w12 XOR w7 XOR w1);
       (d, b) = sha1_Round c d e a b (sha1_f2 d e a) sha1_k4 w15;
       w0 = sha1_left (w0 XOR w13 XOR w8 XOR w2);
       (c, a) = sha1_Round b c d e a (sha1_f2 c d e) sha1_k4 w0;
       w1 = sha1_left (w1 XOR w14 XOR w9 XOR w3);
       (b, e) = sha1_Round a b c d e (sha1_f2 b c d) sha1_k4 w1;
       w2 = sha1_left (w2 XOR w15 XOR w10 XOR w4);
       (a, d) = sha1_Round e a b c d (sha1_f2 a b c) sha1_k4 w2;
       w3 = sha1_left (w3 XOR w0 XOR w11 XOR w5);
       (e, c) = sha1_Round d e a b c (sha1_f2 e a b) sha1_k4 w3;
       w4 = sha1_left (w4 XOR w1 XOR w12 XOR w6);
       (d, b) = sha1_Round c d e a b (sha1_f2 d e a) sha1_k4 w4;
       w5 = sha1_left (w5 XOR w2 XOR w13 XOR w7);
       (c, a) = sha1_Round b c d e a (sha1_f2 c d e) sha1_k4 w5;
       w6 = sha1_left (w6 XOR w3 XOR w14 XOR w8);
       (b, e) = sha1_Round a b c d e (sha1_f2 b c d) sha1_k4 w6;
       w7 = sha1_left (w7 XOR w4 XOR w15 XOR w9);
       (a, d) = sha1_Round e a b c d (sha1_f2 a b c) sha1_k4 w7;
       w8 = sha1_left (w8 XOR w5 XOR w0 XOR w10);
       (e, c) = sha1_Round d e a b c (sha1_f2 e a b) sha1_k4 w8;
       w9 = sha1_left (w9 XOR w6 XOR w1 XOR w11);
       (d, b) = sha1_Round c d e a b (sha1_f2 d e a) sha1_k4 w9;
       w10 = sha1_left (w10 XOR w7 XOR w2 XOR w12);
       (c, a) = sha1_Round b c d e a (sha1_f2 c d e) sha1_k4 w10;
       w11 = sha1_left (w11 XOR w8 XOR w3 XOR w13);
       (b, e) = sha1_Round a b c d e (sha1_f2 b c d) sha1_k4 w11;
       w12 = sha1_left (w12 XOR w9 XOR w4 XOR w14);
       (a, d) = sha1_Round e a b c d (sha1_f2 a b c) sha1_k4 w12;
       (e, c) = sha1_Round d e a b c (sha1_f2 e a b) sha1_k4 (sha1_left (w13 XOR w10 XOR w5 XOR w15));
       (d, b) = sha1_Round c d e a b (sha1_f2 d e a) sha1_k4 (sha1_left (w14 XOR w11 XOR w6 XOR w0));
       (c, a) = sha1_Round b c d e a (sha1_f2 c d e) sha1_k4 (sha1_left (w15 XOR w12 XOR w7 XOR w1))
      in [s ! 0 + a, s ! 1 + b, s ! 2 + c, s ! 3 + d, s ! 4 + e])"

section \<open>Reference compression function (FIPS 180-4)\<close>

fun sha1_W :: "bytes \<Rightarrow> nat \<Rightarrow> u32" where
  "sha1_W m t =
     (if t < 16 then ReadBE32 (drop (4 * t) m)
      else word_rotl 1 (sha1_W m (t - 3) XOR sha1_W m (t - 8) XOR sha1_W m (t - 14) XOR sha1_W m (t - 16)))"

declare sha1_W.simps [simp del]

definition sha1_K :: "nat \<Rightarrow> u32" where
  "sha1_K t = (if t < 20 then 0x5A827999 else if t < 40 then 0x6ED9EBA1
               else if t < 60 then 0x8F1BBCDC else 0xCA62C1D6)"

definition sha1_F :: "nat \<Rightarrow> u32 \<Rightarrow> u32 \<Rightarrow> u32 \<Rightarrow> u32" where
  "sha1_F t x y z =
     (if t < 20 then (x AND y) XOR (NOT x AND z)
      else if 40 \<le> t \<and> t < 60 then (x AND y) XOR (x AND z) XOR (y AND z)
      else x XOR y XOR z)"

definition sha1_step :: "bytes \<Rightarrow> u32 list \<Rightarrow> nat \<Rightarrow> u32 list" where
  "sha1_step m v t =
     [word_rotl 5 (v ! 0) + sha1_F t (v ! 1) (v ! 2) (v ! 3) + v ! 4 + sha1_K t + sha1_W m t,
      v ! 0, word_rotl 30 (v ! 1), v ! 2, v ! 3]"

definition sha1_compress :: "u32 list \<Rightarrow> bytes \<Rightarrow> u32 list" where
  "sha1_compress H m = map2 (+) H (foldl (sha1_step m) H [0..<80])"

section \<open>The unrolled transform computes the reference compression\<close>

text \<open>The successive values of the register \<open>a\<close>, paired with the rotated value it has once it has
  moved to the register \<open>c\<close>.\<close>

fun sha1_AB :: "u32 list \<Rightarrow> bytes \<Rightarrow> nat \<Rightarrow> u32 \<times> u32" where
  "sha1_AB H m t =
     (if t < 3 then (0, H ! (4 - t))
      else let a = (if t < 5 then H ! (4 - t)
             else word_rotl 5 (fst (sha1_AB H m (t - 1)))
               + sha1_F (t - 5) (fst (sha1_AB H m (t - 2))) (snd (sha1_AB H m (t - 3))) (snd (sha1_AB H m (t - 4)))
               + snd (sha1_AB H m (t - 5)) + sha1_K (t - 5) + sha1_W m (t - 5))
           in (a, word_rotl 30 a))"

declare sha1_AB.simps [simp del]

definition sha1_A :: "u32 list \<Rightarrow> bytes \<Rightarrow> nat \<Rightarrow> u32" where
  "sha1_A H m t = fst (sha1_AB H m t)"

definition sha1_B :: "u32 list \<Rightarrow> bytes \<Rightarrow> nat \<Rightarrow> u32" where
  "sha1_B H m t = snd (sha1_AB H m t)"

lemma sha1_B_rotl: "3 \<le> t \<Longrightarrow> sha1_B H m t = word_rotl 30 (sha1_A H m t)"
  unfolding sha1_A_def sha1_B_def by (subst (1 2) sha1_AB.simps) (simp add: Let_def)

lemma sha1_A_rec:
  "sha1_A H m (t + 5) = word_rotl 5 (sha1_A H m (t + 4))
     + sha1_F t (sha1_A H m (t + 3)) (sha1_B H m (t + 2)) (sha1_B H m (t + 1)) + sha1_B H m t + sha1_K t + sha1_W m t"
  unfolding sha1_A_def sha1_B_def by (subst sha1_AB.simps) (simp add: Let_def add.commute [of t])

lemma sha1_F_code:
  "sha1_f1 b c d = (b AND c) XOR (NOT b AND d)"
  "sha1_f3 b c d = (b AND c) XOR (b AND d) XOR (c AND d)"
  by (simp_all add: sha1_f1_def sha1_f3_def choose_xor_form majority_or_form)

lemma sha1_Round_A:
  assumes "t1 = t + 1" "t2 = t + 2" "t3 = t + 3" "t4 = t + 4" "k = sha1_K t"
    and "f = sha1_F t (sha1_A H m t3) (sha1_B H m t2) (sha1_B H m t1)"
  shows "sha1_Round (sha1_A H m t4) (sha1_A H m t3) (sha1_B H m t2) (sha1_B H m t1) (sha1_B H m t) f k (sha1_W m t)
   = (sha1_B H m t3, sha1_A H m (t + 5))"
  unfolding assms sha1_A_rec
  by (simp add: sha1_Round_def rotl_push_drop sha1_B_rotl add.commute add.left_commute)

lemma sha1_left_rotl: "sha1_left x = word_rotl 1 x"
  unfolding sha1_left_def by (rule rotl_push_drop) simp_all

lemma sha1_W_rec:
  "t2 = t + 2 \<Longrightarrow> t8 = t + 8 \<Longrightarrow> t13 = t + 13 \<Longrightarrow>
   sha1_left (sha1_W m t XOR sha1_W m t13 XOR sha1_W m t8 XOR sha1_W m t2) = sha1_W m (t + 16)"
  by (simp add: sha1_W.simps [of m "16 + t"] sha1_left_rotl add.commute [of t] xor.assoc xor.left_commute xor.commute)

lemma sha1_W_read: "n < 64 \<Longrightarrow> n mod 4 = 0 \<Longrightarrow> ReadBE32 (drop n m) = sha1_W m (n div 4)"
  by (subst sha1_W.simps) auto

lemma sha1_A_init:
  "H ! 0 = sha1_A H m 4" "H ! 1 = sha1_A H m 3" "H ! 2 = sha1_B H m 2" "H ! 3 = sha1_B H m 1"
  "H ! 4 = sha1_B H m 0"
  by (simp_all add: sha1_A_def sha1_B_def sha1_AB.simps Let_def)

lemma sha1_step_A:
  "sha1_step m [sha1_A H m (t + 4), sha1_A H m (t + 3), sha1_B H m (t + 2), sha1_B H m (t + 1), sha1_B H m t] t
   = [sha1_A H m (t + 5), sha1_A H m (t + 4), sha1_B H m (t + 3), sha1_B H m (t + 2), sha1_B H m (t + 1)]"
  by (simp add: sha1_step_def sha1_A_rec sha1_B_rotl)

lemma sha1_rounds_A:
  "length H = 5 \<Longrightarrow> foldl (sha1_step m) H [0..<t] =
     [sha1_A H m (t + 4), sha1_A H m (t + 3), sha1_B H m (t + 2), sha1_B H m (t + 1), sha1_B H m t]"
proof (induction t)
  case 0
  then have "H = [H ! 0, H ! 1, H ! 2, H ! 3, H ! 4]"
    by (auto simp: length_Suc_conv numeral_eq_Suc)
  then show ?case by (simp only: sha1_A_init [of H m, symmetric] add_0 upt_0 foldl.simps upt_conv_Nil le_refl)
next
  case (Suc t)
  then have "foldl (sha1_step m) H [0..<Suc t] = sha1_step m
     [sha1_A H m (t + 4), sha1_A H m (t + 3), sha1_B H m (t + 2), sha1_B H m (t + 1), sha1_B H m t] t" by simp
  also note sha1_step_A
  finally show ?case by (simp add: eval_nat_numeral)
qed

lemma sha1_compress_A:
  "length H = 5 \<Longrightarrow> sha1_compress H m =
     [H ! 0 + sha1_A H m 84, H ! 1 + sha1_A H m 83, H ! 2 + sha1_B H m 82, H ! 3 + sha1_B H m 81, H ! 4 + sha1_B H m 80]"
  unfolding sha1_compress_def by (subst sha1_rounds_A) (auto simp: length_Suc_conv numeral_eq_Suc)

lemma length_sha1_compress: "length H = 5 \<Longrightarrow> length (sha1_compress H m) = 5"
  by (simp add: sha1_compress_A)

lemma sha1_Transform_compress:
  "length s = 5 \<Longrightarrow> sha1_Transform s chunk = sha1_compress s chunk"
  unfolding sha1_Transform_def sha1_compress_A
  by (simp add: sha1_A_init [of s chunk] sha1_W_read sha1_W_rec sha1_Round_A Let_def
      sha1_k1_def sha1_k2_def sha1_k3_def sha1_k4_def sha1_K_def sha1_F_code sha1_f2_def sha1_F_def
      del: One_nat_def drop0 cong: let_weak_cong prod.case_cong_weak)

section \<open>The class CSHA1\<close>

text \<open>The constructor leaves the buffer uninitialised: its contents are an argument.
  \<^verbatim>\<open>Finalize\<close> returns the object it has modified and the digest.\<close>

definition CSHA1 :: "bytes \<Rightarrow> u32 hasher" where
  "CSHA1 b = \<lparr>hs = sha1_Initialize, hbuf = b, hbytes = 0\<rparr>"

definition CSHA1_Write :: "bytes \<Rightarrow> u32 hasher \<Rightarrow> u32 hasher" where
  "CSHA1_Write = hasher_Write 64 sha1_Transform"

definition CSHA1_Finalize :: "u32 hasher \<Rightarrow> u32 hasher \<times> bytes" where
  "CSHA1_Finalize h =
     (let sizedesc = WriteBE64 (push_bit 3 (hbytes h));
          h = CSHA1_Write (take (1 + ((119 - unat (hbytes h) mod 64) mod 64)) (pad_array 64)) h;
          h = CSHA1_Write sizedesc h
      in (h, concat (map WriteBE32 (hs h))))"

definition CSHA1_Reset :: "u32 hasher \<Rightarrow> u32 hasher" where
  "CSHA1_Reset h = h\<lparr>hbytes := 0, hs := sha1_Initialize\<rparr>"

text \<open>Specification: the padded message, cut into blocks, compressed in order.\<close>

definition sha1_digest :: "bytes \<Rightarrow> bytes" where
  "sha1_digest m = concat (map WriteBE32
     (foldl sha1_compress sha1_Initialize (chunks 64 (md_pad 64 (WriteBE64 (of_nat (8 * length m))) m))))"

lemma length_sha1_Initialize [simp]: "length sha1_Initialize = 5"
  by (simp add: sha1_Initialize_def)

interpretation sha1_block: block_hash 64 sha1_Transform
  by unfold_locales simp_all

lemma CSHA1_Write_eq: "CSHA1_Write data h = hasher_Write 64 sha1_Transform data h"
  by (simp add: CSHA1_Write_def)

interpretation sha1: hasher_class 64 sha1_Transform CSHA1_Write sha1_compress sha1_Initialize
  by unfold_locales (simp_all add: sha1_Transform_compress length_sha1_compress CSHA1_Write_eq)

lemma CSHA1_Finalize_holds:
  assumes "absorbed 64 sha1_Transform sha1_Initialize m h"
  shows "snd (CSHA1_Finalize h) = sha1_digest m"
proof -
  let ?szd = "WriteBE64 (push_bit 3 (hbytes h))"
  let ?k = "(119 - unat (hbytes h) mod 64) mod 64"
  have "?k = (2 * 64 - length ?szd - 1 - unat (hbytes h) mod 64) mod 64" by simp
  from sha1.Finalize_holds [OF assms this] show ?thesis
    unfolding CSHA1_Finalize_def sha1_digest_def Let_def snd_conv sha1.holds_hbytes [OF assms]
    by (rule arg_cong)
qed

lemma CSHA1_holds:
  assumes "length b = 64"
  shows "absorbed 64 sha1_Transform sha1_Initialize (concat ps) (fold CSHA1_Write ps (CSHA1 b))"
  using sha1.Write_list_holds [OF sha1_block.absorbed_init [OF assms], of ps] by (simp add: CSHA1_def)

lemma CSHA1_Reset_holds:
  "length (hbuf h) = 64 \<Longrightarrow> absorbed 64 sha1_Transform sha1_Initialize [] (CSHA1_Reset h)"
  by (simp add: CSHA1_Reset_def absorbed_def)

lemma length_sha1_digest [simp]: "length (sha1_digest m) = 20"
  by (simp add: sha1_digest_def length_concat_map_const sha1.length_foldl_compress)

lemma sha1_stream:
  "length b = 64 \<Longrightarrow>
   snd (CSHA1_Finalize (fold CSHA1_Write ps (CSHA1 b))) = sha1_digest (concat ps)"
  by (rule CSHA1_Finalize_holds [OF CSHA1_holds])

section \<open>Properties\<close>

text \<open>
  \<^verbatim>\<open>CSHA1\<close> computes SHA-1 of the whole message: however the message is split into \<^verbatim>\<open>Write\<close>
  calls, and whatever the uninitialised buffer holds, \<^verbatim>\<open>Finalize\<close> returns the digest that the
  round-by-round reference compression yields on the padded blocks of the concatenation.
\<close>
theorem CSHA1_correct:
  assumes "length b = 64"
  shows "snd (CSHA1_Finalize (fold CSHA1_Write ps (CSHA1 b))) = sha1_digest (concat ps)"
  using sha1_stream [OF assms] .

theorem CSHA1_correct_witness:
  "snd (CSHA1_Finalize (fold CSHA1_Write [[0x61], [], [0x62, 0x63]] (CSHA1 (replicate 64 0)))) = sha1_digest [0x61, 0x62, 0x63]"
  using CSHA1_correct [of "replicate 64 0" "[[0x61], [], [0x62, 0x63]]"] by simp

end
