(* ===== verification/Interpreter.thy ===== *)
theory Interpreter
  imports Script Hash Sha1
begin

text \<open>
  The script interpreter (\<^verbatim>\<open>src/script/interpreter.cpp\<close>, \<^verbatim>\<open>src/script/interpreter.h\<close>,
  \<^verbatim>\<open>src/script/script_error.h\<close>): signature and key encoding rules, one handler per group of opcodes
  of the switch in \<^verbatim>\<open>EvalScript\<close>, the evaluation loop, witness programs and \<^verbatim>\<open>VerifyScript\<close>.

  A stack is a list with the top element first: \<^verbatim>\<open>stacktop(-i)\<close> is \<open>stack ! (i - 1)\<close>.  A handler
  returns the new state, or \<^verbatim>\<open>Inl\<close> of the script error it sets.  A failed assertion is the
  separate value \<open>Abort\<close>.  The signature checker is an argument, as in the code, and so is the
  elliptic curve test \<^verbatim>\<open>CPubKey::CheckLowS\<close>.
\<close>

unbundle bit_operations_syntax

section \<open>Errors, flags and the checker interface\<close>

datatype ScriptError =
  SCRIPT_ERR_OK | SCRIPT_ERR_UNKNOWN_ERROR | SCRIPT_ERR_EVAL_FALSE | SCRIPT_ERR_OP_RETURN
| SCRIPT_ERR_SCRIPT_SIZE | SCRIPT_ERR_PUSH_SIZE | SCRIPT_ERR_OP_COUNT | SCRIPT_ERR_STACK_SIZE
| SCRIPT_ERR_SIG_COUNT | SCRIPT_ERR_PUBKEY_COUNT
| SCRIPT_ERR_VERIFY | SCRIPT_ERR_EQUALVERIFY | SCRIPT_ERR_CHECKMULTISIGVERIFY
| SCRIPT_ERR_CHECKSIGVERIFY | SCRIPT_ERR_NUMEQUALVERIFY
| SCRIPT_ERR_BAD_OPCODE | SCRIPT_ERR_DISABLED_OPCODE | SCRIPT_ERR_INVALID_STACK_OPERATION
| SCRIPT_ERR_INVALID_ALTSTACK_OPERATION | SCRIPT_ERR_UNBALANCED_CONDITIONAL
| SCRIPT_ERR_NEGATIVE_LOCKTIME | SCRIPT_ERR_UNSATISFIED_LOCKTIME
| SCRIPT_ERR_SIG_HASHTYPE | SCRIPT_ERR_SIG_DER | SCRIPT_ERR_MINIMALDATA | SCRIPT_ERR_SIG_PUSHONLY
| SCRIPT_ERR_SIG_HIGH_S | SCRIPT_ERR_SIG_NULLDUMMY | SCRIPT_ERR_PUBKEYTYPE | SCRIPT_ERR_CLEANSTACK
| SCRIPT_ERR_MINIMALIF | SCRIPT_ERR_SIG_NULLFAIL
| SCRIPT_ERR_DISCOURAGE_UPGRADABLE_NOPS | SCRIPT_ERR_DISCOURAGE_UPGRADABLE_WITNESS_PROGRAM
| SCRIPT_ERR_WITNESS_PROGRAM_WRONG_LENGTH | SCRIPT_ERR_WITNESS_PROGRAM_WITNESS_EMPTY
| SCRIPT_ERR_WITNESS_PROGRAM_MISMATCH | SCRIPT_ERR_WITNESS_MALLEATED
| SCRIPT_ERR_WITNESS_MALLEATED_P2SH | SCRIPT_ERR_WITNESS_UNEXPECTED
| SCRIPT_ERR_WITNESS_PUBKEYTYPE | SCRIPT_ERR_ERROR_COUNT

datatype eval_fail = SErr ScriptError | Abort

abbreviation set_error :: "ScriptError \<Rightarrow> eval_fail + 'a" where
  "set_error e \<equiv> Inl (SErr e)"

type_synonym script_flags = u32

abbreviation (input) SCRIPT_VERIFY_NONE :: u32 where "SCRIPT_VERIFY_NONE \<equiv> 0"
abbreviation (input) SCRIPT_VERIFY_P2SH :: u32 where "SCRIPT_VERIFY_P2SH \<equiv> push_bit 0 1"
abbreviation (input) SCRIPT_VERIFY_STRICTENC :: u32 where "SCRIPT_VERIFY_STRICTENC \<equiv> push_bit 1 1"
abbreviation (input) SCRIPT_VERIFY_DERSIG :: u32 where "SCRIPT_VERIFY_DERSIG \<equiv> push_bit 2 1"
abbreviation (input) SCRIPT_VERIFY_LOW_S :: u32 where "SCRIPT_VERIFY_LOW_S \<equiv> push_bit 3 1"
abbreviation (input) SCRIPT_VERIFY_NULLDUMMY :: u32 where "SCRIPT_VERIFY_NULLDUMMY \<equiv> push_bit 4 1"
abbreviation (input) SCRIPT_VERIFY_SIGPUSHONLY :: u32 where "SCRIPT_VERIFY_SIGPUSHONLY \<equiv> push_bit 5 1"
abbreviation (input) SCRIPT_VERIFY_MINIMALDATA :: u32 where "SCRIPT_VERIFY_MINIMALDATA \<equiv> push_bit 6 1"
abbreviation (input) SCRIPT_VERIFY_DISCOURAGE_UPGRADABLE_NOPS :: u32 where
  "SCRIPT_VERIFY_DISCOURAGE_UPGRADABLE_NOPS \<equiv> push_bit 7 1"
abbreviation (input) SCRIPT_VERIFY_CLEANSTACK :: u32 where "SCRIPT_VERIFY_CLEANSTACK \<equiv> push_bit 8 1"
abbreviation (input) SCRIPT_VERIFY_CHECKLOCKTIMEVERIFY :: u32 where
  "SCRIPT_VERIFY_CHECKLOCKTIMEVERIFY \<equiv> push_bit 9 1"
abbreviation (input) SCRIPT_VERIFY_CHECKSEQUENCEVERIFY :: u32 where
  "SCRIPT_VERIFY_CHECKSEQUENCEVERIFY \<equiv> push_bit 10 1"
abbreviation (input) SCRIPT_VERIFY_WITNESS :: u32 where "SCRIPT_VERIFY_WITNESS \<equiv> push_bit 11 1"
abbreviation (input) SCRIPT_VERIFY_DISCOURAGE_UPGRADABLE_WITNESS_PROGRAM :: u32 where
  "SCRIPT_VERIFY_DISCOURAGE_UPGRADABLE_WITNESS_PROGRAM \<equiv> push_bit 12 1"
abbreviation (input) SCRIPT_VERIFY_MINIMALIF :: u32 where "SCRIPT_VERIFY_MINIMALIF \<equiv> push_bit 13 1"
abbreviation (input) SCRIPT_VERIFY_NULLFAIL :: u32 where "SCRIPT_VERIFY_NULLFAIL \<equiv> push_bit 14 1"
abbreviation (input) SCRIPT_VERIFY_WITNESS_PUBKEYTYPE :: u32 where
  "SCRIPT_VERIFY_WITNESS_PUBKEYTYPE \<equiv> push_bit 15 1"

text \<open>\<^verbatim>\<open>(flags & f) != 0\<close>\<close>

definition flag :: "script_flags \<Rightarrow> u32 \<Rightarrow> bool" where
  "flag flags f \<longleftrightarrow> flags AND f \<noteq> 0"

datatype SigVersion = SIGVERSION_BASE | SIGVERSION_WITNESS_V0

text \<open>The virtual methods of \<^verbatim>\<open>BaseSignatureChecker\<close>; \<^const>\<open>None\<close> is a failed assertion in
  \<^verbatim>\<open>CheckSig\<close>.\<close>

record checker =
  CheckSig :: "bytes \<Rightarrow> bytes \<Rightarrow> bytes \<Rightarrow> SigVersion \<Rightarrow> bool option"
  CheckLockTime :: "int \<Rightarrow> bool"
  CheckSequence :: "int \<Rightarrow> bool"

definition BaseSignatureChecker :: checker where
  "BaseSignatureChecker = \<lparr>CheckSig = (\<lambda>sig key code v. Some False), CheckLockTime = (\<lambda>n. False),
     CheckSequence = (\<lambda>n. False)\<rparr>"

section \<open>Encodings\<close>

text \<open>The byte loop of \<^verbatim>\<open>CastToBool\<close>: a last byte \<^verbatim>\<open>0x80\<close> is negative zero.\<close>

fun CastToBool :: "bytes \<Rightarrow> bool" where
  "CastToBool [] = False"
| "CastToBool (b # vch) = (if b \<noteq> 0 then \<not> (vch = [] \<and> b = 0x80) else CastToBool vch)"

definition IsCompressedOrUncompressedPubKey :: "bytes \<Rightarrow> bool" where
  "IsCompressedOrUncompressedPubKey vchPubKey =
     (if length vchPubKey < 33 then False
      else if vchPubKey ! 0 = 0x04 then length vchPubKey = 65
      else if vchPubKey ! 0 = 0x02 \<or> vchPubKey ! 0 = 0x03 then length vchPubKey = 33
      else False)"

definition IsCompressedPubKey :: "bytes \<Rightarrow> bool" where
  "IsCompressedPubKey vchPubKey =
     (if length vchPubKey \<noteq> 33 then False
      else if vchPubKey ! 0 \<noteq> 0x02 \<and> vchPubKey ! 0 \<noteq> 0x03 then False
      else True)"

definition IsValidSignatureEncoding :: "bytes \<Rightarrow> bool" where
  "IsValidSignatureEncoding sig =
     (if length sig < 9 then False
      else if length sig > 73 then False
      else if sig ! 0 \<noteq> 0x30 then False
      else if unat (sig ! 1) \<noteq> length sig - 3 then False
      else let lenR = unat (sig ! 3)
      in if 5 + lenR \<ge> length sig then False
      else let lenS = unat (sig ! (5 + lenR))
      in if lenR + lenS + 7 \<noteq> length sig then False
      else if sig ! 2 \<noteq> 0x02 then False
      else if lenR = 0 then False
      else if sig ! 4 AND 0x80 \<noteq> 0 then False
      else if lenR > 1 \<and> sig ! 4 = 0x00 \<and> \<not> (sig ! 5 AND 0x80 \<noteq> 0) then False
      else if sig ! (lenR + 4) \<noteq> 0x02 then False
      else if lenS = 0 then False
      else if sig ! (lenR + 6) AND 0x80 \<noteq> 0 then False
      else if lenS > 1 \<and> sig ! (lenR + 6) = 0x00 \<and> \<not> (sig ! (lenR + 7) AND 0x80 \<noteq> 0) then False
      else True)"

text \<open>The checks return the error they set, if any.\<close>

definition IsLowDERSignature :: "(bytes \<Rightarrow> bool) \<Rightarrow> bytes \<Rightarrow> ScriptError option" where
  "IsLowDERSignature CheckLowS vchSig =
     (if \<not> IsValidSignatureEncoding vchSig then Some SCRIPT_ERR_SIG_DER
      else if \<not> CheckLowS (butlast vchSig) then Some SCRIPT_ERR_SIG_HIGH_S
      else None)"

definition IsDefinedHashtypeSignature :: "bytes \<Rightarrow> bool" where
  "IsDefinedHashtypeSignature vchSig =
     (if length vchSig = 0 then False
      else let nHashType = vchSig ! (length vchSig - 1) AND NOT 0x80
      in if nHashType < 1 \<or> nHashType > 3 then False else True)"

definition CheckSignatureEncoding :: "(bytes \<Rightarrow> bool) \<Rightarrow> bytes \<Rightarrow> script_flags \<Rightarrow> ScriptError option" where
  "CheckSignatureEncoding CheckLowS vchSig flags =
     (if length vchSig = 0 then None
      else if flag flags (SCRIPT_VERIFY_DERSIG OR SCRIPT_VERIFY_LOW_S OR SCRIPT_VERIFY_STRICTENC)
          \<and> \<not> IsValidSignatureEncoding vchSig then Some SCRIPT_ERR_SIG_DER
      else if flag flags SCRIPT_VERIFY_LOW_S \<and> IsLowDERSignature CheckLowS vchSig \<noteq> None
        then IsLowDERSignature CheckLowS vchSig
      else if flag flags SCRIPT_VERIFY_STRICTENC \<and> \<not> IsDefinedHashtypeSignature vchSig
        then Some SCRIPT_ERR_SIG_HASHTYPE
      else None)"

definition CheckPubKeyEncoding :: "bytes \<Rightarrow> script_flags \<Rightarrow> SigVersion \<Rightarrow> ScriptError option" where
  "CheckPubKeyEncoding vchPubKey flags sigversion =
     (if flag flags SCRIPT_VERIFY_STRICTENC \<and> \<not> IsCompressedOrUncompressedPubKey vchPubKey
        then Some SCRIPT_ERR_PUBKEYTYPE
      else if flag flags SCRIPT_VERIFY_WITNESS_PUBKEYTYPE \<and> sigversion = SIGVERSION_WITNESS_V0
          \<and> \<not> IsCompressedPubKey vchPubKey then Some SCRIPT_ERR_WITNESS_PUBKEYTYPE
      else None)"

definition CheckMinimalPush :: "bytes \<Rightarrow> opcodetype \<Rightarrow> bool" where
  "CheckMinimalPush data opcode =
     (if length data = 0 then opcode = OP_0
      else if length data = 1 \<and> data ! 0 \<ge> 1 \<and> data ! 0 \<le> 16
        then opcode = OP_1 + (unat (data ! 0) - 1)
      else if length data = 1 \<and> data ! 0 = 0x81 then opcode = OP_1NEGATE
      else if length data \<le> 75 then opcode = length data
      else if length data \<le> 255 then opcode = OP_PUSHDATA1
      else if length data \<le> 65535 then opcode = OP_PUSHDATA2
      else True)"

section \<open>Evaluation state\<close>

record eval_env =
  env_flags :: script_flags
  chk :: checker
  sigversion :: SigVersion
  CheckLowS :: "bytes \<Rightarrow> bool"

record eval_state =
  stack :: "bytes list"
  altstack :: "bytes list"
  vfExec :: "bool list"
  nOpCount :: nat
  pbegincodehash :: bytes

type_synonym op_handler = "eval_state \<Rightarrow> eval_fail + eval_state"

definition fRequireMinimal :: "eval_env \<Rightarrow> bool" where
  "fRequireMinimal env = flag (env_flags env) SCRIPT_VERIFY_MINIMALDATA"

abbreviation (input) vchFalse :: bytes where "vchFalse \<equiv> []"
abbreviation (input) vchTrue :: bytes where "vchTrue \<equiv> [1]"

definition bool_vch :: "bool \<Rightarrow> bytes" where
  "bool_vch b = (if b then vchTrue else vchFalse)"

text \<open>Reading a number operand: the exception of \<^verbatim>\<open>CScriptNum\<close> is caught by \<^verbatim>\<open>EvalScript\<close>.\<close>

definition num_arg :: "eval_env \<Rightarrow> nat \<Rightarrow> bytes \<Rightarrow> eval_fail + int" where
  "num_arg env nMaxNumSize vch =
     (case CScriptNum vch (fRequireMinimal env) nMaxNumSize of
        Inl e \<Rightarrow> set_error SCRIPT_ERR_UNKNOWN_ERROR
      | Inr n \<Rightarrow> Inr n)"

definition assert_some :: "'a option \<Rightarrow> eval_fail + 'a" where
  "assert_some r = (case r of None \<Rightarrow> Inl Abort | Some x \<Rightarrow> Inr x)"

definition and_then :: "'e + 'a \<Rightarrow> ('a \<Rightarrow> 'e + 'b) \<Rightarrow> 'e + 'b" where
  "and_then r f = (case r of Inl e \<Rightarrow> Inl e | Inr x \<Rightarrow> f x)"

section \<open>Constants and control\<close>

definition op_number :: "opcodetype \<Rightarrow> op_handler" where
  "op_number opcode st =
     (let bn = int opcode - int (OP_1 - 1)
      in Inr (st\<lparr>stack := serialize bn # stack st\<rparr>))"

definition op_checklocktimeverify :: "eval_env \<Rightarrow> op_handler" where
  "op_checklocktimeverify env st =
     (if \<not> flag (env_flags env) SCRIPT_VERIFY_CHECKLOCKTIMEVERIFY then
        (if flag (env_flags env) SCRIPT_VERIFY_DISCOURAGE_UPGRADABLE_NOPS
         then set_error SCRIPT_ERR_DISCOURAGE_UPGRADABLE_NOPS else Inr st)
      else case stack st of
        [] \<Rightarrow> set_error SCRIPT_ERR_INVALID_STACK_OPERATION
      | x # _ \<Rightarrow>
          and_then (num_arg env 5 x) (\<lambda>nLockTime.
            if nLockTime < 0 then set_error SCRIPT_ERR_NEGATIVE_LOCKTIME
            else if \<not> CheckLockTime (chk env) nLockTime then set_error SCRIPT_ERR_UNSATISFIED_LOCKTIME
            else Inr st))"

abbreviation (input) SEQUENCE_LOCKTIME_DISABLE_FLAG :: int where
  "SEQUENCE_LOCKTIME_DISABLE_FLAG \<equiv> 2 ^ 31"

definition op_checksequenceverify :: "eval_env \<Rightarrow> op_handler" where
  "op_checksequenceverify env st =
     (if \<not> flag (env_flags env) SCRIPT_VERIFY_CHECKSEQUENCEVERIFY then
        (if flag (env_flags env) SCRIPT_VERIFY_DISCOURAGE_UPGRADABLE_NOPS
         then set_error SCRIPT_ERR_DISCOURAGE_UPGRADABLE_NOPS else Inr st)
      else case stack st of
        [] \<Rightarrow> set_error SCRIPT_ERR_INVALID_STACK_OPERATION
      | x # _ \<Rightarrow>
          and_then (num_arg env 5 x) (\<lambda>nSequence.
            if nSequence < 0 then set_error SCRIPT_ERR_NEGATIVE_LOCKTIME
            else if nSequence AND SEQUENCE_LOCKTIME_DISABLE_FLAG \<noteq> 0 then Inr st
            else if \<not> CheckSequence (chk env) nSequence then set_error SCRIPT_ERR_UNSATISFIED_LOCKTIME
            else Inr st))"

definition op_upgradable_nop :: "eval_env \<Rightarrow> op_handler" where
  "op_upgradable_nop env st =
     (if flag (env_flags env) SCRIPT_VERIFY_DISCOURAGE_UPGRADABLE_NOPS
      then set_error SCRIPT_ERR_DISCOURAGE_UPGRADABLE_NOPS else Inr st)"

definition op_if :: "eval_env \<Rightarrow> opcodetype \<Rightarrow> bool \<Rightarrow> op_handler" where
  "op_if env opcode fExec st =
     (if \<not> fExec then Inr (st\<lparr>vfExec := False # vfExec st\<rparr>)
      else case stack st of
        [] \<Rightarrow> set_error SCRIPT_ERR_UNBALANCED_CONDITIONAL
      | vch # rest \<Rightarrow>
          if sigversion env = SIGVERSION_WITNESS_V0 \<and> flag (env_flags env) SCRIPT_VERIFY_MINIMALIF
            \<and> (length vch > 1 \<or> (length vch = 1 \<and> vch ! 0 \<noteq> 1))
          then set_error SCRIPT_ERR_MINIMALIF
          else let fValue = CastToBool vch;
                   fValue = (if opcode = OP_NOTIF then \<not> fValue else fValue)
               in Inr (st\<lparr>stack := rest, vfExec := fValue # vfExec st\<rparr>))"

definition op_else :: op_handler where
  "op_else st =
     (case vfExec st of
        [] \<Rightarrow> set_error SCRIPT_ERR_UNBALANCED_CONDITIONAL
      | b # bs \<Rightarrow> Inr (st\<lparr>vfExec := (\<not> b) # bs\<rparr>))"

definition op_endif :: op_handler where
  "op_endif st =
     (case vfExec st of
        [] \<Rightarrow> set_error SCRIPT_ERR_UNBALANCED_CONDITIONAL
      | b # bs \<Rightarrow> Inr (st\<lparr>vfExec := bs\<rparr>))"

definition op_verify :: op_handler where
  "op_verify st =
     (case stack st of
        [] \<Rightarrow> set_error SCRIPT_ERR_INVALID_STACK_OPERATION
      | x # rest \<Rightarrow> if CastToBool x then Inr (st\<lparr>stack := rest\<rparr>) else set_error SCRIPT_ERR_VERIFY)"

definition op_return :: op_handler where
  "op_return st = set_error SCRIPT_ERR_OP_RETURN"

section \<open>Stack operations\<close>

text \<open>The handlers below list the top elements from the top down: the comment
  \<^verbatim>\<open>(x1 x2 -- x2 x1)\<close> of the source reads \<open>x2 # x1 # r\<close> to \<open>x1 # x2 # r\<close>.\<close>

definition op_toaltstack :: op_handler where
  "op_toaltstack st =
     (case stack st of
        x # r \<Rightarrow> Inr (st\<lparr>altstack := x # altstack st, stack := r\<rparr>)
      | _ \<Rightarrow> set_error SCRIPT_ERR_INVALID_STACK_OPERATION)"

definition op_fromaltstack :: op_handler where
  "op_fromaltstack st =
     (case altstack st of
        x # r \<Rightarrow> Inr (st\<lparr>stack := x # stack st, altstack := r\<rparr>)
      | _ \<Rightarrow> set_error SCRIPT_ERR_INVALID_ALTSTACK_OPERATION)"

definition op_2drop :: op_handler where
  "op_2drop st =
     (case stack st of
        x2 # x1 # r \<Rightarrow> Inr (st\<lparr>stack := r\<rparr>)
      | _ \<Rightarrow> set_error SCRIPT_ERR_INVALID_STACK_OPERATION)"

definition op_2dup :: op_handler where
  "op_2dup st =
     (case stack st of
        x2 # x1 # r \<Rightarrow> Inr (st\<lparr>stack := x2 # x1 # x2 # x1 # r\<rparr>)
      | _ \<Rightarrow> set_error SCRIPT_ERR_INVALID_STACK_OPERATION)"

definition op_3dup :: op_handler where
  "op_3dup st =
     (case stack st of
        x3 # x2 # x1 # r \<Rightarrow> Inr (st\<lparr>stack := x3 # x2 # x1 # x3 # x2 # x1 # r\<rparr>)
      | _ \<Rightarrow> set_error SCRIPT_ERR_INVALID_STACK_OPERATION)"

definition op_2over :: op_handler where
  "op_2over st =
     (case stack st of
        x4 # x3 # x2 # x1 # r \<Rightarrow> Inr (st\<lparr>stack := x2 # x1 # x4 # x3 # x2 # x1 # r\<rparr>)
      | _ \<Rightarrow> set_error SCRIPT_ERR_INVALID_STACK_OPERATION)"

definition op_2rot :: op_handler where
  "op_2rot st =
     (case stack st of
        x6 # x5 # x4 # x3 # x2 # x1 # r \<Rightarrow> Inr (st\<lparr>stack := x2 # x1 # x6 # x5 # x4 # x3 # r\<rparr>)
      | _ \<Rightarrow> set_error SCRIPT_ERR_INVALID_STACK_OPERATION)"

definition op_2swap :: op_handler where
  "op_2swap st =
     (case stack st of
        x4 # x3 # x2 # x1 # r \<Rightarrow> Inr (st\<lparr>stack := x2 # x1 # x4 # x3 # r\<rparr>)
      | _ \<Rightarrow> set_error SCRIPT_ERR_INVALID_STACK_OPERATION)"

definition op_ifdup :: op_handler where
  "op_ifdup st =
     (case stack st of
        x # r \<Rightarrow> Inr (if CastToBool x then st\<lparr>stack := x # x # r\<rparr> else st)
      | _ \<Rightarrow> set_error SCRIPT_ERR_INVALID_STACK_OPERATION)"

definition op_depth :: op_handler where
  "op_depth st = Inr (st\<lparr>stack := serialize (int (length (stack st))) # stack st\<rparr>)"

definition op_drop :: op_handler where
  "op_drop st =
     (case stack st of
        x # r \<Rightarrow> Inr (st\<lparr>stack := r\<rparr>)
      | _ \<Rightarrow> set_error SCRIPT_ERR_INVALID_STACK_OPERATION)"

definition op_dup :: op_handler where
  "op_dup st =
     (case stack st of
        x # r \<Rightarrow> Inr (st\<lparr>stack := x # x # r\<rparr>)
      | _ \<Rightarrow> set_error SCRIPT_ERR_INVALID_STACK_OPERATION)"

definition op_nip :: op_handler where
  "op_nip st =
     (case stack st of
        x2 # x1 # r \<Rightarrow> Inr (st\<lparr>stack := x2 # r\<rparr>)
      | _ \<Rightarrow> set_error SCRIPT_ERR_INVALID_STACK_OPERATION)"

definition op_over :: op_handler where
  "op_over st =
     (case stack st of
        x2 # x1 # r \<Rightarrow> Inr (st\<lparr>stack := x1 # x2 # x1 # r\<rparr>)
      | _ \<Rightarrow> set_error SCRIPT_ERR_INVALID_STACK_OPERATION)"

definition op_pick_roll :: "eval_env \<Rightarrow> opcodetype \<Rightarrow> op_handler" where
  "op_pick_roll env opcode st =
     (if length (stack st) < 2 then set_error SCRIPT_ERR_INVALID_STACK_OPERATION
      else and_then (num_arg env nDefaultMaxNumSize (hd (stack st))) (\<lambda>bn.
        let n = getint bn;
            stk = tl (stack st)
        in if n < 0 \<or> n \<ge> int (length stk) then set_error SCRIPT_ERR_INVALID_STACK_OPERATION
           else let vch = stk ! nat n;
                    stk = (if opcode = OP_ROLL then take (nat n) stk @ drop (nat n + 1) stk else stk)
                in Inr (st\<lparr>stack := vch # stk\<rparr>)))"

definition op_rot :: op_handler where
  "op_rot st =
     (case stack st of
        x3 # x2 # x1 # r \<Rightarrow> Inr (st\<lparr>stack := x1 # x3 # x2 # r\<rparr>)
      | _ \<Rightarrow> set_error SCRIPT_ERR_INVALID_STACK_OPERATION)"

definition op_swap :: op_handler where
  "op_swap st =
     (case stack st of
        x2 # x1 # r \<Rightarrow> Inr (st\<lparr>stack := x1 # x2 # r\<rparr>)
      | _ \<Rightarrow> set_error SCRIPT_ERR_INVALID_STACK_OPERATION)"

definition op_tuck :: op_handler where
  "op_tuck st =
     (case stack st of
        x2 # x1 # r \<Rightarrow> Inr (st\<lparr>stack := x2 # x1 # x2 # r\<rparr>)
      | _ \<Rightarrow> set_error SCRIPT_ERR_INVALID_STACK_OPERATION)"

definition op_size :: op_handler where
  "op_size st =
     (case stack st of
        x # r \<Rightarrow> Inr (st\<lparr>stack := serialize (int (length x)) # x # r\<rparr>)
      | _ \<Rightarrow> set_error SCRIPT_ERR_INVALID_STACK_OPERATION)"

section \<open>Comparison and arithmetic\<close>

definition op_equal :: "opcodetype \<Rightarrow> op_handler" where
  "op_equal opcode st =
     (case stack st of
        vch2 # vch1 # r \<Rightarrow>
          let fEqual = (vch1 = vch2)
          in if opcode = OP_EQUALVERIFY
             then (if fEqual then Inr (st\<lparr>stack := r\<rparr>) else set_error SCRIPT_ERR_EQUALVERIFY)
             else Inr (st\<lparr>stack := bool_vch fEqual # r\<rparr>)
      | _ \<Rightarrow> set_error SCRIPT_ERR_INVALID_STACK_OPERATION)"

definition unary_num :: "opcodetype \<Rightarrow> int \<Rightarrow> int option" where
  "unary_num opcode bn =
     (if opcode = OP_1ADD then scriptnum_add_assign bn 1
      else if opcode = OP_1SUB then scriptnum_sub_assign bn 1
      else if opcode = OP_NEGATE then scriptnum_neg bn
      else if opcode = OP_ABS then (if bn < 0 then scriptnum_neg bn else Some bn)
      else if opcode = OP_NOT then Some (if bn = 0 then 1 else 0)
      else if opcode = OP_0NOTEQUAL then Some (if bn \<noteq> 0 then 1 else 0)
      else None)"

definition op_unary :: "eval_env \<Rightarrow> opcodetype \<Rightarrow> op_handler" where
  "op_unary env opcode st =
     (case stack st of
        x # r \<Rightarrow>
          and_then (num_arg env nDefaultMaxNumSize x) (\<lambda>bn.
          and_then (assert_some (unary_num opcode bn)) (\<lambda>bn.
            Inr (st\<lparr>stack := serialize bn # r\<rparr>)))
      | _ \<Rightarrow> set_error SCRIPT_ERR_INVALID_STACK_OPERATION)"

definition binary_num :: "opcodetype \<Rightarrow> int \<Rightarrow> int \<Rightarrow> int option" where
  "binary_num opcode bn1 bn2 =
     (let of_b = (\<lambda>b. Some (if b then 1 else 0))
      in if opcode = OP_ADD then Some (scriptnum_add bn1 bn2)
      else if opcode = OP_SUB then Some (scriptnum_sub bn1 bn2)
      else if opcode = OP_BOOLAND then of_b (bn1 \<noteq> 0 \<and> bn2 \<noteq> 0)
      else if opcode = OP_BOOLOR then of_b (bn1 \<noteq> 0 \<or> bn2 \<noteq> 0)
      else if opcode = OP_NUMEQUAL then of_b (bn1 = bn2)
      else if opcode = OP_NUMEQUALVERIFY then of_b (bn1 = bn2)
      else if opcode = OP_NUMNOTEQUAL then of_b (bn1 \<noteq> bn2)
      else if opcode = OP_LESSTHAN then of_b (bn1 < bn2)
      else if opcode = OP_GREATERTHAN then of_b (bn1 > bn2)
      else if opcode = OP_LESSTHANOREQUAL then of_b (bn1 \<le> bn2)
      else if opcode = OP_GREATERTHANOREQUAL then of_b (bn1 \<ge> bn2)
      else if opcode = OP_MIN then Some (if bn1 < bn2 then bn1 else bn2)
      else if opcode = OP_MAX then Some (if bn1 > bn2 then bn1 else bn2)
      else None)"

definition op_binary :: "eval_env \<Rightarrow> opcodetype \<Rightarrow> op_handler" where
  "op_binary env opcode st =
     (case stack st of
        x2 # x1 # r \<Rightarrow>
          and_then (num_arg env nDefaultMaxNumSize x1) (\<lambda>bn1.
          and_then (num_arg env nDefaultMaxNumSize x2) (\<lambda>bn2.
          and_then (assert_some (binary_num opcode bn1 bn2)) (\<lambda>bn.
            if opcode = OP_NUMEQUALVERIFY
            then (if CastToBool (serialize bn) then Inr (st\<lparr>stack := r\<rparr>)
                  else set_error SCRIPT_ERR_NUMEQUALVERIFY)
            else Inr (st\<lparr>stack := serialize bn # r\<rparr>))))
      | _ \<Rightarrow> set_error SCRIPT_ERR_INVALID_STACK_OPERATION)"

definition op_within :: "eval_env \<Rightarrow> op_handler" where
  "op_within env st =
     (case stack st of
        x3 # x2 # x1 # r \<Rightarrow>
          and_then (num_arg env nDefaultMaxNumSize x1) (\<lambda>bn1.
          and_then (num_arg env nDefaultMaxNumSize x2) (\<lambda>bn2.
          and_then (num_arg env nDefaultMaxNumSize x3) (\<lambda>bn3.
            Inr (st\<lparr>stack := bool_vch (bn2 \<le> bn1 \<and> bn1 < bn3) # r\<rparr>))))
      | _ \<Rightarrow> set_error SCRIPT_ERR_INVALID_STACK_OPERATION)"

section \<open>Crypto\<close>

definition hash_of_op :: "opcodetype \<Rightarrow> bytes \<Rightarrow> bytes" where
  "hash_of_op opcode vch =
     (let buf = replicate 64 0
      in if opcode = OP_RIPEMD160 then snd (CRIPEMD160_Finalize (CRIPEMD160_Write vch (CRIPEMD160 buf)))
      else if opcode = OP_SHA1 then snd (CSHA1_Finalize (CSHA1_Write vch (CSHA1 buf)))
      else if opcode = OP_SHA256 then snd (CSHA256_Finalize (CSHA256_Write vch (CSHA256 buf)))
      else if opcode = OP_HASH160 then CHash160_Finalize buf (CSHA256_Write vch (CSHA256 buf))
      else CHash256_Finalize (CHash256_Write vch (CSHA256 buf)))"

definition op_hash :: "opcodetype \<Rightarrow> op_handler" where
  "op_hash opcode st =
     (case stack st of
        vch # r \<Rightarrow> Inr (st\<lparr>stack := hash_of_op opcode vch # r\<rparr>)
      | _ \<Rightarrow> set_error SCRIPT_ERR_INVALID_STACK_OPERATION)"

definition op_codeseparator :: "bytes \<Rightarrow> op_handler" where
  "op_codeseparator pc st = Inr (st\<lparr>pbegincodehash := pc\<rparr>)"

text \<open>The two encoding checks that precede every signature check.\<close>

definition check_encodings :: "eval_env \<Rightarrow> bytes \<Rightarrow> bytes \<Rightarrow> eval_fail + unit" where
  "check_encodings env vchSig vchPubKey =
     (case CheckSignatureEncoding (CheckLowS env) vchSig (env_flags env) of
        Some e \<Rightarrow> set_error e
      | None \<Rightarrow>
          (case CheckPubKeyEncoding vchPubKey (env_flags env) (sigversion env) of
             Some e \<Rightarrow> set_error e
           | None \<Rightarrow> Inr ()))"

text \<open>Signatures are dropped from the script code of pre-segwit scripts.\<close>

definition drop_signature :: "eval_env \<Rightarrow> bytes \<Rightarrow> bytes \<Rightarrow> bytes" where
  "drop_signature env vchSig scriptCode =
     (if sigversion env = SIGVERSION_BASE then fst (FindAndDelete scriptCode (push_vector [] vchSig))
      else scriptCode)"

definition op_checksig :: "eval_env \<Rightarrow> opcodetype \<Rightarrow> op_handler" where
  "op_checksig env opcode st =
     (case stack st of
        vchPubKey # vchSig # r \<Rightarrow>
          let scriptCode = drop_signature env vchSig (pbegincodehash st)
          in and_then (check_encodings env vchSig vchPubKey) (\<lambda>_.
             and_then (assert_some (CheckSig (chk env) vchSig vchPubKey scriptCode (sigversion env))) (\<lambda>fSuccess.
               if \<not> fSuccess \<and> flag (env_flags env) SCRIPT_VERIFY_NULLFAIL \<and> length vchSig \<noteq> 0
               then set_error SCRIPT_ERR_SIG_NULLFAIL
               else if opcode = OP_CHECKSIGVERIFY
               then (if fSuccess then Inr (st\<lparr>stack := r\<rparr>) else set_error SCRIPT_ERR_CHECKSIGVERIFY)
               else Inr (st\<lparr>stack := bool_vch fSuccess # r\<rparr>)))
      | _ \<Rightarrow> set_error SCRIPT_ERR_INVALID_STACK_OPERATION)"

text \<open>The matching loop of \<^verbatim>\<open>OP_CHECKMULTISIG\<close>, with the counters of the code.\<close>

function multisig_loop :: "eval_env \<Rightarrow> bytes list \<Rightarrow> bytes \<Rightarrow> nat \<Rightarrow> nat \<Rightarrow> int \<Rightarrow> int \<Rightarrow> eval_fail + bool" where
  "multisig_loop env stk scriptCode isig ikey nSigsCount nKeysCount =
     (if nSigsCount \<le> 0 then Inr True
      else let vchSig = stk ! (isig - 1); vchPubKey = stk ! (ikey - 1)
      in case check_encodings env vchSig vchPubKey of
           Inl e \<Rightarrow> Inl e
         | Inr _ \<Rightarrow>
             (case CheckSig (chk env) vchSig vchPubKey scriptCode (sigversion env) of
                None \<Rightarrow> Inl Abort
              | Some fOk \<Rightarrow>
                  let isig = (if fOk then isig + 1 else isig);
                      nSigsCount = (if fOk then nSigsCount - 1 else nSigsCount);
                      ikey = ikey + 1;
                      nKeysCount = nKeysCount - 1
                  in if nSigsCount > nKeysCount then Inr False
                     else multisig_loop env stk scriptCode isig ikey nSigsCount nKeysCount))"
  by pat_completeness auto
termination
  by (relation "measure (\<lambda>(env, stk, scriptCode, isig, ikey, nSigsCount, nKeysCount).
        if nSigsCount \<le> 0 then 0 else Suc (nat nKeysCount))") (auto split: if_splits)

declare multisig_loop.simps [simp del]

text \<open>The clean-up loop \<^verbatim>\<open>while (i-- > 1)\<close>; an empty stack throws in \<^verbatim>\<open>popstack\<close>.\<close>

fun multisig_cleanup :: "script_flags \<Rightarrow> bool \<Rightarrow> nat \<Rightarrow> nat \<Rightarrow> bytes list \<Rightarrow> eval_fail + bytes list" where
  "multisig_cleanup flags fSuccess i ikey2 stk =
     (if i \<le> 1 then Inr stk
      else case stk of
        [] \<Rightarrow> set_error SCRIPT_ERR_UNKNOWN_ERROR
      | x # rest \<Rightarrow>
          if \<not> fSuccess \<and> flag flags SCRIPT_VERIFY_NULLFAIL \<and> ikey2 = 0 \<and> length x \<noteq> 0
          then set_error SCRIPT_ERR_SIG_NULLFAIL
          else multisig_cleanup flags fSuccess (i - 1) (if ikey2 > 0 then ikey2 - 1 else ikey2) rest)"

declare multisig_cleanup.simps [simp del]

definition op_checkmultisig :: "eval_env \<Rightarrow> opcodetype \<Rightarrow> op_handler" where
  "op_checkmultisig env opcode st =
     (let stk = stack st; i = 1
      in if length stk < i then set_error SCRIPT_ERR_INVALID_STACK_OPERATION
      else and_then (num_arg env nDefaultMaxNumSize (stk ! (i - 1))) (\<lambda>bn.
        let nKeysCount = getint bn
        in if nKeysCount < 0 \<or> nKeysCount > int MAX_PUBKEYS_PER_MULTISIG then set_error SCRIPT_ERR_PUBKEY_COUNT
        else let st = st\<lparr>nOpCount := nOpCount st + nat nKeysCount\<rparr>
        in if nOpCount st > MAX_OPS_PER_SCRIPT then set_error SCRIPT_ERR_OP_COUNT
        else let i = i + 1; ikey = i; ikey2 = nat nKeysCount + 2; i = i + nat nKeysCount
        in if length stk < i then set_error SCRIPT_ERR_INVALID_STACK_OPERATION
        else and_then (num_arg env nDefaultMaxNumSize (stk ! (i - 1))) (\<lambda>bn.
          let nSigsCount = getint bn
          in if nSigsCount < 0 \<or> nSigsCount > nKeysCount then set_error SCRIPT_ERR_SIG_COUNT
          else let i = i + 1; isig = i; i = i + nat nSigsCount
          in if length stk < i then set_error SCRIPT_ERR_INVALID_STACK_OPERATION
          else let scriptCode = foldl (\<lambda>code k. drop_signature env (stk ! (isig + k - 1)) code)
                                  (pbegincodehash st) [0..<nat nSigsCount]
          in and_then (multisig_loop env stk scriptCode isig ikey nSigsCount nKeysCount) (\<lambda>fSuccess.
             and_then (multisig_cleanup (env_flags env) fSuccess i ikey2 stk) (\<lambda>stk.
               case stk of
                 [] \<Rightarrow> set_error SCRIPT_ERR_INVALID_STACK_OPERATION
               | dummy # r \<Rightarrow>
                   if flag (env_flags env) SCRIPT_VERIFY_NULLDUMMY \<and> length dummy \<noteq> 0
                   then set_error SCRIPT_ERR_SIG_NULLDUMMY
                   else if opcode = OP_CHECKMULTISIGVERIFY
                   then (if fSuccess then Inr (st\<lparr>stack := r\<rparr>)
                         else set_error SCRIPT_ERR_CHECKMULTISIGVERIFY)
                   else Inr (st\<lparr>stack := bool_vch fSuccess # r\<rparr>))))))"

section \<open>The switch and the evaluation loop\<close>

definition disabled_opcode :: "opcodetype \<Rightarrow> bool" where
  "disabled_opcode opcode \<longleftrightarrow>
     opcode = OP_CAT \<or> opcode = OP_SUBSTR \<or> opcode = OP_LEFT \<or> opcode = OP_RIGHT \<or>
     opcode = OP_INVERT \<or> opcode = OP_AND \<or> opcode = OP_OR \<or> opcode = OP_XOR \<or>
     opcode = OP_2MUL \<or> opcode = OP_2DIV \<or> opcode = OP_MUL \<or> opcode = OP_DIV \<or>
     opcode = OP_MOD \<or> opcode = OP_LSHIFT \<or> opcode = OP_RSHIFT"

definition eval_switch :: "eval_env \<Rightarrow> opcodetype \<Rightarrow> bool \<Rightarrow> bytes \<Rightarrow> op_handler" where
  "eval_switch env opcode fExec pc st =
     (if opcode = OP_1NEGATE \<or> (OP_1 \<le> opcode \<and> opcode \<le> OP_16) then op_number opcode st
      else if opcode = OP_NOP then Inr st
      else if opcode = OP_CHECKLOCKTIMEVERIFY then op_checklocktimeverify env st
      else if opcode = OP_CHECKSEQUENCEVERIFY then op_checksequenceverify env st
      else if opcode = OP_NOP1 \<or> (OP_NOP4 \<le> opcode \<and> opcode \<le> OP_NOP10) then op_upgradable_nop env st
      else if opcode = OP_IF \<or> opcode = OP_NOTIF then op_if env opcode fExec st
      else if opcode = OP_ELSE then op_else st
      else if opcode = OP_ENDIF then op_endif st
      else if opcode = OP_VERIFY then op_verify st
      else if opcode = OP_RETURN then op_return st
      else if opcode = OP_TOALTSTACK then op_toaltstack st
      else if opcode = OP_FROMALTSTACK then op_fromaltstack st
      else if opcode = OP_2DROP then op_2drop st
      else if opcode = OP_2DUP then op_2dup st
      else if opcode = OP_3DUP then op_3dup st
      else if opcode = OP_2OVER then op_2over st
      else if opcode = OP_2ROT then op_2rot st
      else if opcode = OP_2SWAP then op_2swap st
      else if opcode = OP_IFDUP then op_ifdup st
      else if opcode = OP_DEPTH then op_depth st
      else if opcode = OP_DROP then op_drop st
      else if opcode = OP_DUP then op_dup st
      else if opcode = OP_NIP then op_nip st
      else if opcode = OP_OVER then op_over st
      else if opcode = OP_PICK \<or> opcode = OP_ROLL then op_pick_roll env opcode st
      else if opcode = OP_ROT then op_rot st
      else if opcode = OP_SWAP then op_swap st
      else if opcode = OP_TUCK then op_tuck st
      else if opcode = OP_SIZE then op_size st
      else if opcode = OP_EQUAL \<or> opcode = OP_EQUALVERIFY then op_equal opcode st
      else if opcode = OP_1ADD \<or> opcode = OP_1SUB \<or> opcode = OP_NEGATE \<or> opcode = OP_ABS
           \<or> opcode = OP_NOT \<or> opcode = OP_0NOTEQUAL then op_unary env opcode st
      else if opcode = OP_ADD \<or> opcode = OP_SUB \<or> (OP_BOOLAND \<le> opcode \<and> opcode \<le> OP_MAX)
        then op_binary env opcode st
      else if opcode = OP_WITHIN then op_within env st
      else if OP_RIPEMD160 \<le> opcode \<and> opcode \<le> OP_HASH256 then op_hash opcode st
      else if opcode = OP_CODESEPARATOR then op_codeseparator pc st
      else if opcode = OP_CHECKSIG \<or> opcode = OP_CHECKSIGVERIFY then op_checksig env opcode st
      else if opcode = OP_CHECKMULTISIG \<or> opcode = OP_CHECKMULTISIGVERIFY then op_checkmultisig env opcode st
      else set_error SCRIPT_ERR_BAD_OPCODE)"

text \<open>One iteration of the loop: the remaining script and state, or the error.\<close>

definition eval_step :: "eval_env \<Rightarrow> bytes \<Rightarrow> eval_state \<Rightarrow> eval_fail + (bytes \<times> eval_state)" where
  "eval_step env pc st =
     (let fExec = list_all (\<lambda>b. b) (vfExec st)
      in case GetOp pc of
        None \<Rightarrow> set_error SCRIPT_ERR_BAD_OPCODE
      | Some (pc', opcode, vchPushValue) \<Rightarrow>
          if length vchPushValue > MAX_SCRIPT_ELEMENT_SIZE then set_error SCRIPT_ERR_PUSH_SIZE
          else let st = (if opcode > OP_16 then st\<lparr>nOpCount := nOpCount st + 1\<rparr> else st)
          in if opcode > OP_16 \<and> nOpCount st > MAX_OPS_PER_SCRIPT then set_error SCRIPT_ERR_OP_COUNT
          else if disabled_opcode opcode then set_error SCRIPT_ERR_DISABLED_OPCODE
          else and_then (if fExec \<and> opcode \<le> OP_PUSHDATA4 then
                      (if fRequireMinimal env \<and> \<not> CheckMinimalPush vchPushValue opcode
                       then set_error SCRIPT_ERR_MINIMALDATA
                       else Inr (st\<lparr>stack := vchPushValue # stack st\<rparr>))
                    else if fExec \<or> (OP_IF \<le> opcode \<and> opcode \<le> OP_ENDIF)
                      then eval_switch env opcode fExec pc' st
                    else Inr st)
            (\<lambda>st. if length (stack st) + length (altstack st) > MAX_STACK_SIZE
                  then set_error SCRIPT_ERR_STACK_SIZE
                  else Inr (pc', st)))"

lemma and_then_Inr_iff [simp]: "and_then r f = Inr y \<longleftrightarrow> (\<exists>x. r = Inr x \<and> f x = Inr y)"
  by (cases r) (simp_all add: and_then_def)

lemma eval_step_shorter [termination_simp]:
  "eval_step env pc st = Inr (pc', st') \<Longrightarrow> length pc' < length pc"
  by (auto simp: eval_step_def Let_def dest: GetOp_shorter split: option.splits if_splits)

function eval_loop :: "eval_env \<Rightarrow> bytes \<Rightarrow> eval_state \<Rightarrow> eval_fail + eval_state" where
  "eval_loop env pc st =
     (if pc = [] then Inr st
      else case eval_step env pc st of
        Inl e \<Rightarrow> Inl e
      | Inr (pc', st') \<Rightarrow> eval_loop env pc' st')"
  by pat_completeness auto
termination
  by (relation "measure (\<lambda>(env, pc, st). length pc)") (auto dest: eval_step_shorter)

declare eval_loop.simps [simp del]

definition EvalScript :: "eval_env \<Rightarrow> bytes list \<Rightarrow> bytes \<Rightarrow> eval_fail + bytes list" where
  "EvalScript env stk script =
     (if length script > MAX_SCRIPT_SIZE then set_error SCRIPT_ERR_SCRIPT_SIZE
      else and_then (eval_loop env script
                  \<lparr>stack = stk, altstack = [], vfExec = [], nOpCount = 0, pbegincodehash = script\<rparr>)
             (\<lambda>st. if vfExec st \<noteq> [] then set_error SCRIPT_ERR_UNBALANCED_CONDITIONAL
                   else Inr (stack st)))"

section \<open>Witness programs and VerifyScript\<close>

text \<open>A witness stack is listed in the order of the vector, its back last.\<close>

definition p2wpkh_script :: "bytes \<Rightarrow> bytes" where
  "p2wpkh_script program =
     push_vector [of_nat OP_DUP, of_nat OP_HASH160] program @ [of_nat OP_EQUALVERIFY, of_nat OP_CHECKSIG]"

definition exec_witness :: "eval_env \<Rightarrow> bytes list \<Rightarrow> bytes \<Rightarrow> eval_fail + unit" where
  "exec_witness env stk scriptPubKey =
     (if list_ex (\<lambda>x. length x > MAX_SCRIPT_ELEMENT_SIZE) stk then set_error SCRIPT_ERR_PUSH_SIZE
      else and_then (EvalScript (env\<lparr>sigversion := SIGVERSION_WITNESS_V0\<rparr>) (rev stk) scriptPubKey) (\<lambda>stk.
        if length stk \<noteq> 1 then set_error SCRIPT_ERR_EVAL_FALSE
        else if \<not> CastToBool (hd stk) then set_error SCRIPT_ERR_EVAL_FALSE
        else Inr ()))"

definition VerifyWitnessProgram :: "eval_env \<Rightarrow> bytes list \<Rightarrow> nat \<Rightarrow> bytes \<Rightarrow> eval_fail + unit" where
  "VerifyWitnessProgram env witness witversion program =
     (if witversion = 0 then
        (if length program = 32 then
           (if length witness = 0 then set_error SCRIPT_ERR_WITNESS_PROGRAM_WITNESS_EMPTY
            else let scriptPubKey = last witness;
                     hashScriptPubKey = snd (CSHA256_Finalize (CSHA256_Write scriptPubKey (CSHA256 (replicate 64 0))))
              in if hashScriptPubKey \<noteq> program then set_error SCRIPT_ERR_WITNESS_PROGRAM_MISMATCH
                 else exec_witness env (butlast witness) scriptPubKey)
         else if length program = 20 then
           (if length witness \<noteq> 2 then set_error SCRIPT_ERR_WITNESS_PROGRAM_MISMATCH
            else exec_witness env witness (p2wpkh_script program))
         else set_error SCRIPT_ERR_WITNESS_PROGRAM_WRONG_LENGTH)
      else if flag (env_flags env) SCRIPT_VERIFY_DISCOURAGE_UPGRADABLE_WITNESS_PROGRAM
        then set_error SCRIPT_ERR_DISCOURAGE_UPGRADABLE_WITNESS_PROGRAM
      else Inr ())"

text \<open>The P2SH part: the stack after it, and whether a witness program was seen.  An empty
  stack violates the assertion.\<close>

definition verify_p2sh :: "eval_env \<Rightarrow> bytes \<Rightarrow> bytes list \<Rightarrow> bytes list \<Rightarrow> bool \<Rightarrow> eval_fail + (bytes list \<times> bool)" where
  "verify_p2sh env scriptSig witness stackCopy hadWitness =
     (if \<not> IsPushOnly scriptSig then set_error SCRIPT_ERR_SIG_PUSHONLY
      else case stackCopy of
        [] \<Rightarrow> Inl Abort
      | pubKey2 # stk \<Rightarrow>
          and_then (EvalScript (env\<lparr>sigversion := SIGVERSION_BASE\<rparr>) stk pubKey2) (\<lambda>stk.
            if stk = [] then set_error SCRIPT_ERR_EVAL_FALSE
            else if \<not> CastToBool (hd stk) then set_error SCRIPT_ERR_EVAL_FALSE
            else if flag (env_flags env) SCRIPT_VERIFY_WITNESS then
              (case IsWitnessProgram pubKey2 of
                 None \<Rightarrow> Inr (stk, hadWitness)
               | Some (witnessversion, witnessprogram) \<Rightarrow>
                   if scriptSig \<noteq> push_vector [] pubKey2 then set_error SCRIPT_ERR_WITNESS_MALLEATED_P2SH
                   else and_then (VerifyWitnessProgram env witness witnessversion witnessprogram) (\<lambda>_.
                     Inr ([last stk], True)))
            else Inr (stk, hadWitness)))"

definition verify_bare_witness :: "eval_env \<Rightarrow> bytes \<Rightarrow> bytes \<Rightarrow> bytes list \<Rightarrow> bytes list \<Rightarrow> eval_fail + (bytes list \<times> bool)" where
  "verify_bare_witness env scriptSig scriptPubKey witness stk =
     (if flag (env_flags env) SCRIPT_VERIFY_WITNESS then
        (case IsWitnessProgram scriptPubKey of
           None \<Rightarrow> Inr (stk, False)
         | Some (witnessversion, witnessprogram) \<Rightarrow>
             if length scriptSig \<noteq> 0 then set_error SCRIPT_ERR_WITNESS_MALLEATED
             else and_then (VerifyWitnessProgram env witness witnessversion witnessprogram) (\<lambda>_.
               Inr ([last stk], True)))
      else Inr (stk, False))"

definition VerifyScript :: "eval_env \<Rightarrow> bytes \<Rightarrow> bytes \<Rightarrow> bytes list \<Rightarrow> eval_fail + unit" where
  "VerifyScript env scriptSig scriptPubKey witness =
     (let flags = env_flags env; base = env\<lparr>sigversion := SIGVERSION_BASE\<rparr>
      in if flag flags SCRIPT_VERIFY_SIGPUSHONLY \<and> \<not> IsPushOnly scriptSig
         then set_error SCRIPT_ERR_SIG_PUSHONLY
      else and_then (EvalScript base [] scriptSig) (\<lambda>stackCopy.
        and_then (EvalScript base stackCopy scriptPubKey) (\<lambda>stk.
        if stk = [] then set_error SCRIPT_ERR_EVAL_FALSE
        else if CastToBool (hd stk) = False then set_error SCRIPT_ERR_EVAL_FALSE
        else and_then (verify_bare_witness env scriptSig scriptPubKey witness stk) (\<lambda>(stk, hadWitness).
        and_then (if flag flags SCRIPT_VERIFY_P2SH \<and> IsPayToScriptHash scriptPubKey
             then verify_p2sh env scriptSig witness stackCopy hadWitness
             else Inr (stk, hadWitness)) (\<lambda>(stk, hadWitness).
        and_then (if flag flags SCRIPT_VERIFY_CLEANSTACK then
               (if \<not> flag flags SCRIPT_VERIFY_P2SH then Inl Abort
                else if \<not> flag flags SCRIPT_VERIFY_WITNESS then Inl Abort
                else if length stk \<noteq> 1 then set_error SCRIPT_ERR_CLEANSTACK
                else Inr ())
             else Inr ()) (\<lambda>_.
        if flag flags SCRIPT_VERIFY_WITNESS then
          (if \<not> flag flags SCRIPT_VERIFY_P2SH then Inl Abort
           else if \<not> hadWitness \<and> witness \<noteq> [] then set_error SCRIPT_ERR_WITNESS_UNEXPECTED
           else Inr ())
        else Inr ()))))))"

text \<open>The push-only script is read to its end, so \<^const>\<open>last_push\<close> gives the data of its last push.\<close>

definition WitnessSigOps :: "nat \<Rightarrow> bytes \<Rightarrow> bytes list \<Rightarrow> nat" where
  "WitnessSigOps witversion witprogram witness =
     (if witversion = 0 then
        (if length witprogram = 20 then 1
         else if length witprogram = 32 \<and> length witness > 0 then GetSigOpCount True (last witness)
         else 0)
      else 0)"

definition CountWitnessSigOps :: "bytes \<Rightarrow> bytes \<Rightarrow> bytes list \<Rightarrow> script_flags \<Rightarrow> nat option" where
  "CountWitnessSigOps scriptSig scriptPubKey witness flags =
     (if \<not> flag flags SCRIPT_VERIFY_WITNESS then Some 0
      else if \<not> flag flags SCRIPT_VERIFY_P2SH then None
      else case IsWitnessProgram scriptPubKey of
        Some (witnessversion, witnessprogram) \<Rightarrow> Some (WitnessSigOps witnessversion witnessprogram witness)
      | None \<Rightarrow>
          if IsPayToScriptHash scriptPubKey \<and> IsPushOnly scriptSig then
            (case last_push scriptSig [] of
               None \<Rightarrow> Some 0
             | Some subscript \<Rightarrow>
                 (case IsWitnessProgram subscript of
                    Some (witnessversion, witnessprogram) \<Rightarrow>
                      Some (WitnessSigOps witnessversion witnessprogram witness)
                  | None \<Rightarrow> Some 0))
          else Some 0)"

end
