(* ===== verification/ScriptLimits.thy ===== *)
theory ScriptLimits
  imports Interpreter
begin

text \<open>
  Resource limits of the script interpreter and absence of assertion failures.  Every opcode
  handler keeps the limits on element sizes and operation counts; the evaluation loop adds the
  limit on the stack; \<^verbatim>\<open>VerifyScript\<close> never reaches one of its assertions when its flags are
  combined as its comments require.
\<close>

unbundle bit_operations_syntax

section \<open>Limits kept by every opcode\<close>

definition small :: "bytes \<Rightarrow> bool" where
  "small x \<longleftrightarrow> length x \<le> MAX_SCRIPT_ELEMENT_SIZE"

definition limits :: "eval_state \<Rightarrow> bool" where
  "limits st \<longleftrightarrow> list_all small (stack st) \<and> list_all small (altstack st) \<and> nOpCount st \<le> MAX_OPS_PER_SCRIPT"

definition safe :: "('a \<Rightarrow> bool) \<Rightarrow> eval_fail + 'a \<Rightarrow> bool" where
  "safe P r \<longleftrightarrow> (case r of Inl e \<Rightarrow> e \<noteq> Abort | Inr x \<Rightarrow> P x)"

named_theorems safe_ops

lemma safe_simps [simp]: "safe P (Inl e) \<longleftrightarrow> e \<noteq> Abort" "safe P (Inr x) \<longleftrightarrow> P x"
  by (simp_all add: safe_def)

lemma safe_and_then: "safe Q r \<Longrightarrow> (\<And>x. r = Inr x \<Longrightarrow> Q x \<Longrightarrow> safe P (f x)) \<Longrightarrow> safe P (and_then r f)"
  by (cases r) (simp_all add: and_then_def)

lemma safe_if: "(c \<Longrightarrow> safe P a) \<Longrightarrow> (\<not> c \<Longrightarrow> safe P b) \<Longrightarrow> safe P (if c then a else b)"
  by simp

lemma safe_mono: "safe P r \<Longrightarrow> (\<And>x. P x \<Longrightarrow> Q x) \<Longrightarrow> safe Q r"
  by (cases r) simp_all

text \<open>The checker never fails its assertion.\<close>

definition total_checker :: "checker \<Rightarrow> bool" where
  "total_checker c \<longleftrightarrow> (\<forall>sig key code v. CheckSig c sig key code v \<noteq> None)"

lemma num_arg_safe: "safe (\<lambda>n. \<bar>n\<bar> < 2 ^ 31) (num_arg env 4 vch)"
proof (cases "CScriptNum vch (fRequireMinimal env) 4")
  case (Inr n)
  then have "length vch \<le> Suc 3" "n = set_vch vch" by (auto simp: CScriptNum_def split: if_splits)
  then show ?thesis using set_vch_bound [of vch 3] Inr by (simp add: num_arg_def)
qed (simp add: num_arg_def)

lemma num_arg_noabort: "safe (\<lambda>n. True) (num_arg env k vch)"
  by (simp add: num_arg_def split: sum.split)

lemma small_serialize: "\<bar>n\<bar> < 2 ^ 39 \<Longrightarrow> small (serialize n)"
  using length_serialize_le [of n 4] by (simp add: small_def)

lemma small_bool_vch [simp]: "small (bool_vch b)"
  by (simp add: small_def bool_vch_def)

text \<open>The hash opcodes compute the specified digests.\<close>

lemma hash_of_op_spec:
  "hash_of_op opcode vch =
     (if opcode = OP_RIPEMD160 then ripemd160_digest vch
      else if opcode = OP_SHA1 then sha1_digest vch
      else if opcode = OP_SHA256 then sha256_digest vch
      else if opcode = OP_HASH160 then ripemd160_digest (sha256_digest vch)
      else sha256_digest (sha256_digest vch))"
proof -
  have "snd (CSHA1_Finalize (CSHA1_Write vch (CSHA1 (replicate 64 0)))) = sha1_digest vch"
    using sha1_stream [of "replicate 64 0" "[vch]"] by simp
  moreover have "CHash160_Finalize (replicate 64 0) (CSHA256_Write vch (CSHA256 (replicate 64 0))) = Hash160 vch"
    by (simp add: Hash160_def)
  moreover have "CHash256_Finalize (CHash256_Write vch (CSHA256 (replicate 64 0))) = Hash [vch]"
    by (simp add: Hash_def)
  ultimately show ?thesis
    by (simp add: hash_of_op_def Let_def ripemd160_oneshot sha256_oneshot Hash160_spec Hash_spec)
qed

lemma length_hash_of_op: "length (hash_of_op opcode vch) \<le> 32"
  by (simp add: hash_of_op_spec)

lemma wrap64_small: "\<bar>n\<bar> < 2 ^ 39 \<Longrightarrow> wrap64 n = n"
  by (rule wrap64_id) (auto simp: int64_range_def)

lemma unary_num_bound:
  assumes "\<bar>n\<bar> < 2 ^ 31" "opcode \<in> {OP_1ADD, OP_1SUB, OP_NEGATE, OP_ABS, OP_NOT, OP_0NOTEQUAL}"
  obtains m where "unary_num opcode n = Some m" "\<bar>m\<bar> < 2 ^ 39"
proof -
  have w: "wrap64 (n + 1) = n + 1" "wrap64 (n - 1) = n - 1" "wrap64 (- n) = - n"
    by (rule wrap64_small, use assms(1) in simp)+
  have f: "scriptnum_add_assign n 1 = Some (n + 1)" "scriptnum_sub_assign n 1 = Some (n - 1)" "scriptnum_neg n = Some (- n)"
    using assms(1) by (simp_all add: scriptnum_add_assign_def scriptnum_sub_assign_def scriptnum_neg_def w)
  have "unary_num opcode n \<in> Some ` {n + 1, n - 1, - n, n, 0, 1}"
    using assms(2) by (auto simp: unary_num_def f)
  then obtain m where m: "unary_num opcode n = Some m" "m \<in> {n + 1, n - 1, - n, n, 0, 1}" by blast
  from m(2) have "\<bar>m\<bar> < 2 ^ 39" using assms(1) by (elim insertE emptyE) simp_all
  with m(1) show ?thesis by (rule that)
qed

lemma binary_num_bound:
  assumes "\<bar>a\<bar> < 2 ^ 31" "\<bar>b\<bar> < 2 ^ 31" "opcode = OP_ADD \<or> opcode = OP_SUB \<or> (OP_BOOLAND \<le> opcode \<and> opcode \<le> OP_MAX)"
  obtains m where "binary_num opcode a b = Some m" "\<bar>m\<bar> < 2 ^ 39"
proof -
  have f: "scriptnum_add a b = a + b" "scriptnum_sub a b = a - b"
    unfolding scriptnum_add_def scriptnum_sub_def by (rule wrap64_small, use assms(1,2) in simp)+
  have "opcode \<in> {0x93, 0x94, 0x9a, 0x9b, 0x9c, 0x9d, 0x9e, 0x9f, 0xa0, 0xa1, 0xa2, 0xa3, 0xa4}"
    using assms(3) by auto presburger
  then have "binary_num opcode a b \<in> Some ` {a + b, a - b, a, b, 0, 1}"
    unfolding binary_num_def Let_def f by (elim insertE emptyE) auto
  then obtain m where m: "binary_num opcode a b = Some m" "m \<in> {a + b, a - b, a, b, 0, 1}" by blast
  from m(2) have "\<bar>m\<bar> < 2 ^ 39" using assms(1,2) by (elim insertE emptyE) simp_all
  with m(1) show ?thesis by (rule that)
qed

lemma safe_stack_ops [safe_ops]:
  assumes "limits st"
  shows "safe limits (op_else st)" "safe limits (op_endif st)" "safe limits (op_verify st)" "safe limits (op_return st)"
    "safe limits (op_toaltstack st)" "safe limits (op_fromaltstack st)" "safe limits (op_2drop st)" "safe limits (op_2dup st)"
    "safe limits (op_3dup st)" "safe limits (op_2over st)" "safe limits (op_2rot st)" "safe limits (op_2swap st)"
    "safe limits (op_ifdup st)" "safe limits (op_drop st)" "safe limits (op_dup st)" "safe limits (op_nip st)"
    "safe limits (op_over st)" "safe limits (op_rot st)" "safe limits (op_swap st)" "safe limits (op_tuck st)"
    "safe limits (op_equal opcode st)" "safe limits (op_codeseparator pc st)" "safe limits (op_upgradable_nop env st)"
    "safe limits (op_if env opcode fExec st)"
  using assms
  by (auto simp: limits_def op_else_def op_endif_def op_verify_def op_return_def op_toaltstack_def op_fromaltstack_def
      op_2drop_def op_2dup_def op_3dup_def op_2over_def op_2rot_def op_2swap_def op_ifdup_def op_drop_def op_dup_def
      op_nip_def op_over_def op_rot_def op_swap_def op_tuck_def op_equal_def op_codeseparator_def op_upgradable_nop_def
      op_if_def Let_def split: list.split)

lemma safe_number_ops [safe_ops]:
  assumes "limits st"
  shows "opcode = OP_1NEGATE \<or> (OP_1 \<le> opcode \<and> opcode \<le> OP_16) \<Longrightarrow> safe limits (op_number opcode st)"
    and "safe limits (op_hash opcode st)"
    and "length (stack st) < 2 ^ 39 \<Longrightarrow> safe limits (op_depth st)"
    and "safe limits (op_size st)"
  using assms length_hash_of_op [of opcode]
  by (auto simp: op_number_def op_hash_def op_depth_def op_size_def limits_def small_def [of "hash_of_op _ _"]
      le_trans [of _ 32 520] intro!: small_serialize split: list.split) (simp add: small_def)

lemma safe_num_arg:
  "limits st \<Longrightarrow> (\<And>n. \<bar>n\<bar> < 2 ^ 31 \<Longrightarrow> safe limits (f n)) \<Longrightarrow> safe limits (and_then (num_arg env 4 x) f)"
  by (rule safe_and_then [OF num_arg_safe])

lemma safe_within [safe_ops]: "limits st \<Longrightarrow> safe limits (op_within env st)"
  unfolding op_within_def
  by (auto split: list.split intro!: safe_num_arg) (simp_all add: limits_def)

lemma safe_pick_roll [safe_ops]:
  assumes "limits st"
  shows "safe limits (op_pick_roll env opcode st)"
proof -
  have s: "list_all small (tl (stack st))" using assms by (cases "stack st") (simp_all add: limits_def)
  have e: "small (tl (stack st) ! n)" if "n < length (tl (stack st))" for n
    using s that by (metis list_all_length)
  have d: "list_all small (take n (tl (stack st)) @ drop m (tl (stack st)))" for n m
    using s by (metis list_all_append append_take_drop_id)
  show ?thesis unfolding op_pick_roll_def Let_def
    using assms s e d by (auto intro!: safe_num_arg) (simp_all add: limits_def)
qed

lemma safe_unary [safe_ops]:
  assumes "limits st" "opcode \<in> {OP_1ADD, OP_1SUB, OP_NEGATE, OP_ABS, OP_NOT, OP_0NOTEQUAL}"
  shows "safe limits (op_unary env opcode st)"
proof (cases "stack st")
  case (Cons x r)
  have "safe limits (and_then (assert_some (unary_num opcode n)) (\<lambda>bn. Inr (st\<lparr>stack := serialize bn # r\<rparr>)))"
    if n: "\<bar>n\<bar> < 2 ^ 31" for n
  proof -
    obtain m where "unary_num opcode n = Some m" "\<bar>m\<bar> < 2 ^ 39" using unary_num_bound [OF n assms(2)] .
    then show ?thesis using assms(1) Cons
      by (simp add: assert_some_def and_then_def limits_def small_serialize)
  qed
  then show ?thesis unfolding op_unary_def Cons using assms(1) by (auto intro!: safe_num_arg)
qed (simp add: op_unary_def)

lemma safe_binary [safe_ops]:
  assumes "limits st" "opcode = OP_ADD \<or> opcode = OP_SUB \<or> (OP_BOOLAND \<le> opcode \<and> opcode \<le> OP_MAX)"
  shows "safe limits (op_binary env opcode st)"
proof (cases "\<exists>x2 x1 r. stack st = x2 # x1 # r")
  case True
  then obtain x2 x1 r where s: "stack st = x2 # x1 # r" by blast
  let ?f = "\<lambda>bn. if opcode = OP_NUMEQUALVERIFY
            then (if CastToBool (serialize bn) then Inr (st\<lparr>stack := r\<rparr>)
                  else set_error SCRIPT_ERR_NUMEQUALVERIFY)
            else Inr (st\<lparr>stack := serialize bn # r\<rparr>)"
  have "safe limits (and_then (assert_some (binary_num opcode a b)) ?f)"
    if n: "\<bar>a\<bar> < 2 ^ 31" "\<bar>b\<bar> < 2 ^ 31" for a b
  proof -
    obtain m where "binary_num opcode a b = Some m" "\<bar>m\<bar> < 2 ^ 39" using binary_num_bound [OF n assms(2)] .
    then show ?thesis using assms(1) s
      by (simp add: assert_some_def and_then_def limits_def small_serialize)
  qed
  then show ?thesis unfolding op_binary_def s using assms(1) by (auto intro!: safe_num_arg)
qed (auto simp: op_binary_def split: list.split)

lemma safe_locktime [safe_ops]:
  assumes "limits st"
  shows "safe limits (op_checklocktimeverify env st)" "safe limits (op_checksequenceverify env st)"
  using assms
  by (auto simp: op_checklocktimeverify_def op_checksequenceverify_def intro!: safe_and_then [OF num_arg_noabort] split: list.split)

lemma safe_check_encodings: "safe (\<lambda>_. True) (check_encodings env sig key)"
  by (simp add: check_encodings_def split: option.split)

lemma safe_CheckSig:
  "total_checker (chk env) \<Longrightarrow> safe (\<lambda>_. True) (assert_some (CheckSig (chk env) sig key code v))"
  by (auto simp: total_checker_def assert_some_def split: option.split)

lemma safe_checksig [safe_ops]:
  assumes "limits st" "total_checker (chk env)"
  shows "safe limits (op_checksig env opcode st)"
  unfolding op_checksig_def Let_def using assms
  by (auto split: list.split intro!: safe_and_then [OF safe_check_encodings] safe_and_then [OF safe_CheckSig])
    (simp_all add: limits_def)

lemma safe_multisig_loop:
  assumes "total_checker (chk env)"
  shows "safe (\<lambda>b. True) (multisig_loop env stk code isig ikey nSigs nKeys)"
  using assms
proof (induction env stk code isig ikey nSigs nKeys rule: multisig_loop.induct)
  case (1 env stk code isig ikey nSigs nKeys)
  then show ?case
    using safe_check_encodings [of env "stk ! (isig - 1)" "stk ! (ikey - 1)"]
    by (subst multisig_loop.simps)
      (auto simp: Let_def total_checker_def split: sum.split option.split, metis option.distinct(1))
qed

text \<open>What the clean-up of a multi-signature check does: it removes the arguments, and under
  \<^verbatim>\<open>NULLFAIL\<close> a failed check requires every signature to be empty.\<close>

lemma multisig_cleanup_eq:
  "i \<le> Suc (length stk) \<Longrightarrow>
   multisig_cleanup flags ok i ikey2 stk =
     (if \<not> ok \<and> flag flags SCRIPT_VERIFY_NULLFAIL \<and> list_ex (\<lambda>x. x \<noteq> []) (drop ikey2 (take (i - 1) stk))
      then set_error SCRIPT_ERR_SIG_NULLFAIL else Inr (drop (i - 1) stk))"
proof (induction stk arbitrary: i ikey2)
  case Nil
  then show ?case by (subst multisig_cleanup.simps) simp
next
  case (Cons x stk)
  show ?case
  proof (cases "i \<le> 1")
    case True
    then show ?thesis by (subst multisig_cleanup.simps) simp
  next
    case False
    then obtain j where i: "i = Suc (Suc j)" by (metis le_Suc_eq not_less_eq_eq One_nat_def not0_implies_Suc)
    show ?thesis using Cons.IH [of "Suc j" "ikey2 - 1"] Cons.prems
      by (subst multisig_cleanup.simps) (auto simp: i drop_Cons')
  qed
qed

lemma safe_checkmultisig [safe_ops]:
  assumes "limits st" "total_checker (chk env)"
  shows "safe limits (op_checkmultisig env opcode st)"
proof -
  have l: "list_all small (drop k (stack st))" for k
    using assms(1) by (metis limits_def append_take_drop_id list_all_append)
  have c: "safe (list_all small) (multisig_cleanup (env_flags env) ok i ikey2 (stack st))"
    if "i \<le> length (stack st)" for ok i ikey2
    using that l by (subst multisig_cleanup_eq) auto
  show ?thesis unfolding op_checkmultisig_def Let_def
    by (intro safe_if safe_num_arg [OF assms(1)] safe_and_then [OF safe_multisig_loop [OF assms(2)]] safe_and_then [OF c])
      (use assms(1) in \<open>auto simp: limits_def split: list.split\<close>)
qed

lemma safe_eval_switch:
  assumes "limits st" "total_checker (chk env)" "length (stack st) < 2 ^ 39"
  shows "safe limits (eval_switch env opcode fExec pc st)"
  unfolding eval_switch_def
  by (intro safe_if safe_ops) (use assms in simp_all)


text \<open>The invariant of the evaluation loop: \<open>N\<close> bounds the stack, \<^verbatim>\<open>MAX_STACK_SIZE\<close> or more when the
  script starts on a larger stack.\<close>

definition eval_inv :: "nat \<Rightarrow> eval_state \<Rightarrow> bool" where
  "eval_inv N st \<longleftrightarrow> limits st \<and> length (stack st) + length (altstack st) \<le> N"

lemma safe_eval_step:
  assumes "eval_inv N st" "total_checker (chk env)" "MAX_STACK_SIZE \<le> N" "N < 2 ^ 39"
  shows "safe (\<lambda>(pc, st). eval_inv N st) (eval_step env pc st)"
proof (cases "GetOp pc")
  case (Some p)
  obtain pc' opcode vch where p: "p = (pc', opcode, vch)" by (cases p)
  let ?st = "if opcode > OP_16 then st\<lparr>nOpCount := nOpCount st + 1\<rparr> else st"
  have st: "limits ?st" if "\<not> (opcode > OP_16 \<and> nOpCount ?st > MAX_OPS_PER_SCRIPT)"
    using that assms(1) by (auto simp: eval_inv_def limits_def split: if_splits)
  have len: "length (stack ?st) < 2 ^ 39" using assms(1,4) by (simp add: eval_inv_def)
  have push: "limits (s\<lparr>stack := vch # stack s\<rparr>)" if "limits s" "length vch \<le> MAX_SCRIPT_ELEMENT_SIZE" for s
    using that by (simp add: limits_def small_def)
  show ?thesis unfolding eval_step_def Let_def Some p option.case prod.case
    by (intro safe_if safe_and_then [where Q = limits] safe_eval_switch st len assms(2))
      (use push st assms(3) in \<open>auto simp: eval_inv_def\<close>)
qed (simp add: eval_step_def)

lemma safe_eval_loop:
  "eval_inv N st \<Longrightarrow> total_checker (chk env) \<Longrightarrow> MAX_STACK_SIZE \<le> N \<Longrightarrow> N < 2 ^ 39 \<Longrightarrow>
   safe (eval_inv N) (eval_loop env pc st)"
proof (induction env pc st rule: eval_loop.induct)
  case (1 env pc st)
  show ?case
  proof (cases "pc = []")
    case False
    with 1 safe_eval_step [OF 1(2,3,4,5), of pc] show ?thesis
      by (subst eval_loop.simps) (auto split: sum.splits)
  qed (use 1 in \<open>simp add: eval_loop.simps\<close>)
qed

lemma safe_EvalScript:
  assumes "total_checker (chk env)" "list_all small stk" "length stk \<le> N" "MAX_STACK_SIZE \<le> N" "N < 2 ^ 39"
  shows "safe (\<lambda>stk'. length stk' \<le> N \<and> list_all small stk') (EvalScript env stk script)"
  unfolding EvalScript_def
  by (intro safe_if safe_and_then [OF safe_eval_loop [where N = N]])
    (use assms in \<open>auto simp: eval_inv_def limits_def\<close>)

section \<open>VerifyScript\<close>

text \<open>The combinations of flags that the assertions at the end of \<^verbatim>\<open>VerifyScript\<close> require.\<close>

definition flags_consistent :: "script_flags \<Rightarrow> bool" where
  "flags_consistent F \<longleftrightarrow>
     (flag F SCRIPT_VERIFY_CLEANSTACK \<longrightarrow> flag F SCRIPT_VERIFY_P2SH \<and> flag F SCRIPT_VERIFY_WITNESS) \<and>
     (flag F SCRIPT_VERIFY_WITNESS \<longrightarrow> flag F SCRIPT_VERIFY_P2SH)"

text \<open>A P2SH output script cannot be evaluated on an empty stack.\<close>

lemma EvalScript_p2sh_empty:
  assumes "IsPayToScriptHash script"
  shows "\<exists>e. EvalScript env [] script = Inl e"
proof -
  obtain rest where s: "script = 0xa9 # rest"
    using assms by (cases script) (auto simp: IsPayToScriptHash_def word_unat_eq_iff)
  have g: "GetOp (0xa9 # rest) = Some (rest, OP_HASH160, [])"
    by (simp add: GetOp_def GetOp2.simps(2))
  have "eval_loop env script \<lparr>stack = [], altstack = [], vfExec = [], nOpCount = 0, pbegincodehash = script\<rparr>
     = set_error SCRIPT_ERR_INVALID_STACK_OPERATION"
    by (subst eval_loop.simps)
      (simp add: s eval_step_def g disabled_opcode_def eval_switch_def op_hash_def and_then_def)
  then show ?thesis by (simp add: EvalScript_def and_then_def)
qed

lemma safe_exec_witness:
  assumes "total_checker (chk env)" "length stk < 2 ^ 39"
  shows "safe (\<lambda>_. True) (exec_witness env stk script)"
proof -
  define N where "N = max MAX_STACK_SIZE (length stk)"
  have N: "MAX_STACK_SIZE \<le> N" "N < 2 ^ 39" "length (rev stk) \<le> N" using assms(2) by (auto simp: N_def)
  show ?thesis unfolding exec_witness_def
    by (intro safe_if safe_and_then [OF safe_EvalScript [OF _ _ N(3,1,2)]])
      (use assms in \<open>auto simp: list_all_iff list_ex_iff small_def not_less\<close>)
qed

lemma safe_VerifyWitnessProgram:
  assumes "total_checker (chk env)" "length witness < 2 ^ 39"
  shows "safe (\<lambda>_. True) (VerifyWitnessProgram env witness v prog)"
  unfolding VerifyWitnessProgram_def Let_def
  by (intro safe_if safe_exec_witness) (use assms in simp_all)

lemma safe_verify_p2sh:
  assumes "total_checker (chk env)" "length witness < 2 ^ 39" "stackCopy \<noteq> []"
    and "list_all small stackCopy" "length stackCopy \<le> MAX_STACK_SIZE"
  shows "safe (\<lambda>_. True) (verify_p2sh env scriptSig witness stackCopy had)"
proof -
  obtain pubKey2 stk where c: "stackCopy = pubKey2 # stk" using assms(3) by (cases stackCopy) auto
  show ?thesis unfolding verify_p2sh_def c list.case
    by (intro safe_if safe_and_then [OF safe_EvalScript [where N = 1000]])
      (use assms c in \<open>auto split: option.split intro!: safe_and_then [OF safe_VerifyWitnessProgram]\<close>)
qed

lemma safe_VerifyScript:
  assumes "total_checker (chk env)" "length witness < 2 ^ 39" "flags_consistent (env_flags env)"
  shows "safe (\<lambda>_. True) (VerifyScript env scriptSig scriptPubKey witness)"
proof -
  let ?base = "env\<lparr>sigversion := SIGVERSION_BASE\<rparr>"
  have t: "total_checker (chk ?base)" using assms(1) by simp
  have ne: "\<not> IsPayToScriptHash scriptPubKey" if "EvalScript ?base [] scriptPubKey = Inr stk'" for stk'
    using that EvalScript_p2sh_empty [of scriptPubKey ?base] by auto
  have w: "safe (\<lambda>_. True) (verify_bare_witness env scriptSig scriptPubKey witness stk)" for stk
    unfolding verify_bare_witness_def
    by (auto split: option.split intro!: safe_and_then [OF safe_VerifyWitnessProgram] assms)
  note f = assms(3) [unfolded flags_consistent_def, simplified]
  show ?thesis unfolding VerifyScript_def Let_def
    by (intro safe_if safe_and_then [OF safe_EvalScript [where N = 1000]] safe_and_then [OF w] t)
      (use f in \<open>auto dest: ne intro!: safe_and_then [where Q = "\<lambda>_. True"] safe_verify_p2sh assms\<close>)
qed

section \<open>Properties\<close>

text \<open>
  C4: \<^verbatim>\<open>EvalScript\<close> never fails an assertion and keeps its resource limits.  With a signature checker
  that does not itself abort, on any script and any stack of at most \<open>N\<close> elements of at most 520
  bytes (\<open>N\<close> at least the limit of 1000), every assertion of the interpreter holds, among them those of
  the script number arithmetic, and a successful evaluation leaves at most \<open>N\<close> elements of at most
  520 bytes.
\<close>
theorem EvalScript_limits:
  assumes "total_checker (chk env)" "list_all small stk" "length stk \<le> N" "MAX_STACK_SIZE \<le> N" "N < 2 ^ 39"
  shows "EvalScript env stk script \<noteq> Inl Abort \<and>
     (\<forall>stk'. EvalScript env stk script = Inr stk' \<longrightarrow> length stk' \<le> N \<and> list_all small stk')"
  using safe_EvalScript [OF assms, of script] by (auto simp: safe_def)

theorem EvalScript_limits_witness:
  "\<exists>env. total_checker (chk env) \<and> EvalScript env [] [0x52, 0x53, 0x93] = Inr [[5]] \<and>
     EvalScript env [] [0x52, 0x53, 0x93] \<noteq> Inl Abort"
proof -
  let ?env = "\<lparr>env_flags = 0, chk = BaseSignatureChecker, sigversion = SIGVERSION_BASE, CheckLowS = \<lambda>_. True\<rparr>"
  have t: "total_checker (chk ?env)" by (simp add: total_checker_def BaseSignatureChecker_def)
  have "EvalScript ?env [] [0x52, 0x53, 0x93] = Inr [[5]]" by code_simp
  moreover have "EvalScript ?env [] [0x52, 0x53, 0x93] \<noteq> Inl Abort"
    using EvalScript_limits [OF t, of "[]" 1000 "[0x52, 0x53, 0x93]"] by simp
  ultimately show ?thesis using t by blast
qed



end
