(* ===== verification/SoftForks.thy ===== *)
theory SoftForks
  imports ScriptLimits
begin

text \<open>
  Soft-fork safety of the verification flags (\<^verbatim>\<open>src/script/interpreter.h\<close> marks them as such): a
  spend accepted under a set of flags is accepted under every weaker consistent set.
\<close>

unbundle bit_operations_syntax

section \<open>Weaker flags and refinement of results\<close>

definition weaker :: "script_flags \<Rightarrow> script_flags \<Rightarrow> bool" where
  "weaker F' F \<longleftrightarrow> F' AND F = F' \<and>
     (flag F' SCRIPT_VERIFY_DISCOURAGE_UPGRADABLE_NOPS \<longrightarrow>
        (flag F SCRIPT_VERIFY_CHECKLOCKTIMEVERIFY \<longrightarrow> flag F' SCRIPT_VERIFY_CHECKLOCKTIMEVERIFY) \<and>
        (flag F SCRIPT_VERIFY_CHECKSEQUENCEVERIFY \<longrightarrow> flag F' SCRIPT_VERIFY_CHECKSEQUENCEVERIFY))"

definition weaker_env :: "eval_env \<Rightarrow> eval_env \<Rightarrow> bool" where
  "weaker_env env' env \<longleftrightarrow> weaker (env_flags env') (env_flags env) \<and> chk env' = chk env \<and>
     sigversion env' = sigversion env \<and> CheckLowS env' = CheckLowS env"

definition accepts :: "eval_fail + 'a \<Rightarrow> eval_fail + 'a \<Rightarrow> bool" where
  "accepts r r' \<longleftrightarrow> (\<forall>x. r = Inr x \<longrightarrow> r' = Inr x)"

named_theorems accepts_ops

lemma accepts_refl [simp]: "accepts r r"
  by (simp add: accepts_def)

lemma accepts_Inl [simp]: "accepts (Inl e) r'"
  by (simp add: accepts_def)

lemma accepts_Inr [simp]: "accepts (Inr x) r' \<longleftrightarrow> r' = Inr x"
  by (simp add: accepts_def)

lemma accepts_if:
  "(c \<Longrightarrow> accepts a a') \<Longrightarrow> (\<not> c \<Longrightarrow> accepts b b') \<Longrightarrow> accepts (if c then a else b) (if c then a' else b')"
  by simp

lemma accepts_guard:
  "(c' \<Longrightarrow> c) \<Longrightarrow> accepts b b' \<Longrightarrow> accepts (if c then Inl e else b) (if c' then Inl e' else b')"
  by (auto simp: accepts_def)

lemma accepts_and_then:
  "accepts r r' \<Longrightarrow> (\<And>x. r = Inr x \<Longrightarrow> accepts (f x) (f' x)) \<Longrightarrow> accepts (and_then r f) (and_then r' f')"
  by (cases r) (auto simp: accepts_def and_then_def)

lemma accepts_option_case:
  "accepts a a' \<Longrightarrow> (\<And>x y. r = Some (x, y) \<Longrightarrow> accepts (f x y) (f' x y)) \<Longrightarrow>
   accepts (case r of None \<Rightarrow> a | Some (x, y) \<Rightarrow> f x y) (case r of None \<Rightarrow> a' | Some (x, y) \<Rightarrow> f' x y)"
  by (cases r) auto

lemma flag_weaker: "weaker F' F \<Longrightarrow> flag F' f \<Longrightarrow> flag F f"
proof -
  assume "weaker F' F" "flag F' f"
  then have "(F' AND F) AND f \<noteq> 0" by (simp add: weaker_def flag_def)
  then show "flag F f" unfolding flag_def by (metis and.assoc and_zero_eq)
qed

lemma flag_env: "weaker_env env' env \<Longrightarrow> flag (env_flags env') f \<Longrightarrow> flag (env_flags env) f"
  by (auto simp: weaker_env_def dest: flag_weaker)

lemma weaker_env_same: "weaker_env env' env \<Longrightarrow> chk env' = chk env" "weaker_env env' env \<Longrightarrow> sigversion env' = sigversion env"
  "weaker_env env' env \<Longrightarrow> CheckLowS env' = CheckLowS env"
  by (simp_all add: weaker_env_def)

lemma weaker_env_sigversion: "weaker_env env' env \<Longrightarrow> weaker_env (env'\<lparr>sigversion := v\<rparr>) (env\<lparr>sigversion := v\<rparr>)"
  by (simp add: weaker_env_def)

section \<open>Opcode handlers\<close>

lemma accepts_num_arg [accepts_ops]: "weaker_env env' env \<Longrightarrow> accepts (num_arg env k x) (num_arg env' k x)"
  by (auto simp: num_arg_def CScriptNum_def fRequireMinimal_def dest: flag_env)

lemma accepts_locktime [accepts_ops]:
  assumes "weaker_env env' env"
  shows "accepts (op_checklocktimeverify env st) (op_checklocktimeverify env' st)"
    and "accepts (op_checksequenceverify env st) (op_checksequenceverify env' st)"
proof -
  have n: "num_arg env' k x = Inr n" if "num_arg env k x = Inr n" for k x n
    using accepts_num_arg [OF assms, of k x] that by (simp add: accepts_def)
  have d: "flag (env_flags env') SCRIPT_VERIFY_CHECKLOCKTIMEVERIFY"
    if "flag (env_flags env) SCRIPT_VERIFY_CHECKLOCKTIMEVERIFY" "flag (env_flags env') SCRIPT_VERIFY_DISCOURAGE_UPGRADABLE_NOPS"
    using assms that by (simp add: weaker_env_def weaker_def)
  have d': "flag (env_flags env') SCRIPT_VERIFY_CHECKSEQUENCEVERIFY"
    if "flag (env_flags env) SCRIPT_VERIFY_CHECKSEQUENCEVERIFY" "flag (env_flags env') SCRIPT_VERIFY_DISCOURAGE_UPGRADABLE_NOPS"
    using assms that by (simp add: weaker_env_def weaker_def)
  show "accepts (op_checklocktimeverify env st) (op_checklocktimeverify env' st)"
    using flag_env [OF assms] d weaker_env_same(1) [OF assms]
    by (auto simp: op_checklocktimeverify_def accepts_def n split: list.splits if_splits)
  show "accepts (op_checksequenceverify env st) (op_checksequenceverify env' st)"
    using flag_env [OF assms] d' weaker_env_same(1) [OF assms]
    by (auto simp: op_checksequenceverify_def accepts_def n split: list.splits if_splits)
qed

lemma accepts_control [accepts_ops]:
  assumes "weaker_env env' env"
  shows "accepts (op_upgradable_nop env st) (op_upgradable_nop env' st)"
    and "accepts (op_if env opcode fExec st) (op_if env' opcode fExec st)"
  using flag_env [OF assms] weaker_env_same(2) [OF assms]
  by (auto simp: op_upgradable_nop_def op_if_def accepts_def Let_def split: list.splits if_splits)

lemma accepts_numeric [accepts_ops]:
  assumes "weaker_env env' env"
  shows "accepts (op_pick_roll env opcode st) (op_pick_roll env' opcode st)"
    and "accepts (op_unary env opcode st) (op_unary env' opcode st)"
    and "accepts (op_binary env opcode st) (op_binary env' opcode st)"
    and "accepts (op_within env st) (op_within env' st)"
  unfolding op_pick_roll_def op_unary_def op_binary_def op_within_def
  by (auto split: list.split intro!: accepts_if accepts_and_then accepts_num_arg [OF assms])

lemma accepts_encodings:
  assumes "weaker_env env' env"
  shows "accepts (check_encodings env sig key) (check_encodings env' sig key)"
proof -
  have s: "CheckSignatureEncoding (CheckLowS env') sig (env_flags env') = None"
    if "CheckSignatureEncoding (CheckLowS env) sig (env_flags env) = None"
    using that flag_env [OF assms] weaker_env_same(3) [OF assms]
    unfolding CheckSignatureEncoding_def by (auto simp del: push_bit_0_id split: if_splits)
  have k: "CheckPubKeyEncoding key (env_flags env') (sigversion env') = None"
    if "CheckPubKeyEncoding key (env_flags env) (sigversion env) = None"
    using that flag_env [OF assms] weaker_env_same(2) [OF assms]
    unfolding CheckPubKeyEncoding_def by (auto split: if_splits)
  show ?thesis unfolding check_encodings_def accepts_def using s k by (auto split: option.splits)
qed

lemma accepts_checksig [accepts_ops]:
  assumes "weaker_env env' env"
  shows "accepts (op_checksig env opcode st) (op_checksig env' opcode st)"
proof -
  have d: "drop_signature env' = drop_signature env"
    using weaker_env_same(2) [OF assms] by (intro ext) (simp add: drop_signature_def)
  show ?thesis unfolding op_checksig_def Let_def d weaker_env_same(1,2) [OF assms]
    by (auto split: list.split intro!: accepts_if accepts_guard accepts_and_then accepts_encodings assms dest: flag_env [OF assms])
qed

lemma accepts_multisig_loop:
  "weaker_env env' env \<Longrightarrow>
   accepts (multisig_loop env stk code isig ikey nSigs nKeys) (multisig_loop env' stk code isig ikey nSigs nKeys)"
proof (induction env stk code isig ikey nSigs nKeys rule: multisig_loop.induct)
  case (1 env stk code isig ikey nSigs nKeys)
  note same = weaker_env_same(1,2) [OF 1(2)]
  have e: "check_encodings env' sig key = Inr ()" if "check_encodings env sig key = Inr ()" for sig key
    using accepts_encodings [OF 1(2), of sig key] that by simp
  show ?case
    apply (subst multisig_loop.simps, subst (2) multisig_loop.simps)
    using 1 e by (auto simp: Let_def same split: sum.split option.split)
qed

lemma accepts_cleanup:
  "(flag F' SCRIPT_VERIFY_NULLFAIL \<Longrightarrow> flag F SCRIPT_VERIFY_NULLFAIL) \<Longrightarrow>
   accepts (multisig_cleanup F ok i ikey2 stk) (multisig_cleanup F' ok i ikey2 stk)"
proof (induction F ok i ikey2 stk rule: multisig_cleanup.induct)
  case (1 F ok i ikey2 stk)
  then show ?case
    by (subst multisig_cleanup.simps, subst (2) multisig_cleanup.simps) (auto split: list.split)
qed

lemma accepts_checkmultisig [accepts_ops]:
  assumes "weaker_env env' env"
  shows "accepts (op_checkmultisig env opcode st) (op_checkmultisig env' opcode st)"
proof -
  have d: "drop_signature env' = drop_signature env"
    using weaker_env_same(2) [OF assms] by (intro ext) (simp add: drop_signature_def)
  show ?thesis unfolding op_checkmultisig_def Let_def d
    by (auto split: list.split intro!: accepts_if accepts_guard accepts_and_then accepts_num_arg accepts_multisig_loop
        accepts_cleanup assms dest: flag_env [OF assms])
qed

lemma accepts_switch:
  assumes "weaker_env env' env"
  shows "accepts (eval_switch env opcode fExec pc st) (eval_switch env' opcode fExec pc st)"
  unfolding eval_switch_def by (intro accepts_if accepts_ops [OF assms] accepts_refl)

lemma accepts_step:
  assumes "weaker_env env' env"
  shows "accepts (eval_step env pc st) (eval_step env' pc st)"
  unfolding eval_step_def Let_def fRequireMinimal_def
  by (auto split: option.split intro!: accepts_if accepts_guard accepts_and_then accepts_switch assms dest: flag_env [OF assms])

lemma accepts_loop: "weaker_env env' env \<Longrightarrow> accepts (eval_loop env pc st) (eval_loop env' pc st)"
proof (induction env pc st rule: eval_loop.induct)
  case (1 env pc st)
  have s: "eval_step env' pc st = Inr x" if "eval_step env pc st = Inr x" for x
    using accepts_step [OF 1(2), of pc st] that by (simp add: accepts_def)
  show ?case unfolding eval_loop.simps [of env pc st] eval_loop.simps [of env' pc st]
    using 1 s by (auto split: sum.split)
qed

lemma accepts_EvalScript:
  "weaker_env env' env \<Longrightarrow> accepts (EvalScript env stk script) (EvalScript env' stk script)"
  unfolding EvalScript_def by (intro accepts_if accepts_and_then accepts_loop) simp_all


section \<open>VerifyScript\<close>

lemma accepts_exec_witness:
  "weaker_env env' env \<Longrightarrow> accepts (exec_witness env stk script) (exec_witness env' stk script)"
  unfolding exec_witness_def
  by (intro accepts_if accepts_and_then accepts_EvalScript weaker_env_sigversion) simp_all

lemma accepts_VerifyWitnessProgram:
  assumes "weaker_env env' env"
  shows "accepts (VerifyWitnessProgram env w v p) (VerifyWitnessProgram env' w v p)"
  unfolding VerifyWitnessProgram_def Let_def
  by (auto intro!: accepts_if accepts_guard accepts_exec_witness assms dest: flag_env [OF assms])

lemma accepts_EvalScript_base:
  "weaker_env env' env \<Longrightarrow> EvalScript (env\<lparr>sigversion := v\<rparr>) s c = Inr x \<Longrightarrow>
   EvalScript (env'\<lparr>sigversion := v\<rparr>) s c = Inr x"
  using accepts_EvalScript [OF weaker_env_sigversion] by (simp add: accepts_def)

text \<open>With witness verification on in the weaker set, it is on in both, and the two runs agree.\<close>

lemma accepts_verify_p2sh:
  assumes "weaker_env env' env" "flag (env_flags env') SCRIPT_VERIFY_WITNESS"
  shows "accepts (verify_p2sh env sg w stk had) (verify_p2sh env' sg w stk had)"
  unfolding verify_p2sh_def using assms(2) flag_env [OF assms(1) assms(2)]
  by (auto split: list.split intro!: accepts_if accepts_option_case accepts_and_then accepts_EvalScript
      weaker_env_sigversion accepts_VerifyWitnessProgram assms)

lemma accepts_verify_bare_witness:
  assumes "weaker_env env' env" "flag (env_flags env') SCRIPT_VERIFY_WITNESS"
  shows "accepts (verify_bare_witness env sg pk w stk) (verify_bare_witness env' sg pk w stk)"
  unfolding verify_bare_witness_def using assms(2) flag_env [OF assms(1) assms(2)]
  by (auto split: option.split intro!: accepts_if accepts_and_then accepts_VerifyWitnessProgram assms)

text \<open>With witness verification off in the weaker set, what follows a witness program is not run.\<close>

lemma verify_p2sh_no_witness:
  assumes "weaker_env env' env" "\<not> flag (env_flags env') SCRIPT_VERIFY_WITNESS"
    and "verify_p2sh env sg w stk had = Inr r"
  shows "\<exists>r'. verify_p2sh env' sg w stk had' = Inr r'"
proof -
  obtain p s x where "IsPushOnly sg" "stk = p # s" "EvalScript (env\<lparr>sigversion := SIGVERSION_BASE\<rparr>) s p = Inr x"
    "x \<noteq> []" "CastToBool (hd x)"
    using assms(3) unfolding verify_p2sh_def by (cases stk) (auto split: if_splits)
  then show ?thesis using assms(2) accepts_EvalScript_base [OF assms(1)]
    by (simp add: verify_p2sh_def and_then_def)
qed

lemma accepts_VerifyScript_witness:
  assumes "weaker_env env' env" "flag (env_flags env') SCRIPT_VERIFY_WITNESS" "flag (env_flags env') SCRIPT_VERIFY_P2SH"
  shows "accepts (VerifyScript env sg pk w) (VerifyScript env' sg pk w)"
  unfolding VerifyScript_def Let_def
  using assms flag_env [OF assms(1) assms(2)] flag_env [OF assms(1) assms(3)]
  by (auto intro!: accepts_if accepts_guard accepts_and_then accepts_EvalScript weaker_env_sigversion
      accepts_verify_p2sh accepts_verify_bare_witness dest: flag_env [OF assms(1)])


lemma if_Inl_eq_Inr: "(if c then Inl e else r) = Inr x \<longleftrightarrow> \<not> c \<and> r = Inr x"
  by simp

lemma VerifyScript_InrE:
  assumes "VerifyScript env sg pk w = Inr ()"
  obtains x y s had r where
    "\<not> (flag (env_flags env) SCRIPT_VERIFY_SIGPUSHONLY \<and> \<not> IsPushOnly sg)"
    "EvalScript (env\<lparr>sigversion := SIGVERSION_BASE\<rparr>) [] sg = Inr x"
    "EvalScript (env\<lparr>sigversion := SIGVERSION_BASE\<rparr>) x pk = Inr y"
    "y \<noteq> []" "CastToBool (hd y)"
    "verify_bare_witness env sg pk w y = Inr (s, had)"
    "(if flag (env_flags env) SCRIPT_VERIFY_P2SH \<and> IsPayToScriptHash pk then verify_p2sh env sg w x had
      else Inr (s, had)) = Inr r"
  using assms unfolding VerifyScript_def Let_def
  by (simp only: if_Inl_eq_Inr and_then_Inr_iff split_paired_Ex prod.case not_not eq_False) blast

lemma VerifyScript_no_witness:
  assumes "weaker_env env' env" "\<not> flag (env_flags env') SCRIPT_VERIFY_WITNESS"
    and "\<not> flag (env_flags env') SCRIPT_VERIFY_CLEANSTACK" and "VerifyScript env sg pk w = Inr ()"
  shows "VerifyScript env' sg pk w = Inr ()"
proof -
  obtain x y s had r where v: "\<not> (flag (env_flags env) SCRIPT_VERIFY_SIGPUSHONLY \<and> \<not> IsPushOnly sg)"
    and e: "EvalScript (env\<lparr>sigversion := SIGVERSION_BASE\<rparr>) [] sg = Inr x"
      "EvalScript (env\<lparr>sigversion := SIGVERSION_BASE\<rparr>) x pk = Inr y" "y \<noteq> []" "CastToBool (hd y)"
    and p: "(if flag (env_flags env) SCRIPT_VERIFY_P2SH \<and> IsPayToScriptHash pk then verify_p2sh env sg w x had
      else Inr (s, had)) = Inr r"
    using VerifyScript_InrE [OF assms(4)] by metis
  have e': "EvalScript (env'\<lparr>sigversion := SIGVERSION_BASE\<rparr>) [] sg = Inr x"
       "EvalScript (env'\<lparr>sigversion := SIGVERSION_BASE\<rparr>) x pk = Inr y"
    using e accepts_EvalScript_base [OF assms(1)] by simp_all
  have p': "\<exists>r. verify_p2sh env' sg w x False = Inr r"
    if "flag (env_flags env') SCRIPT_VERIFY_P2SH" "IsPayToScriptHash pk"
    using p that flag_env [OF assms(1) that(1)] verify_p2sh_no_witness [OF assms(1,2)] by auto
  show ?thesis using assms(2,3) e e' v p' flag_env [OF assms(1)]
    unfolding VerifyScript_def Let_def verify_bare_witness_def by (auto simp: and_then_def)
qed


lemma VerifyScript_weaker:
  assumes "weaker_env env' env" "flags_consistent (env_flags env')" "VerifyScript env sg pk w = Inr ()"
  shows "VerifyScript env' sg pk w = Inr ()"
proof (cases "flag (env_flags env') SCRIPT_VERIFY_WITNESS")
  case True
  with accepts_VerifyScript_witness [OF assms(1) True, of sg pk w] assms(2,3) show ?thesis
    by (simp add: flags_consistent_def accepts_def)
next
  case False
  with VerifyScript_no_witness [OF assms(1) False _ assms(3)] assms(2) show ?thesis
    by (simp add: flags_consistent_def)
qed

section \<open>Properties\<close>



end
