(* ===== verification/ScriptTemplates.thy ===== *)
theory ScriptTemplates
  imports ScriptLimits "HOL-Library.Sublist"
begin

text \<open>
  What the signature opcodes and the standard scripts decide: strict DER signatures, the matching
  of signatures with keys in \<^verbatim>\<open>OP_CHECKMULTISIG\<close>, truth of stack elements, pay-to-pubkey-hash and
  pay-to-witness-pubkey-hash spends.
\<close>

unbundle bit_operations_syntax

section \<open>Multi-signature matching\<close>

text \<open>The matching loop on the lists of signatures and keys, in the order in which the code visits
  them.\<close>

fun match_sigs :: "('a \<Rightarrow> 'b \<Rightarrow> bool) \<Rightarrow> 'a list \<Rightarrow> 'b list \<Rightarrow> bool" where
  "match_sigs ok [] ks = True"
| "match_sigs ok (s # ss) [] = False"
| "match_sigs ok (s # ss) (k # ks) =
     (if ok s k then match_sigs ok ss ks else match_sigs ok (s # ss) ks)"

lemma match_sigs_iff:
  "match_sigs ok ss ks \<longleftrightarrow> (\<exists>ks'. subseq ks' ks \<and> list_all2 ok ss ks')"
proof (induction ok ss ks rule: match_sigs.induct)
  case (2 ok s ss)
  then show ?case by (auto dest: list_emb_Nil2)
next
  case (3 ok s ss k ks)
  show ?case
  proof
    assume "match_sigs ok (s # ss) (k # ks)"
    with 3 show "\<exists>ks'. subseq ks' (k # ks) \<and> list_all2 ok (s # ss) ks'"
      by (auto split: if_splits intro: subseq_Cons' exI [of _ "k # _"])
  next
    assume "\<exists>ks'. subseq ks' (k # ks) \<and> list_all2 ok (s # ss) ks'"
    then obtain k' ks' where m: "subseq (k' # ks') (k # ks)" "ok s k'" "list_all2 ok ss ks'"
      by (auto simp: list_all2_Cons1)
    show "match_sigs ok (s # ss) (k # ks)"
    proof (cases "ok s k")
      case True
      have "subseq ks' ks" using m(1) by (metis subseq_Cons2_iff subseq_Cons')
      with True m 3(1) show ?thesis by auto
    next
      case False
      then have "k' \<noteq> k" using m(2) by auto
      then have "subseq (k' # ks') ks" using m(1) by simp
      with False m 3(2) show ?thesis by auto
    qed
  qed
qed auto


lemma match_sigs_length: "match_sigs ok ss ks \<Longrightarrow> length ss \<le> length ks"
  by (induction ok ss ks rule: match_sigs.induct) (auto split: if_splits)

lemma match_sigs_snd: "match_sigs ok (s # ss) ks \<Longrightarrow> ks \<noteq> []"
  by (cases ks) simp_all

text \<open>The loop over stack positions computes the matching of the lists it reads.\<close>

lemma multisig_loop_match:
  assumes "\<And>s k. s \<in> set ss \<Longrightarrow> k \<in> set ks \<Longrightarrow>
      check_encodings env s k = Inr () \<and> CheckSig (chk env) s k code (sigversion env) = Some (ok s k)"
    and "\<And>i. i < length ss \<Longrightarrow> stk ! (isig + i - 1) = ss ! i"
    and "\<And>i. i < length ks \<Longrightarrow> stk ! (ikey + i - 1) = ks ! i"
    and "length ss \<le> length ks"
  shows "multisig_loop env stk code isig ikey (int (length ss)) (int (length ks)) = Inr (match_sigs ok ss ks)"
  using assms
proof (induction ok ss ks arbitrary: isig ikey rule: match_sigs.induct)
  case (1 ok ks)
  then show ?case by (simp add: multisig_loop.simps)
next
  case (3 ok s ss k ks)
  have sg: "stk ! (isig - 1) = s" using 3(4) [of 0] by simp
  have ky: "stk ! (ikey - 1) = k" using 3(5) [of 0] by simp
  have e: "check_encodings env s k = Inr ()" "CheckSig (chk env) s k code (sigversion env) = Some (ok s k)"
    using 3(3) [of s k] by simp_all
  have ks: "stk ! (ikey + 1 + i - 1) = ks ! i" if "i < length ks" for i using 3(5) [of "Suc i"] that by simp
  show ?case
  proof (cases "ok s k")
    case True
    have ss: "stk ! (isig + 1 + i - 1) = ss ! i" if "i < length ss" for i using 3(4) [of "Suc i"] that by simp
    have "multisig_loop env stk code (isig + 1) (ikey + 1) (int (length ss)) (int (length ks)) = Inr (match_sigs ok ss ks)"
      using 3(1) [OF True] 3(3,6) ss ks by simp
    with True show ?thesis using 3(6) by (subst multisig_loop.simps) (simp add: sg [simplified] ky [simplified] e)
  next
    case False
    show ?thesis
    proof (cases "length (s # ss) \<le> length ks")
      case True
      then have "multisig_loop env stk code isig (ikey + 1) (int (length (s # ss))) (int (length ks)) = Inr (match_sigs ok (s # ss) ks)"
        using 3(2) [OF False] 3(3,4) ks by simp
      with True False show ?thesis by (subst multisig_loop.simps) (simp add: sg [simplified] ky [simplified] e)
    next
      case short: False
      then have "\<not> match_sigs ok (s # ss) ks" using match_sigs_length [of ok "s # ss" ks] by blast
      with short False show ?thesis by (subst multisig_loop.simps) (simp add: sg [simplified] ky [simplified] e)
    qed
  qed
qed simp

lemma num_arg_serialize: "n < 2 ^ 31 \<Longrightarrow> num_arg env 4 (serialize (int n)) = Inr (int n)"
proof -
  assume n: "n < 2 ^ 31"
  have "length (serialize (int n)) \<le> Suc 3" using n by (intro length_serialize_le) simp
  moreover have "set_vch (serialize (int n)) = int n" using n by (intro set_vch_serialize) simp
  ultimately show ?thesis by (simp add: num_arg_def CScriptNum_def serialize_minimal)
qed

lemma getint_nat: "n < 2 ^ 31 \<Longrightarrow> getint (int n) = int n"
  by (simp add: getint_def)

text \<open>A complete multi-signature check on a stack that holds its arguments.\<close>

lemma op_checkmultisig_match:
  fixes ks ss r :: "bytes list" and dummy :: bytes and env :: eval_env and st :: eval_state
  defines "stk \<equiv> serialize (int (length ks)) # ks @ serialize (int (length ss)) # ss @ dummy # r"
  defines "code \<equiv> foldl (\<lambda>code s. drop_signature env s code) (pbegincodehash st) ss"
  assumes st: "stack st = stk" and n: "length ks \<le> 20" "length ss \<le> length ks"
    and ops: "nOpCount st + length ks \<le> MAX_OPS_PER_SCRIPT"
    and chk: "\<And>s k. s \<in> set ss \<Longrightarrow> k \<in> set ks \<Longrightarrow>
      check_encodings env s k = Inr () \<and> CheckSig (chk env) s k code (sigversion env) = Some (ok s k)"
    and dummy: "flag (env_flags env) SCRIPT_VERIFY_NULLDUMMY \<longrightarrow> dummy = []"
    and null: "flag (env_flags env) SCRIPT_VERIFY_NULLFAIL \<longrightarrow> match_sigs ok ss ks \<or> list_all (\<lambda>s. s = []) ss"
  shows "op_checkmultisig env OP_CHECKMULTISIG st =
     Inr (st\<lparr>nOpCount := nOpCount st + length ks, stack := bool_vch (match_sigs ok ss ks) # r\<rparr>)"
proof -
  have kn: "stk ! (2 + length ks - 1) = serialize (int (length ss))" by (simp add: stk_def nth_append)
  have sn: "stk ! (3 + length ks + i - 1) = ss ! i" if "i < length ss" for i
    using that by (simp add: stk_def nth_append)
  have kk: "stk ! (2 + i - 1) = ks ! i" if "i < length ks" for i using that by (simp add: stk_def nth_append)
  have len: "length stk = 3 + length ks + length ss + length r" by (simp add: stk_def)
  have code: "foldl (\<lambda>code k. drop_signature env (stk ! (3 + length ks + k - 1)) code) (pbegincodehash st) [0..<length ss] = code"
  proof -
    have "foldl (\<lambda>code k. drop_signature env (stk ! (3 + length ks + k - 1)) code) (pbegincodehash st) [0..<length ss]
      = foldl (\<lambda>code k. drop_signature env (ss ! k) code) (pbegincodehash st) [0..<length ss]"
      by (rule foldl_cong) (use sn in auto)
    also have "\<dots> = foldl (\<lambda>code s. drop_signature env s code) (pbegincodehash st) (map (\<lambda>i. ss ! i) [0..<length ss])"
      by (simp only: foldl_map)
    finally show ?thesis by (simp add: map_nth code_def)
  qed
  have loop: "multisig_loop env stk code (3 + length ks) 2 (int (length ss)) (int (length ks)) = Inr (match_sigs ok ss ks)"
    by (rule multisig_loop_match) (use chk sn kk n in auto)
  have "drop (2 + length ks) (take (2 + length ks + length ss) stk) = ss" by (simp add: stk_def)
  moreover have "drop (2 + length ks + length ss) stk = dummy # r" by (simp add: stk_def)
  ultimately have clean: "multisig_cleanup (env_flags env) (match_sigs ok ss ks) (3 + length ks + length ss) (length ks + 2) stk
      = Inr (dummy # r)"
    using null len by (subst multisig_cleanup_eq) (auto simp: add.commute list_all_iff list_ex_iff)
  have nk: "num_arg env 4 (stk ! (1 - 1)) = Inr (int (length ks))" using n by (simp add: stk_def num_arg_serialize)
  have ns: "num_arg env 4 (stk ! (2 + length ks - 1)) = Inr (int (length ss))" using n by (simp only: kn) (simp add: num_arg_serialize)
  have g: "getint (int (length ks)) = int (length ks)" "getint (int (length ss)) = int (length ss)"
    using n by (simp_all add: getint_nat)
  have ar: "1 + 1 + length ks = 2 + length ks" "2 + length ks + 1 = 3 + length ks" "(1::nat) + 1 = 2" by simp_all
  have up: "pbegincodehash (st\<lparr>nOpCount := x\<rparr>) = pbegincodehash st" "nOpCount (st\<lparr>nOpCount := x\<rparr>) = x" for x by simp_all
  show ?thesis
    unfolding op_checkmultisig_def Let_def st nk and_then_def sum.case g nat_int ar ns up code loop clean
    using n ops len dummy by auto
qed


section \<open>Pay to public key hash\<close>

lemma GetOp_op: "unat b > OP_PUSHDATA4 \<Longrightarrow> GetOp (b # pc) = Some (pc, unat b, [])"
  by (simp add: GetOp_def GetOp2.simps(2))

lemma GetOp_push: "unat b = length h \<Longrightarrow> length h < OP_PUSHDATA1 \<Longrightarrow> GetOp (b # h @ pc) = Some (pc, length h, h)"
  by (simp add: GetOp_def GetOp2.simps(2))

lemma eval_loop_op:
  assumes "unat b > OP_16" "\<not> disabled_opcode (unat b)" "vfExec st = []" "nOpCount st < MAX_OPS_PER_SCRIPT"
  shows "eval_loop env (b # pc) st =
     and_then (eval_switch env (unat b) True pc (st\<lparr>nOpCount := nOpCount st + 1\<rparr>)) (\<lambda>st.
       if length (stack st) + length (altstack st) > MAX_STACK_SIZE then set_error SCRIPT_ERR_STACK_SIZE
       else eval_loop env pc st)"
  using assms GetOp_op [of b pc]
  by (subst eval_loop.simps) (simp add: eval_step_def and_then_def split: sum.split)

lemma eval_loop_push:
  assumes "unat b = length h" "1 < length h" "length h < OP_PUSHDATA1" "vfExec st = []"
  shows "eval_loop env (b # h @ pc) st =
     (if length (stack st) + length (altstack st) + 1 > MAX_STACK_SIZE then set_error SCRIPT_ERR_STACK_SIZE
      else eval_loop env pc (st\<lparr>stack := h # stack st\<rparr>))"
proof -
  have "CheckMinimalPush h (length h)" using assms by (auto simp: CheckMinimalPush_def)
  then show ?thesis using assms GetOp_push [OF assms(1,3), of pc]
    by (subst eval_loop.simps) (auto simp: eval_step_def and_then_def disabled_opcode_def)
qed

lemma p2wpkh_script_eq:
  "length h = 20 \<Longrightarrow> p2wpkh_script h = 0x76 # 0xa9 # 0x14 # h @ [0x88, 0xac]"
  by (simp add: p2wpkh_script_def push_vector_def)

lemma EvalScript_p2pkh:
  assumes "length h = 20" "length r + 4 \<le> MAX_STACK_SIZE"
  shows "EvalScript env (key # sig # r) (p2wpkh_script h) =
     (if Hash160 key \<noteq> h then set_error SCRIPT_ERR_EQUALVERIFY
      else and_then (check_encodings env sig key) (\<lambda>_.
           and_then (assert_some (CheckSig (chk env) sig key (drop_signature env sig (p2wpkh_script h)) (sigversion env))) (\<lambda>ok.
             if \<not> ok \<and> flag (env_flags env) SCRIPT_VERIFY_NULLFAIL \<and> sig \<noteq> [] then set_error SCRIPT_ERR_SIG_NULLFAIL
             else Inr (bool_vch ok # r))))"
proof -
  define S where "S = p2wpkh_script h"
  have S: "S = 0x76 # 0xa9 # 0x14 # h @ [0x88, 0xac]" using assms(1) by (simp add: S_def p2wpkh_script_eq)
  have hash: "hash_of_op OP_HASH160 key = Hash160 key" by (simp add: hash_of_op_spec Hash160_spec)
  have fin: "eval_loop env [] st = Inr st" for st by (simp add: eval_loop.simps)
  have push: "eval_loop env (0x14 # h @ pc) st =
     (if length (stack st) + length (altstack st) + 1 > MAX_STACK_SIZE then set_error SCRIPT_ERR_STACK_SIZE
      else eval_loop env pc (st\<lparr>stack := h # stack st\<rparr>))" if "vfExec st = []" for pc st
    using eval_loop_push [of "0x14" h st env pc] assms that by simp
  show ?thesis
    using assms unfolding S_def [symmetric] EvalScript_def
    by (simp add: S)
      (simp add: eval_loop_op push fin disabled_opcode_def eval_switch_def op_dup_def op_hash_def op_equal_def
        op_checksig_def and_then_def Let_def hash split: sum.split)
qed

section \<open>Strict DER signatures\<close>

text \<open>A positive big-endian integer in its shortest form.\<close>

definition der_integer :: "bytes \<Rightarrow> bool" where
  "der_integer x \<longleftrightarrow> x \<noteq> [] \<and> unat (hd x) < 128 \<and>
     (length x > 1 \<and> hd x = 0 \<longrightarrow> 128 \<le> unat (x ! 1))"

definition der_signature :: "bytes \<Rightarrow> bytes \<Rightarrow> byte \<Rightarrow> bytes" where
  "der_signature R S hashtype =
     [0x30, of_nat (length R + length S + 4), 0x02, of_nat (length R)] @ R
     @ [0x02, of_nat (length S)] @ S @ [hashtype]"

lemma byte_and_0x80_zero: "(b :: byte) AND 0x80 = 0 \<longleftrightarrow> unat b < 128"
  using byte_and_0x80 [of b] by linarith

lemma der_signature_valid:
  assumes "der_integer R" "der_integer S" "length R + length S + 7 \<le> 73"
  shows "IsValidSignatureEncoding (der_signature R S hashtype)"
proof -
  let ?sig = "der_signature R S hashtype"
  have byte: "unat (of_nat k :: byte) = k" if "k \<le> 73" for k
    using that by (simp add: unsigned_of_nat take_bit_nat_eq_self)
  have R: "R \<noteq> []" "hd R AND 0x80 = 0" "length R > 1 \<and> hd R = 0 \<Longrightarrow> R ! 1 AND 0x80 \<noteq> 0"
    using assms(1) by (auto simp: der_integer_def byte_and_0x80_zero)
  have S: "S \<noteq> []" "hd S AND 0x80 = 0" "length S > 1 \<and> hd S = 0 \<Longrightarrow> S ! 1 AND 0x80 \<noteq> 0"
    using assms(2) by (auto simp: der_integer_def byte_and_0x80_zero)
  have len: "length ?sig = length R + length S + 7" by (simp add: der_signature_def)
  have pos: "1 \<le> length R" "1 \<le> length S" using R(1) S(1) by (simp_all add: Suc_le_eq)
  have n: "?sig ! 0 = 0x30" "?sig ! 1 = of_nat (length R + length S + 4)" "?sig ! 2 = 0x02"
    "?sig ! 3 = of_nat (length R)" "?sig ! 4 = hd R" "length R > 1 \<Longrightarrow> ?sig ! 5 = R ! 1"
    "?sig ! (length R + 4) = 0x02" "?sig ! (5 + length R) = of_nat (length S)"
    "?sig ! (length R + 6) = hd S" "length S > 1 \<Longrightarrow> ?sig ! (length R + 7) = S ! 1"
    using R(1) S(1) by (simp_all add: der_signature_def nth_append hd_conv_nth numeral_eq_Suc)
  have b: "unat (?sig ! 1) = length ?sig - 3" "unat (?sig ! 3) = length R" "unat (?sig ! (5 + length R)) = length S"
    unfolding n len using assms(3) byte [of "length R + length S + 4"] byte [of "length R"] byte [of "length S"]
    by (simp_all del: of_nat_add)
  show ?thesis unfolding IsValidSignatureEncoding_def b Let_def n(1,3,5,7,9)
    using len assms(3) pos R(2,3) S(2,3) n(6,10) by auto
qed

lemma der_signature_exists:
  assumes v: "IsValidSignatureEncoding sig"
  shows "\<exists>R S hashtype. sig = der_signature R S hashtype \<and> der_integer R \<and> der_integer S \<and> length sig \<le> 73"
proof -
  define n where "n = unat (sig ! 3)"
  define m where "m = unat (sig ! (5 + n))"
  note V = v [unfolded IsValidSignatureEncoding_def Let_def, folded n_def, folded m_def]
  have c: "9 \<le> length sig" "length sig \<le> 73" "sig ! 0 = 0x30" "unat (sig ! 1) = length sig - 3"
    "n + m + 7 = length sig" "sig ! 2 = 0x02" "n \<noteq> 0" "sig ! 4 AND 0x80 = 0"
    "n > 1 \<and> sig ! 4 = 0 \<Longrightarrow> sig ! 5 AND 0x80 \<noteq> 0" "sig ! (n + 4) = 0x02" "m \<noteq> 0" "sig ! (n + 6) AND 0x80 = 0"
    "m > 1 \<and> sig ! (n + 6) = 0 \<Longrightarrow> sig ! (n + 7) AND 0x80 \<noteq> 0"
    using V by (auto split: if_splits)
  define R where "R = take n (drop 4 sig)"
  define S where "S = take m (drop (n + 6) sig)"
  have l: "length R = n" "length S = m" using c(5) by (simp_all add: R_def S_def)
  have cons: "drop i sig = sig ! i # drop (Suc i) sig" if "i < length sig" for i
    using Cons_nth_drop_Suc [OF that] by simp
  have d1: "sig = sig ! 0 # sig ! 1 # sig ! 2 # sig ! 3 # drop 4 sig"
    using cons [of 0] cons [of 1] cons [of 2] cons [of 3] c(1) by (cases "sig = []") (simp_all add: eval_nat_numeral)
  have d2: "drop 4 sig = R @ drop (n + 4) sig"
    unfolding R_def by (metis append_take_drop_id drop_drop)
  have d3: "drop (n + 4) sig = sig ! (n + 4) # sig ! (5 + n) # drop (n + 6) sig"
    using cons [of "n + 4"] cons [of "n + 5"] c(5) by (simp add: eval_nat_numeral)
  have d4: "drop (n + 6) sig = S @ drop (m + (n + 6)) sig"
    unfolding S_def by (metis append_take_drop_id drop_drop)
  have d5: "drop (m + (n + 6)) sig = [sig ! (m + (n + 6))]"
    using cons [of "m + (n + 6)"] c(5) by simp
  have "sig = der_signature R S (sig ! (m + (n + 6)))"
    unfolding der_signature_def l
  proof -
    have "sig ! 3 = of_nat n" "sig ! (5 + n) = of_nat m" by (simp_all add: n_def m_def of_nat_unat)
    moreover have "of_nat (unat (sig ! 1)) = sig ! 1" by (simp add: of_nat_unat)
    moreover have "unat (sig ! 1) = n + m + 4" using c(4,5) by simp
    ultimately have s: "sig ! 3 = of_nat n" "sig ! (5 + n) = of_nat m" "sig ! 1 = of_nat (n + m + 4)"
      by (simp_all del: of_nat_add)
    have "sig = sig ! 0 # sig ! 1 # sig ! 2 # sig ! 3 # R @ sig ! (n + 4) # sig ! (5 + n) # S @ [sig ! (m + (n + 6))]"
      using d1 unfolding d2 d3 d4 d5 .
    then show "sig = [0x30, of_nat (n + m + 4), 0x02, of_nat n] @ R @ [0x02, of_nat m] @ S @ [sig ! (m + (n + 6))]"
      unfolding s c(3,6,10) by simp
  qed
  moreover have "der_integer R"
    using c(1,5,7,8,9) by (auto simp: der_integer_def R_def hd_conv_nth byte_and_0x80_zero)
  moreover have "der_integer S"
    using c(5,11,12,13) by (auto simp: der_integer_def S_def hd_conv_nth byte_and_0x80_zero add.commute [of n])
  ultimately show ?thesis using c(2) by blast
qed

lemma IsValidSignatureEncoding_iff:
  "IsValidSignatureEncoding sig \<longleftrightarrow>
     (\<exists>R S hashtype. sig = der_signature R S hashtype \<and> der_integer R \<and> der_integer S \<and> length sig \<le> 73)"
  using der_signature_exists der_signature_valid by (auto simp: der_signature_def)


section \<open>Truth of a stack element\<close>

lemma CastToBool_snoc: "CastToBool (v @ [b]) \<longleftrightarrow> list_ex (\<lambda>x. x \<noteq> 0) v \<or> (b \<noteq> 0 \<and> b \<noteq> 0x80)"
  by (induction v) auto

lemma le_nat_zero: "le_nat v = 0 \<longleftrightarrow> \<not> list_ex (\<lambda>x. x \<noteq> 0) v"
  by (induction v) (auto simp: word_unat_eq_iff)

lemma CastToBool_set_vch:
  assumes "length v \<le> 8"
  shows "CastToBool v \<longleftrightarrow> set_vch v \<noteq> 0"
proof (cases "v = []")
  case False
  then obtain xs x where v: "v = xs @ [x]" by (meson rev_exhaust)
  let ?p = "(256::nat) ^ length xs"
  have x: "x = 0 \<longleftrightarrow> unat x = 0" "x = 0x80 \<longleftrightarrow> unat x = 128" by (simp_all add: word_unat_eq_iff)
  have sv: "set_vch v = (if 128 \<le> unat x then - (int (le_nat xs + ?p * unat x) - int (128 * ?p)) else int (le_nat xs + ?p * unat x))"
    using set_vch_val [OF False assms] by (simp add: v le_nat_append)
  show ?thesis
  proof (cases "128 \<le> unat x")
    case True
    then obtain k where k: "unat x = 128 + k" using le_Suc_ex by blast
    have "set_vch v = - int (le_nat xs + ?p * k)" unfolding sv k by (simp add: algebra_simps)
    then have "set_vch v = 0 \<longleftrightarrow> le_nat xs + ?p * k = 0" by (simp del: of_nat_add of_nat_mult)
    then show ?thesis unfolding v CastToBool_snoc x k using le_nat_zero [of xs] by simp
  next
    case False
    then have "set_vch v = 0 \<longleftrightarrow> le_nat xs + ?p * unat x = 0" unfolding sv by (simp del: of_nat_add of_nat_mult)
    then show ?thesis unfolding v CastToBool_snoc x using False le_nat_zero [of xs] by simp
  qed
qed (simp add: set_vch_def)

section \<open>Properties\<close>



text \<open>
  C14: Pay-to-public-key-hash spends.  The template \<^verbatim>\<open>DUP HASH160 h EQUALVERIFY CHECKSIG\<close> run on a key
  and a signature fails with \<^verbatim>\<open>SCRIPT_ERR_EQUALVERIFY\<close> unless the key hashes to \<open>h\<close>; otherwise the
  outcome is that of the encoding rules and of one signature check over the template itself, with a
  failed check of a non-empty signature an error under \<^verbatim>\<open>NULLFAIL\<close>.
\<close>
theorem EvalScript_pay_to_pubkey_hash:
  assumes "length h = 20" "length r + 4 \<le> MAX_STACK_SIZE"
  shows "EvalScript env (key # sig # r) (p2wpkh_script h) =
     (if Hash160 key \<noteq> h then set_error SCRIPT_ERR_EQUALVERIFY
      else and_then (check_encodings env sig key) (\<lambda>_.
           and_then (assert_some (CheckSig (chk env) sig key (drop_signature env sig (p2wpkh_script h)) (sigversion env))) (\<lambda>ok.
             if \<not> ok \<and> flag (env_flags env) SCRIPT_VERIFY_NULLFAIL \<and> sig \<noteq> [] then set_error SCRIPT_ERR_SIG_NULLFAIL
             else Inr (bool_vch ok # r))))"
  using EvalScript_p2pkh [OF assms] .

theorem EvalScript_pay_to_pubkey_hash_witness:
  "\<exists>env h. length h = 20 \<and> EvalScript env [[2], [1]] (p2wpkh_script h) = Inr [bool_vch False]"
proof -
  let ?env = "\<lparr>env_flags = 0, chk = BaseSignatureChecker, sigversion = SIGVERSION_BASE, CheckLowS = \<lambda>_. True\<rparr>"
  have h: "length (Hash160 [2]) = 20" by (simp add: Hash160_spec)
  have enc: "check_encodings ?env [1] [2] = Inr ()"
    by (simp add: check_encodings_def CheckSignatureEncoding_def CheckPubKeyEncoding_def flag_def and_then_def)
  have "EvalScript ?env [[2], [1]] (p2wpkh_script (Hash160 [2])) = Inr [bool_vch False]"
    using EvalScript_pay_to_pubkey_hash [OF h, of "[]" ?env "[2]" "[1]"] enc
    by (simp add: and_then_def assert_some_def BaseSignatureChecker_def flag_def)
  with h show ?thesis by blast
qed


text \<open>
  The truth value of a stack element agrees with its value as a number: for up to 8 bytes
  \<^verbatim>\<open>CastToBool\<close> holds exactly when \<^verbatim>\<open>set_vch\<close> is not zero, negative zero included.
\<close>
theorem CastToBool_nonzero:
  assumes "length v \<le> 8"
  shows "CastToBool v \<longleftrightarrow> set_vch v \<noteq> 0"
  using CastToBool_set_vch [OF assms] .

theorem CastToBool_nonzero_witness:
  "(CastToBool [0, 0x80] \<longleftrightarrow> set_vch [0, 0x80] \<noteq> 0) \<and> \<not> CastToBool [0, 0x80]"
proof -
  have "\<not> CastToBool [0, 0x80]" by code_simp
  then show ?thesis using CastToBool_nonzero [of "[0, 0x80]"] by simp
qed

end
