(* ===== verification/Serialize.thy ===== *)
theory Serialize
  imports Common
begin

text \<open>
  Binary serialization (\<^verbatim>\<open>src/serialize.h\<close>, and the reads of \<^verbatim>\<open>CDataStream\<close> in \<^verbatim>\<open>src/streams.h\<close>):
  fixed-width integers, compact sizes, variable-length integers, byte vectors, vectors and pairs.

  Writing an object yields the bytes appended to the stream.  Reading takes the unread bytes and
  yields the object and the bytes left, or the exception thrown.  The interface between a type and
  its users is the locale \<open>codec\<close>: what is written can be read back, whatever follows it on the
  stream.  Types whose reader accepts no other encoding satisfy \<open>canonical_codec\<close> as well.
\<close>

unbundle bit_operations_syntax

section \<open>Streams\<close>

datatype ser_error =
  EndOfData | NonCanonicalCompactSize | CompactSizeTooLarge | VarIntTooLarge | StringTooLong | UnknownOptionalData

type_synonym 'a reader = "bytes \<Rightarrow> ser_error + 'a \<times> bytes"

definition ret :: "'a \<Rightarrow> 'a reader" where
  "ret x s = Inr (x, s)"

definition fail :: "ser_error \<Rightarrow> 'a reader" where
  "fail e s = Inl e"

definition then_read :: "'a reader \<Rightarrow> ('a \<Rightarrow> 'b reader) \<Rightarrow> 'b reader" where
  "then_read r f s = (case r s of Inl e \<Rightarrow> Inl e | Inr (x, s') \<Rightarrow> f x s')"

definition stream_read :: "nat \<Rightarrow> bytes reader" where
  "stream_read nSize s =
     (if nSize = 0 then Inr ([], s)
      else if nSize > length s then Inl EndOfData
      else Inr (take nSize s, drop nSize s))"

section \<open>Integers\<close>

definition ser_writedata8 :: "byte \<Rightarrow> bytes" where "ser_writedata8 obj = [obj]"
definition ser_writedata16 :: "u16 \<Rightarrow> bytes" where "ser_writedata16 obj = WriteLE16 obj"
definition ser_writedata32 :: "u32 \<Rightarrow> bytes" where "ser_writedata32 obj = WriteLE32 obj"
definition ser_writedata64 :: "u64 \<Rightarrow> bytes" where "ser_writedata64 obj = WriteLE64 obj"

definition ser_readdata8 :: "byte reader" where
  "ser_readdata8 = then_read (stream_read 1) (\<lambda>obj. ret (hd obj))"

definition ser_readdata16 :: "u16 reader" where
  "ser_readdata16 = then_read (stream_read 2) (\<lambda>obj. ret (ReadLE16 obj))"

definition ser_readdata32 :: "u32 reader" where
  "ser_readdata32 = then_read (stream_read 4) (\<lambda>obj. ret (ReadLE32 obj))"

definition ser_readdata64 :: "u64 reader" where
  "ser_readdata64 = then_read (stream_read 8) (\<lambda>obj. ret (ReadLE64 obj))"

text \<open>The signed integers are converted to and from the unsigned type of the same width.\<close>

definition int32_range :: "int \<Rightarrow> bool" where
  "int32_range v \<longleftrightarrow> - (2 ^ 31) \<le> v \<and> v < 2 ^ 31"

definition Serialize_int32 :: "int \<Rightarrow> bytes" where
  "Serialize_int32 a = ser_writedata32 (word_of_int a)"

definition Unserialize_int32 :: "int reader" where
  "Unserialize_int32 = then_read ser_readdata32 (\<lambda>a. ret (sint a))"

definition Serialize_int64 :: "int \<Rightarrow> bytes" where
  "Serialize_int64 a = ser_writedata64 (word_of_int a)"

definition Unserialize_int64 :: "int reader" where
  "Unserialize_int64 = then_read ser_readdata64 (\<lambda>a. ret (sint a))"

definition Serialize_bool :: "bool \<Rightarrow> bytes" where
  "Serialize_bool a = ser_writedata8 (if a then 1 else 0)"

definition Unserialize_bool :: "bool reader" where
  "Unserialize_bool = then_read ser_readdata8 (\<lambda>f. ret (f \<noteq> 0))"

section \<open>Compact sizes\<close>

abbreviation (input) MAX_SIZE :: nat where "MAX_SIZE \<equiv> 0x02000000"

definition GetSizeOfCompactSize :: "u64 \<Rightarrow> nat" where
  "GetSizeOfCompactSize nSize =
     (if nSize < 253 then 1 else if nSize \<le> 0xffff then 1 + 2 else if nSize \<le> 0xffffffff then 1 + 4 else 1 + 8)"

definition WriteCompactSize :: "u64 \<Rightarrow> bytes" where
  "WriteCompactSize nSize =
     (if nSize < 253 then ser_writedata8 (ucast nSize)
      else if nSize \<le> 0xffff then ser_writedata8 253 @ ser_writedata16 (ucast nSize)
      else if nSize \<le> 0xffffffff then ser_writedata8 254 @ ser_writedata32 (ucast nSize)
      else ser_writedata8 255 @ ser_writedata64 nSize)"

definition ReadCompactSize :: "u64 reader" where
  "ReadCompactSize =
     then_read ser_readdata8 (\<lambda>chSize.
       then_read
         (if chSize < 253 then ret (ucast chSize)
          else if chSize = 253 then
            then_read ser_readdata16 (\<lambda>n. if (ucast n :: u64) < 253 then fail NonCanonicalCompactSize else ret (ucast n))
          else if chSize = 254 then
            then_read ser_readdata32 (\<lambda>n. if (ucast n :: u64) < 0x10000 then fail NonCanonicalCompactSize else ret (ucast n))
          else
            then_read ser_readdata64 (\<lambda>n. if n < 0x100000000 then fail NonCanonicalCompactSize else ret n))
         (\<lambda>nSizeRet. if nSizeRet > of_nat MAX_SIZE then fail CompactSizeTooLarge else ret nSizeRet))"

section \<open>Variable-length integers\<close>

text \<open>
  The loop of \<^verbatim>\<open>WriteVarInt\<close> fills the array \<^verbatim>\<open>tmp\<close> from the low-order digit, which alone has its top
  bit clear; the array is then written backwards.
\<close>

function varint_tmp :: "'a::len word \<Rightarrow> bool \<Rightarrow> bytes" where
  "varint_tmp n len =
     (let b = ucast (n AND 0x7F) OR (if len then 0x80 else 0x00)
      in if n \<le> 0x7F then [b] else b # varint_tmp (drop_bit 7 n - 1) True)"
  by auto

definition WriteVarInt :: "'a::len word \<Rightarrow> bytes" where
  "WriteVarInt n = rev (varint_tmp n False)"

function GetSizeOfVarInt :: "'a::len word \<Rightarrow> nat" where
  "GetSizeOfVarInt n = (if n \<le> 0x7F then 1 else Suc (GetSizeOfVarInt (drop_bit 7 n - 1)))"
  by auto

fun read_varint :: "'a::len word \<Rightarrow> 'a word reader" where
  "read_varint n [] = Inl EndOfData"
| "read_varint n (chData # is) =
     (if n > drop_bit 7 (- 1) then Inl VarIntTooLarge
      else let n = push_bit 7 n OR ucast (chData AND 0x7F)
      in if chData AND 0x80 \<noteq> 0 then (if n = - 1 then Inl VarIntTooLarge else read_varint (n + 1) is)
         else Inr (n, is))"

definition ReadVarInt :: "'a::len word reader" where
  "ReadVarInt = read_varint 0"

section \<open>Vectors, strings and pairs\<close>

text \<open>Byte vectors are read in blocks of at most 5000000 bytes.\<close>

definition Serialize_bytes :: "bytes \<Rightarrow> bytes" where
  "Serialize_bytes v = WriteCompactSize (of_nat (length v)) @ v"

function read_blocks :: "nat \<Rightarrow> nat \<Rightarrow> bytes \<Rightarrow> bytes reader" where
  "read_blocks nSize i v is =
     (if i < nSize then
        let blk = min (nSize - i) (1 + 4999999)
        in case stream_read blk is of Inl e \<Rightarrow> Inl e | Inr (b, is) \<Rightarrow> read_blocks nSize (i + blk) (v @ b) is
      else Inr (v, is))"
  by auto
termination by (relation "measure (\<lambda>(nSize, i, v, is). nSize - i)") auto

definition Unserialize_bytes :: "bytes reader" where
  "Unserialize_bytes = then_read ReadCompactSize (\<lambda>nSize. read_blocks (unat nSize) 0 [])"

text \<open>
  Vectors of objects: the elements are read one after the other.  The intermediate sizes \<^verbatim>\<open>nMid\<close> of
  the loop only bound how far the vector is allocated ahead of the reads.
\<close>

definition Serialize_vector :: "('a \<Rightarrow> bytes) \<Rightarrow> 'a list \<Rightarrow> bytes" where
  "Serialize_vector ser v = WriteCompactSize (of_nat (length v)) @ concat (map ser v)"

primrec Unserialize_elems :: "'a reader \<Rightarrow> nat \<Rightarrow> 'a list reader" where
  "Unserialize_elems r 0 = ret []"
| "Unserialize_elems r (Suc k) = then_read r (\<lambda>x. then_read (Unserialize_elems r k) (\<lambda>xs. ret (x # xs)))"

definition Unserialize_vector :: "'a reader \<Rightarrow> 'a list reader" where
  "Unserialize_vector r = then_read ReadCompactSize (\<lambda>nSize. Unserialize_elems r (unat nSize))"

definition LimitedString_Unserialize :: "nat \<Rightarrow> bytes reader" where
  "LimitedString_Unserialize limit =
     then_read ReadCompactSize (\<lambda>size. if unat size > limit then fail StringTooLong else stream_read (unat size))"

definition Serialize_pair :: "('a \<Rightarrow> bytes) \<Rightarrow> ('b \<Rightarrow> bytes) \<Rightarrow> 'a \<times> 'b \<Rightarrow> bytes" where
  "Serialize_pair f g item = f (fst item) @ g (snd item)"

definition Unserialize_pair :: "'a reader \<Rightarrow> 'b reader \<Rightarrow> ('a \<times> 'b) reader" where
  "Unserialize_pair f g = then_read f (\<lambda>x. then_read g (\<lambda>y. ret (x, y)))"

section \<open>The codec interface\<close>

named_theorems reads \<open>reading back what was written\<close>

lemma reader_simps [simp]: "ret x s = Inr (x, s)" "fail e s = Inl e"
  by (simp_all add: ret_def fail_def)

lemma then_read_Inr_iff:
  "then_read r f s = Inr (y, t) \<longleftrightarrow> (\<exists>x s'. r s = Inr (x, s') \<and> f x s' = Inr (y, t))"
  by (auto simp: then_read_def split: sum.splits)

locale codec =
  fixes ser :: "'a \<Rightarrow> bytes" and unser :: "'a reader" and ok :: "'a \<Rightarrow> bool"
  assumes unser_ser: "ok x \<Longrightarrow> unser (ser x @ r) = Inr (x, r)"
begin

lemma ser_inj:
  assumes "ok x" "ok y" "ser x @ r = ser y @ t"
  shows "x = y \<and> r = t"
  using unser_ser [OF assms(1), of r] unfolding assms(3) unser_ser [OF assms(2), of t] by blast

lemma elems_ser: "list_all ok xs \<Longrightarrow> Unserialize_elems unser (length xs) (concat (map ser xs) @ r) = Inr (xs, r)"
  by (induction xs) (simp_all add: unser_ser then_read_def)

end

locale canonical_codec = codec +
  assumes ser_unser: "unser s = Inr (x, r) \<Longrightarrow> s = ser x @ r \<and> ok x"
begin

lemma unser_iff: "unser s = Inr (x, r) \<longleftrightarrow> s = ser x @ r \<and> ok x"
proof
  assume "unser s = Inr (x, r)"
  then show "s = ser x @ r \<and> ok x" by (rule ser_unser)
next
  assume "s = ser x @ r \<and> ok x"
  then show "unser s = Inr (x, r)" by (simp add: unser_ser)
qed

lemma elems_unser:
  "Unserialize_elems unser n s = Inr (xs, r) \<Longrightarrow> s = concat (map ser xs) @ r \<and> list_all ok xs \<and> length xs = n"
proof (induction n arbitrary: s xs r)
  case (Suc n)
  from Suc.prems obtain x s' ys where "unser s = Inr (x, s')" "Unserialize_elems unser n s' = Inr (ys, r)" "xs = x # ys"
    by (auto simp: then_read_Inr_iff)
  note h = this
  have "s = ser x @ s'" "ok x" using ser_unser [OF h(1)] by blast+
  moreover have "s' = concat (map ser ys) @ r" "list_all ok ys" "length ys = n" using Suc.IH [OF h(2)] by blast+
  ultimately show ?case using h(3) by simp
qed simp

end

section \<open>Termination of the digit loops\<close>

lemma unat_0x7F: "LENGTH('a) \<ge> 7 \<Longrightarrow> unat (0x7F :: 'a::len word) = 127"
proof -
  assume "LENGTH('a) \<ge> 7"
  then have "(2::nat) ^ 7 \<le> 2 ^ LENGTH('a)" by (intro power_increasing) simp_all
  then have "(127::nat) < 2 ^ LENGTH('a)" by simp
  then have "unat (of_nat 127 :: 'a word) = 127" by (simp only: unat_of_nat mod_less)
  then show ?thesis by simp
qed

lemma unat_drop_bit_7: "unat (drop_bit 7 (n :: 'a::len word)) = unat n div 128"
  by (simp add: unsigned_drop_bit_eq drop_bit_eq_div [where 'a = nat] take_bit_nat_eq_self)

lemma varint_decr:
  assumes "\<not> (n :: 'a::len word) \<le> 0x7F"
  shows "unat (drop_bit 7 n - 1) = unat n div 128 - 1" "128 \<le> unat n"
proof -
  have L: "LENGTH('a) \<ge> 7"
  proof (rule ccontr)
    assume "\<not> LENGTH('a) \<ge> 7"
    then have "take_bit LENGTH('a) (0x7F :: int) = mask LENGTH('a)"
      using take_bit_of_mask [of "LENGTH('a)" 7, where 'a = int] by (simp add: mask_eq_exp_minus_1 min_def)
    then have "(0x7F :: 'a word) = - 1" by (metis of_int_numeral of_int_mask_eq word_of_int_eq_iff take_bit_of_mask min.idem minus_1_eq_mask)
    then show False using assms word_n1_ge [of n] by (simp only: not_True_eq_False)
  qed
  show u: "128 \<le> unat n" using assms unat_0x7F [OF L] by (simp add: word_le_nat_alt)
  have "1 \<le> unat n div 128" using u by (simp add: Suc_le_eq div_greater_zero_iff)
  then show "unat (drop_bit 7 n - 1) = unat n div 128 - 1"
    by (simp add: unat_sub word_le_nat_alt unat_drop_bit_7)
qed

termination varint_tmp
proof (relation "measure (\<lambda>(n, len). unat n)")
  fix n :: "'a word" and len :: bool and b :: byte
  assume "\<not> n \<le> 0x7F"
  from varint_decr [OF this] have "unat (drop_bit 7 n - 1) < unat n" by linarith
  then show "((drop_bit 7 n - 1, True), n, len) \<in> measure (\<lambda>(n, len). unat n)" by simp
qed simp

termination GetSizeOfVarInt
proof (relation "measure unat")
  fix n :: "'a word"
  assume "\<not> n \<le> 0x7F"
  from varint_decr [OF this] have "unat (drop_bit 7 n - 1) < unat n" by linarith
  then show "(drop_bit 7 n - 1, n) \<in> measure unat" by simp
qed simp

declare varint_tmp.simps [simp del] GetSizeOfVarInt.simps [simp del] read_blocks.simps [simp del]

section \<open>Codecs of the integers\<close>

lemma WriteLE_ReadLE:
  "length p = 2 \<Longrightarrow> WriteLE16 (ReadLE16 p) = p" "length p = 4 \<Longrightarrow> WriteLE32 (ReadLE32 p) = p"
  "length p = 8 \<Longrightarrow> WriteLE64 (ReadLE64 p) = p"
  using le_bytes_le_nat [of p] le_nat_less [of p]
  by (simp_all add: WriteLE16_def WriteLE32_def WriteLE64_def ReadLE16_def ReadLE32_def ReadLE64_def
    unsigned_of_nat take_bit_nat_eq_self)

lemma stream_read_append [simp]: "stream_read (length a) (a @ r) = Inr (a, r)"
  by (simp add: stream_read_def)

lemma stream_read_Inr: "stream_read n s = Inr (a, r) \<longleftrightarrow> s = a @ r \<and> length a = n"
  by (auto simp: stream_read_def)

lemma then_stream_read_append: "length a = n \<Longrightarrow> then_read (stream_read n) f (a @ r) = f a r"
  using stream_read_append [of a r] by (simp add: then_read_def)

interpretation u8: canonical_codec ser_writedata8 ser_readdata8 "\<lambda>_. True"
  by unfold_locales
    (auto simp: ser_writedata8_def ser_readdata8_def then_stream_read_append [of "[_]", simplified]
      then_read_Inr_iff stream_read_Inr length_Suc_conv)

interpretation u16: canonical_codec ser_writedata16 ser_readdata16 "\<lambda>_. True"
  by unfold_locales
    (auto simp: ser_writedata16_def ser_readdata16_def then_stream_read_append ReadLE_WriteLE [where r = "[]", simplified]
      then_read_Inr_iff stream_read_Inr WriteLE_ReadLE)

interpretation u32: canonical_codec ser_writedata32 ser_readdata32 "\<lambda>_. True"
  by unfold_locales
    (auto simp: ser_writedata32_def ser_readdata32_def then_stream_read_append ReadLE_WriteLE [where r = "[]", simplified]
      then_read_Inr_iff stream_read_Inr WriteLE_ReadLE)

interpretation u64: canonical_codec ser_writedata64 ser_readdata64 "\<lambda>_. True"
  by unfold_locales
    (auto simp: ser_writedata64_def ser_readdata64_def then_stream_read_append ReadLE_WriteLE [where r = "[]", simplified]
      then_read_Inr_iff stream_read_Inr WriteLE_ReadLE)

lemmas int_codecs [reads] = u8.unser_ser [OF TrueI] u16.unser_ser [OF TrueI] u32.unser_ser [OF TrueI] u64.unser_ser [OF TrueI]


lemma sint_word_of_int:
  "- (2 ^ 31) \<le> v \<Longrightarrow> v < 2 ^ 31 \<Longrightarrow> sint (word_of_int v :: u32) = v"
  "int64_range v \<Longrightarrow> sint (word_of_int v :: u64) = v"
  by (simp_all add: int64_range_def signed_of_int signed_take_bit_int_eq_self)

lemma sint_range: "int32_range (sint (w :: u32))" "int64_range (sint (x :: u64))"
  using sint_greater_eq [of w] sint_less [of w] sint_greater_eq [of x] sint_less [of x]
  by (simp_all add: int32_range_def int64_range_def)

interpretation i32: canonical_codec Serialize_int32 Unserialize_int32 int32_range
proof
  show "int32_range x \<Longrightarrow> Unserialize_int32 (Serialize_int32 x @ r) = Inr (x, r)" for x r
    by (simp add: Serialize_int32_def Unserialize_int32_def then_read_def reads int32_range_def sint_word_of_int)
  show "Unserialize_int32 s = Inr (x, r) \<Longrightarrow> s = Serialize_int32 x @ r \<and> int32_range x" for s x r
    by (auto simp: Serialize_int32_def Unserialize_int32_def then_read_Inr_iff sint_range dest: u32.ser_unser)
qed

interpretation i64: canonical_codec Serialize_int64 Unserialize_int64 int64_range
proof
  show "int64_range x \<Longrightarrow> Unserialize_int64 (Serialize_int64 x @ r) = Inr (x, r)" for x r
    by (simp add: Serialize_int64_def Unserialize_int64_def then_read_def reads sint_word_of_int)
  show "Unserialize_int64 s = Inr (x, r) \<Longrightarrow> s = Serialize_int64 x @ r \<and> int64_range x" for s x r
    by (auto simp: Serialize_int64_def Unserialize_int64_def then_read_Inr_iff sint_range dest: u64.ser_unser)
qed

interpretation bl: codec Serialize_bool Unserialize_bool "\<lambda>_. True"
  by unfold_locales (simp add: Serialize_bool_def Unserialize_bool_def then_read_def reads)

section \<open>Compact sizes are canonical\<close>

lemma unat_ucast_up: "LENGTH('a::len) \<le> LENGTH('b::len) \<Longrightarrow> unat (ucast (x :: 'a word) :: 'b word) = unat x"
proof -
  assume "LENGTH('a) \<le> LENGTH('b)"
  then have "unat x < 2 ^ LENGTH('b)"
    by (intro less_le_trans [OF unsigned_less power_increasing]) simp_all
  then show ?thesis by (simp only: unsigned_ucast_eq take_bit_nat_eq_self)
qed

lemma ucast_back:
  assumes "unat (x :: u64) < 2 ^ LENGTH('b::len)" "LENGTH('b) \<le> 64"
  shows "ucast (ucast x :: 'b word) = x"
proof -
  have "unat (ucast x :: 'b word) = unat x" using assms(1) by (simp only: unsigned_ucast_eq take_bit_nat_eq_self)
  then have "unat (ucast (ucast x :: 'b word) :: u64) = unat x"
    using assms(2) unat_ucast_up [of "ucast x :: 'b word", where 'b = 64] by (simp only: len_of_numeral_defs)
  then show ?thesis by (simp only: word_unat_eq_iff)
qed

lemma ucast_down: "ucast (ucast (x :: byte) :: u64) = x" "ucast (ucast (y :: u16) :: u64) = y" "ucast (ucast (z :: u32) :: u64) = z"
  by (rule bit_word_eqI, simp add: bit_ucast_iff)+

lemma compact_chain:
  "unat n < 253 \<Longrightarrow> WriteCompactSize n = ser_writedata8 (ucast n)"
  "253 \<le> unat n \<Longrightarrow> unat n < 2 ^ 16 \<Longrightarrow> WriteCompactSize n = ser_writedata8 253 @ ser_writedata16 (ucast n)"
  "2 ^ 16 \<le> unat n \<Longrightarrow> unat n < 2 ^ 32 \<Longrightarrow> WriteCompactSize n = ser_writedata8 254 @ ser_writedata32 (ucast n)"
  "2 ^ 32 \<le> unat n \<Longrightarrow> WriteCompactSize n = ser_writedata8 255 @ ser_writedata64 n"
  by (simp_all add: WriteCompactSize_def word_less_nat_alt word_le_nat_alt)

lemma ReadCompactSize_WriteCompactSize:
  assumes "unat n \<le> MAX_SIZE"
  shows "ReadCompactSize (WriteCompactSize n @ r) = Inr (n, r)"
proof -
  consider "unat n < 253" | "253 \<le> unat n" "unat n < 2 ^ 16" | "2 ^ 16 \<le> unat n" "unat n < 2 ^ 32"
    using assms by (force simp: not_less)
  then show ?thesis
  proof cases
    case 1
    then have b: "ucast (ucast n :: byte) = n" by (intro ucast_back) simp_all
    then have "unat (ucast n :: byte) < 253" using 1 unat_ucast_up [of "ucast n :: byte", where 'b = 64] by simp
    then show ?thesis using 1 assms b
      by (simp add: compact_chain ReadCompactSize_def then_read_def reads word_less_nat_alt)
  next
    case 2
    have "ucast (ucast n :: u16) = n" using 2 by (intro ucast_back) simp_all
    then show ?thesis using 2 assms by (simp add: compact_chain ReadCompactSize_def then_read_def reads word_less_nat_alt)
  next
    case 3
    have "ucast (ucast n :: u32) = n" using 3 by (intro ucast_back) simp_all
    then show ?thesis using 3 assms by (simp add: compact_chain ReadCompactSize_def then_read_def reads word_less_nat_alt)
  qed
qed

lemma ReadCompactSize_canonical:
  assumes "ReadCompactSize s = Inr (n, r)"
  shows "s = WriteCompactSize n @ r \<and> unat n \<le> MAX_SIZE"
proof -
  obtain c s' where c: "ser_readdata8 s = Inr (c, s')"
    and m: "unat n \<le> MAX_SIZE"
    and rest: "(if c < 253 then ret (ucast c)
          else if c = 253 then
            then_read ser_readdata16 (\<lambda>n. if (ucast n :: u64) < 253 then fail NonCanonicalCompactSize else ret (ucast n))
          else if c = 254 then
            then_read ser_readdata32 (\<lambda>n. if (ucast n :: u64) < 0x10000 then fail NonCanonicalCompactSize else ret (ucast n))
          else
            then_read ser_readdata64 (\<lambda>n. if n < 0x100000000 then fail NonCanonicalCompactSize else ret n)) s' = Inr (n, r)"
    using assms by (auto simp: ReadCompactSize_def then_read_Inr_iff word_less_nat_alt split: if_splits)
  have s: "s = ser_writedata8 c @ s'" using u8.ser_unser [OF c] by blast
  consider "c < 253" | "c = 253" | "c = 254" | "c = 255"
  proof -
    have "unat c < 253 \<or> unat c = 253 \<or> unat c = 254 \<or> unat c = 255" using unat_byte_less [of c] by linarith
    then show ?thesis using that by (auto simp: word_less_nat_alt word_unat_eq_iff)
  qed
  then show ?thesis
  proof cases
    case 1
    then have "n = ucast c" "s' = r" using rest by auto
    moreover have "unat (ucast c :: u64) < 253" using 1 by (simp add: unat_ucast_up word_less_nat_alt)
    moreover have "ucast (ucast c :: u64) = c" by (rule ucast_down)
    ultimately show ?thesis using s m by (simp add: compact_chain)
  next
    case 2
    then obtain k where k: "ser_readdata16 s' = Inr (k, r)" "n = ucast k" "\<not> unat n < 253"
      using rest by (auto simp: then_read_Inr_iff word_less_nat_alt split: if_splits)
    have "unat n < 2 ^ 16" using k(2) unsigned_less [of k] by (simp add: unat_ucast_up)
    moreover have "ucast n = k" using k(2) ucast_down by blast
    ultimately show ?thesis using s m k u16.ser_unser [OF k(1)] 2 by (simp add: compact_chain)
  next
    case 3
    then obtain k where k: "ser_readdata32 s' = Inr (k, r)" "n = ucast k" "\<not> unat n < 2 ^ 16"
      using rest by (auto simp: then_read_Inr_iff word_less_nat_alt split: if_splits)
    have "unat n < 2 ^ 32" using k(2) unsigned_less [of k] by (simp add: unat_ucast_up)
    moreover have "ucast n = k" using k(2) ucast_down by blast
    ultimately show ?thesis using s m k u32.ser_unser [OF k(1)] 3 by (simp add: compact_chain)
  next
    case 4
    then have "\<not> unat n < 2 ^ 32"
      using rest by (auto simp: then_read_Inr_iff word_less_nat_alt split: if_splits)
    then show ?thesis using m by simp
  qed
qed

interpretation compact: canonical_codec WriteCompactSize ReadCompactSize "\<lambda>n. unat n \<le> MAX_SIZE"
  using ReadCompactSize_WriteCompactSize ReadCompactSize_canonical by unfold_locales blast+


lemma length_WriteCompactSize: "length (WriteCompactSize n) = GetSizeOfCompactSize n"
  by (simp add: WriteCompactSize_def GetSizeOfCompactSize_def ser_writedata8_def ser_writedata16_def
    ser_writedata32_def ser_writedata64_def)

section \<open>Byte vectors, vectors and pairs\<close>

text \<open>Reading in blocks has the same outcome as one read of the whole size.\<close>

lemma read_blocks_stream_read:
  "i \<le> nSize \<Longrightarrow> read_blocks nSize i v is =
     (case stream_read (nSize - i) is of Inl e \<Rightarrow> Inl e | Inr (b, is) \<Rightarrow> Inr (v @ b, is))"
proof (induction nSize i v "is" rule: read_blocks.induct)
  case (1 nSize i v s)
  show ?case
  proof (cases "i < nSize")
    case True
    let ?k = "min (nSize - i) (1 + 4999999)"
    have k: "0 < ?k" "?k \<le> nSize - i" using True by auto
    show ?thesis
    proof (cases "?k \<le> length s")
      case False
      then have "stream_read ?k s = Inl EndOfData" "stream_read (nSize - i) s = Inl EndOfData"
        using k by (auto simp: stream_read_def)
      then show ?thesis using True by (simp add: read_blocks.simps [of nSize i])
    next
      case enough: True
      then have "?k \<noteq> 0" "\<not> ?k > length s" using k(1) by linarith+
      then have r: "stream_read ?k s = Inr (take ?k s, drop ?k s)" by (simp only: stream_read_def if_False)
      have "read_blocks nSize i v s = read_blocks nSize (i + ?k) (v @ take ?k s) (drop ?k s)"
        unfolding read_blocks.simps [of nSize i] Let_def using True by (simp only: r if_True sum.case prod.case)
      also have "\<dots> = (case stream_read (nSize - (i + ?k)) (drop ?k s) of
          Inl e \<Rightarrow> Inl e | Inr (b, is) \<Rightarrow> Inr ((v @ take ?k s) @ b, is))"
        by (rule "1.IH" [OF True refl r refl]) (use k in linarith)
      also have "\<dots> = (case stream_read (nSize - i) s of Inl e \<Rightarrow> Inl e | Inr (b, is) \<Rightarrow> Inr (v @ b, is))"
        using k enough by (auto simp: stream_read_def take_add [symmetric])
      finally show ?thesis .
    qed
  qed (use "1.prems" in \<open>simp add: read_blocks.simps stream_read_def\<close>)
qed

lemma Unserialize_bytes_eq: "Unserialize_bytes = then_read ReadCompactSize (\<lambda>nSize. stream_read (unat nSize))"
proof (intro ext)
  fix s
  have "read_blocks n 0 [] = stream_read n" for n
    by (intro ext) (simp add: read_blocks_stream_read split: sum.splits)
  then show "Unserialize_bytes s = then_read ReadCompactSize (\<lambda>nSize. stream_read (unat nSize)) s"
    by (simp add: Unserialize_bytes_def then_read_def)
qed

lemma unat_of_nat_MAX_SIZE: "n \<le> MAX_SIZE \<Longrightarrow> unat (of_nat n :: u64) = n"
  by (simp add: unsigned_of_nat take_bit_nat_eq_self)

interpretation bv: canonical_codec Serialize_bytes Unserialize_bytes "\<lambda>v. length v \<le> MAX_SIZE"
proof
  show "length x \<le> MAX_SIZE \<Longrightarrow> Unserialize_bytes (Serialize_bytes x @ r) = Inr (x, r)" for x r
    by (simp add: Unserialize_bytes_eq Serialize_bytes_def then_read_def compact.unser_ser unat_of_nat_MAX_SIZE)
  show "s = Serialize_bytes x @ r \<and> length x \<le> MAX_SIZE" if u: "Unserialize_bytes s = Inr (x, r)" for s x r
  proof -
    obtain n s' where n: "ReadCompactSize s = Inr (n, s')" "stream_read (unat n) s' = Inr (x, r)"
      using u by (auto simp: Unserialize_bytes_eq then_read_Inr_iff)
    then show ?thesis using compact.ser_unser [OF n(1)] by (simp add: stream_read_Inr Serialize_bytes_def of_nat_unat)
  qed
qed

context codec
begin

lemma vector_codec: "codec (Serialize_vector ser) (Unserialize_vector unser) (\<lambda>v. length v \<le> MAX_SIZE \<and> list_all ok v)"
  by unfold_locales
    (simp add: Serialize_vector_def Unserialize_vector_def then_read_def compact.unser_ser unat_of_nat_MAX_SIZE elems_ser)

lemma pair_codec:
  assumes "codec ser' unser' ok'"
  shows "codec (Serialize_pair ser ser') (Unserialize_pair unser unser') (\<lambda>(x, y). ok x \<and> ok' y)"
  using codec.unser_ser [OF assms]
  by unfold_locales (auto simp: Serialize_pair_def Unserialize_pair_def then_read_def unser_ser)

end

context canonical_codec
begin

lemma canonical_vector_codec:
  "canonical_codec (Serialize_vector ser) (Unserialize_vector unser) (\<lambda>v. length v \<le> MAX_SIZE \<and> list_all ok v)"
proof (intro canonical_codec.intro vector_codec canonical_codec_axioms.intro)
  fix s xs r
  assume "Unserialize_vector unser s = Inr (xs, r)"
  then obtain n s' where n: "ReadCompactSize s = Inr (n, s')" "Unserialize_elems unser (unat n) s' = Inr (xs, r)"
    by (auto simp: Unserialize_vector_def then_read_Inr_iff)
  then show "s = Serialize_vector ser xs @ r \<and> length xs \<le> MAX_SIZE \<and> list_all ok xs"
    using compact.ser_unser [OF n(1)] elems_unser [OF n(2)] by (simp add: Serialize_vector_def of_nat_unat)
qed

end

section \<open>Variable-length integers\<close>

lemma byte_digit: "unat (ucast ((n :: 'a::len word) AND 0x7F) :: byte) = unat n mod 128" if "LENGTH('a) \<ge> 8"
proof -
  have m: "(0x7F :: 'a word) = mask 7" by (simp add: mask_eq_exp_minus_1)
  have "unat (n AND 0x7F) = unat n mod 2 ^ 7"
    by (simp only: m take_bit_eq_mask [symmetric] unsigned_take_bit_eq take_bit_eq_mod [where 'a = nat])
  moreover have "unat (ucast (n AND 0x7F) :: byte) = unat (n AND 0x7F) mod 2 ^ 8"
    by (simp add: unsigned_ucast_eq take_bit_eq_mod [where 'a = nat])
  ultimately show ?thesis by simp
qed


lemma le_0x7F: "LENGTH('a) \<ge> 8 \<Longrightarrow> (n :: 'a::len word) \<le> 0x7F \<longleftrightarrow> unat n < 128"
proof -
  assume "LENGTH('a) \<ge> 8"
  then have u: "unat (0x7F :: 'a word) = 127" by (intro unat_0x7F) simp
  show ?thesis unfolding word_le_nat_alt u by linarith
qed

fun varint_hi :: "nat \<Rightarrow> bytes" where
  "varint_hi k = (if k < 128 then [of_nat (k + 128)] else varint_hi (k div 128 - 1) @ [of_nat (k mod 128 + 128)])"

declare varint_hi.simps [simp del]

lemma byte_or_0x80_eq: "unat b < 128 \<Longrightarrow> b OR 0x80 = (of_nat (unat b + 128) :: byte)"
  by (rule word_unat_eq_iff [THEN iffD2]) (simp add: byte_or_0x80 del: of_nat_add)

lemma varint_tmp_hi:
  assumes L: "LENGTH('a::len) \<ge> 8"
  shows "rev (varint_tmp (n :: 'a word) True) = varint_hi (unat n)"
proof (induction n "True" rule: varint_tmp.induct)
  case (1 n)
  have d: "ucast (n AND 0x7F) OR 0x80 = (of_nat (unat n mod 128 + 128) :: byte)"
    using byte_or_0x80_eq [of "ucast (n AND 0x7F)"] by (simp add: byte_digit [OF L])
  have le: "n \<le> 0x7F \<longleftrightarrow> unat n < 128" by (rule le_0x7F [OF L])
  show ?case
  proof (cases "n \<le> 0x7F")
    case True
    then show ?thesis using d le by (simp add: varint_tmp.simps [of n] varint_hi.simps [of "unat n"])
  next
    case False
    then show ?thesis using d le 1 [OF refl False] varint_decr [OF False]
      by (simp add: varint_tmp.simps [of n] varint_hi.simps [of "unat n"])
  qed
qed

lemma WriteVarInt_eq:
  assumes L: "LENGTH('a::len) \<ge> 8"
  shows "WriteVarInt (n :: 'a word) =
    (if unat n < 128 then [of_nat (unat n)] else varint_hi (unat n div 128 - 1) @ [of_nat (unat n mod 128)])"
proof -
  have d: "ucast (n AND 0x7F) = (of_nat (unat n mod 128) :: byte)"
    by (rule word_unat_eq_iff [THEN iffD2]) (simp add: byte_digit [OF L])
  have le: "n \<le> 0x7F \<longleftrightarrow> unat n < 128" by (rule le_0x7F [OF L])
  show ?thesis
  proof (cases "n \<le> 0x7F")
    case False
    then show ?thesis using d le varint_decr [OF False]
      by (simp add: WriteVarInt_def varint_tmp.simps [of n] varint_tmp_hi [OF L])
  qed (use d le in \<open>simp add: WriteVarInt_def varint_tmp.simps [of n]\<close>)
qed

text \<open>One step of the reader in terms of numbers.\<close>

lemma read_varint_step:
  assumes L: "LENGTH('a::len) \<ge> 8"
  shows "read_varint (n :: 'a word) (c # is) =
    (let m = unat n * 128 + unat c mod 128
     in if m \<ge> 2 ^ LENGTH('a) then Inl VarIntTooLarge
        else if 128 \<le> unat c then (if m + 1 = 2 ^ LENGTH('a) then Inl VarIntTooLarge else read_varint (of_nat (m + 1)) is)
        else Inr (of_nat m, is))"
proof -
  define q :: nat where "q = 2 ^ (LENGTH('a) - 7)"
  have N: "2 ^ LENGTH('a) = 128 * q"
    using L power_add [of "2::nat" 7 "LENGTH('a) - 7"] by (simp add: q_def)
  have q: "0 < q" by (simp add: q_def)
  have "unat (- 1 :: 'a word) = 128 * q - 1" by (simp add: unsigned_minus_1_eq_mask mask_eq_exp_minus_1 N)
  then have "unat (drop_bit 7 (- 1) :: 'a word) = (128 * q - 1) div 128" by (simp only: unat_drop_bit_7)
  also have "\<dots> = q - 1" using q by (cases q) simp_all
  finally have mx: "n > drop_bit 7 (- 1) \<longleftrightarrow> unat n \<ge> q" using q by (auto simp: word_less_nat_alt)
  let ?m = "unat n * 128 + unat c mod 128"
  have big: "?m \<ge> 128 * q \<longleftrightarrow> unat n \<ge> q"
  proof -
    have "unat c mod 128 < 128" by simp
    then show ?thesis by linarith
  qed
  have val: "push_bit 7 n OR ucast (c AND 0x7F) = of_nat ?m" if "unat n < q"
  proof (rule word_unat_eq_iff [THEN iffD2])
    have lt: "?m < 2 ^ LENGTH('a)" using big that N by linarith
    have c: "unat (ucast (c AND 0x7F) :: 'a word) = unat c mod 128"
      using byte_digit [of c] L by (simp add: unat_ucast_up)
    have p: "unat (push_bit 7 n) = push_bit 7 (unat n)"
    proof -
      have "unat n * 2 ^ 7 < 2 ^ LENGTH('a)" using lt by simp
      then show ?thesis by (simp only: unsigned_push_bit_eq push_bit_eq_mult [where 'a = nat] take_bit_nat_eq_self)
    qed
    have "unat (push_bit 7 n OR ucast (c AND 0x7F)) = unat c mod 128 OR push_bit 7 (unat n)"
      by (simp only: unsigned_or_eq p c or.commute)
    also have "\<dots> = ?m" by (subst or_push_bit_nat) (simp_all add: push_bit_eq_mult)
    finally show "unat (push_bit 7 n OR ucast (c AND 0x7F)) = unat (of_nat ?m :: 'a word)"
      using lt by (simp only: unat_of_nat mod_less)
  qed
  have top: "of_nat ?m = (- 1 :: 'a word) \<longleftrightarrow> ?m + 1 = 2 ^ LENGTH('a)" if "?m < 2 ^ LENGTH('a)"
  proof -
    have "unat (- 1 :: 'a word) = 2 ^ LENGTH('a) - 1" by (simp add: unsigned_minus_1_eq_mask mask_eq_exp_minus_1)
    then show ?thesis using that by (simp only: word_unat_eq_iff unat_of_nat mod_less) linarith
  qed
  show ?thesis
  proof (cases "unat n < q")
    case False
    then show ?thesis using big mx N by (simp add: Let_def)
  next
    case True
    then have lt: "\<not> ?m \<ge> 2 ^ LENGTH('a)" using big N by linarith
    show ?thesis unfolding read_varint.simps val [OF True] Let_def byte_and_0x80
      using True mx lt top [OF lt [unfolded not_le]] by (simp add: add.commute [of "1 :: 'a word"] del: of_nat_add of_nat_mult)
  qed
qed


declare read_varint.simps(2) [simp del]

lemma read_varint_hi:
  assumes L: "LENGTH('a::len) \<ge> 8"
  shows "k + 1 < 2 ^ LENGTH('a) \<Longrightarrow> read_varint (0 :: 'a word) (varint_hi k @ r) = read_varint (of_nat (k + 1)) r"
proof (induction k arbitrary: r rule: varint_hi.induct)
  case (1 k)
  show ?case
  proof (cases "k < 128")
    case True
    then show ?thesis using "1.prems"
      by (simp add: varint_hi.simps [of k] read_varint_step [OF L] Let_def unsigned_of_nat take_bit_nat_eq_self del: of_nat_add)
  next
    case False
    then have d: "k div 128 - 1 + 1 = k div 128" "k div 128 < 2 ^ LENGTH('a)" using "1.prems"
      by (simp_all add: div_greater_zero_iff le_less_trans [OF div_le_dividend])
    have "read_varint (0 :: 'a word) (varint_hi k @ r) = read_varint (of_nat (k div 128)) (of_nat (k mod 128 + 128) # r)"
      using "1.IH" [OF False, of "of_nat (k mod 128 + 128) # r"] False d by (simp add: varint_hi.simps [of k] del: of_nat_add)
    also have "\<dots> = read_varint (of_nat (k + 1)) r"
    proof -
      have "unat (of_nat (k div 128) :: 'a word) = k div 128" using d(2) by (simp only: unat_of_nat mod_less)
      moreover have "unat (of_nat (k mod 128 + 128) :: byte) = k mod 128 + 128" by (simp add: unsigned_of_nat take_bit_nat_eq_self del: of_nat_add)
      ultimately show ?thesis using "1.prems" by (simp add: read_varint_step [OF L] Let_def del: of_nat_add)
    qed
    finally show ?thesis .
  qed
qed

lemma ReadVarInt_WriteVarInt:
  assumes L: "LENGTH('a::len) \<ge> 8"
  shows "ReadVarInt (WriteVarInt (n :: 'a word) @ r) = Inr (n, r)"
proof (cases "unat n < 128")
  case True
  then have b: "unat (of_nat (unat n) :: byte) = unat n" by (simp add: unsigned_of_nat take_bit_nat_eq_self)
  have "ReadVarInt (WriteVarInt n @ r) = read_varint (0 :: 'a word) (of_nat (unat n) # r)"
    using True by (simp add: ReadVarInt_def WriteVarInt_eq [OF L])
  also have "\<dots> = Inr (n, r)" unfolding read_varint_step [OF L] b using True
    by (simp add: Let_def of_nat_unat not_le)
  finally show ?thesis .
next
  case False
  let ?k = "unat n div 128"
  have k: "?k - 1 + 1 = ?k" "?k < 2 ^ LENGTH('a)" using False
    by (simp_all add: div_greater_zero_iff le_less_trans [OF div_le_dividend])
  have "ReadVarInt (WriteVarInt n @ r) = read_varint (of_nat ?k :: 'a word) (of_nat (unat n mod 128) # r)"
    using read_varint_hi [OF L, of "?k - 1" "of_nat (unat n mod 128) # r"] False k
    by (simp add: ReadVarInt_def WriteVarInt_eq [OF L] del: of_nat_add)
  also have "\<dots> = Inr (n, r)"
  proof -
    have u: "unat (of_nat ?k :: 'a word) = ?k" using k(2) by (simp only: unat_of_nat mod_less)
    have b: "unat (of_nat (unat n mod 128) :: byte) = unat n mod 128" by (simp add: unsigned_of_nat take_bit_nat_eq_self)
    have m: "?k * 128 + unat n mod 128 = unat n" by simp
    have "\<not> 128 \<le> unat n mod 128" "\<not> 2 ^ LENGTH('a) \<le> unat n" by (simp_all add: not_le)
    then show ?thesis unfolding read_varint_step [OF L] u b by (simp add: Let_def of_nat_unat)
  qed
  finally show ?thesis .
qed


lemma read_varint_canonical:
  assumes L: "LENGTH('a::len) \<ge> 8"
  shows "read_varint (n :: 'a word) s = Inr (m, r) \<Longrightarrow>
    (if n = 0 then s else varint_hi (unat n - 1) @ s) = WriteVarInt m @ r"
proof (induction s arbitrary: n)
  case (Cons c s)
  let ?M = "unat n * 128 + unat c mod 128"
  have lt: "?M < 2 ^ LENGTH('a)" using Cons.prems by (auto simp: read_varint_step [OF L] Let_def split: if_splits)
  have cc: "of_nat (unat c) = c" by (simp add: of_nat_unat)
  have n0: "0 < unat n" if "n \<noteq> 0" using that by (simp add: unat_gt_0)
  show ?case
  proof (cases "128 \<le> unat c")
    case False
    then have m: "m = of_nat ?M" "r = s" using Cons.prems by (auto simp: read_varint_step [OF L] Let_def split: if_splits)
    have u: "unat m = ?M" unfolding m using lt by (simp only: unat_of_nat mod_less)
    show ?thesis
    proof (cases "n = 0")
      case n: True
      then show ?thesis using False m(2) cc u by (simp add: WriteVarInt_eq [OF L])
    next
      case n: False
      then have "\<not> ?M < 128" "?M div 128 = unat n" "?M mod 128 = unat c" using n0 False by simp_all
      then show ?thesis using m(2) n by (simp only: WriteVarInt_eq [OF L] u cc if_False) simp
    qed
  next
    case True
    then have "?M + 1 \<noteq> 2 ^ LENGTH('a)" and rd: "read_varint (of_nat (?M + 1) :: 'a word) s = Inr (m, r)"
      using Cons.prems by (auto simp: read_varint_step [OF L] Let_def split: if_splits)
    then have u: "unat (of_nat (?M + 1) :: 'a word) = ?M + 1" using lt by (simp only: unat_of_nat) simp
    then have "(of_nat (?M + 1) :: 'a word) \<noteq> 0" by (metis add_is_0 one_neq_zero unsigned_0)
    then have w: "WriteVarInt m @ r = varint_hi ?M @ s" using Cons.IH [OF rd] u by simp
    have c: "unat c mod 128 + 128 = unat c"
    proof -
      have "unat c - 128 < 128" using unat_byte_less [of c] by linarith
      then have "unat c mod 128 = unat c - 128" using le_mod_geq [OF True] by simp
      then show ?thesis using True by linarith
    qed
    show ?thesis
    proof (cases "n = 0")
      case n: True
      moreover have "unat c mod 128 < 128" by simp
      then have "varint_hi (unat c mod 128) = [c]" by (simp only: varint_hi.simps [of "unat c mod 128"] c cc if_True)
      ultimately have "varint_hi ?M = [c]" by simp
      then show ?thesis using w n by simp
    next
      case n: False
      then have "\<not> ?M < 128" "?M div 128 = unat n" "?M mod 128 = unat c mod 128" using n0 by simp_all
      then have "varint_hi ?M = varint_hi (unat n - 1) @ [c]" by (simp only: varint_hi.simps [of ?M] c cc if_False)
      then show ?thesis using w n by simp
    qed
  qed
qed simp

interpretation vi64: canonical_codec "WriteVarInt :: u64 \<Rightarrow> bytes" ReadVarInt "\<lambda>_. True"
  using ReadVarInt_WriteVarInt [where 'a = 64] read_varint_canonical [where 'a = 64, of 0]
  by unfold_locales (simp_all add: ReadVarInt_def)

interpretation vi32: canonical_codec "WriteVarInt :: u32 \<Rightarrow> bytes" ReadVarInt "\<lambda>_. True"
  using ReadVarInt_WriteVarInt [where 'a = 32] read_varint_canonical [where 'a = 32, of 0]
  by unfold_locales (simp_all add: ReadVarInt_def)

lemma length_varint_tmp: "length (varint_tmp n len) = GetSizeOfVarInt n"
proof (induction n len rule: varint_tmp.induct)
  case (1 n len)
  then show ?case by (simp add: varint_tmp.simps [of n] GetSizeOfVarInt.simps [of n] Let_def)
qed

lemma length_WriteVarInt: "length (WriteVarInt n) = GetSizeOfVarInt n"
  by (simp add: WriteVarInt_def length_varint_tmp)

section \<open>Properties\<close>

text \<open>
  C21: Compact sizes are a bijective encoding of the sizes up to the limit of 32 MiB: the reader
  accepts a prefix of the stream as the size \<open>n\<close> exactly when that prefix is what
  \<^verbatim>\<open>WriteCompactSize\<close> writes for \<open>n\<close> and \<open>n\<close> is within the limit, and the encoding is as long
  as \<^verbatim>\<open>GetSizeOfCompactSize\<close> says.
\<close>
theorem compact_size_codec:
  "(ReadCompactSize s = Inr (n, r) \<longleftrightarrow> s = WriteCompactSize n @ r \<and> unat n \<le> MAX_SIZE) \<and>
   length (WriteCompactSize n) = GetSizeOfCompactSize n"
  using compact.unser_iff length_WriteCompactSize by simp

text \<open>
  C22: Variable-length integers are a bijective encoding: every 64-bit integer has exactly one
  encoding, \<^verbatim>\<open>ReadVarInt\<close> accepts nothing else, and the encoding is as long as
  \<^verbatim>\<open>GetSizeOfVarInt\<close> says.
\<close>
theorem varint_codec:
  "(ReadVarInt s = Inr (n :: u64, r) \<longleftrightarrow> s = WriteVarInt n @ r) \<and> length (WriteVarInt n) = GetSizeOfVarInt n"
  using vi64.unser_iff length_WriteVarInt by simp

end
