(* ===== verification/Transaction.thy ===== *)
theory Transaction
  imports Serialize Hash "HOL-Library.List_Lexorder"
begin

text \<open>
  Transactions and blocks (\<^verbatim>\<open>src/primitives/transaction.h\<close>, \<^verbatim>\<open>src/primitives/transaction.cpp\<close>,
  \<^verbatim>\<open>src/primitives/block.h\<close>, \<^verbatim>\<open>src/primitives/block.cpp\<close>, \<^verbatim>\<open>src/amount.h\<close> and the streaming of
  \<^verbatim>\<open>src/uint256.h\<close>): the data, its basic and extended (witness) serialization, hashes and value sums.

  A \<^verbatim>\<open>uint256\<close> is the list of its 32 bytes.  The hash that \<^verbatim>\<open>CTransaction\<close> caches at construction is the
  function \<open>ComputeHash\<close> here, and \<^verbatim>\<open>CMutableTransaction\<close> is the same record.
\<close>

unbundle bit_operations_syntax

section \<open>Amounts\<close>

abbreviation (input) COIN :: int where "COIN \<equiv> 100000000"

definition MAX_MONEY :: int where
  "MAX_MONEY = 21212444 * COIN"

definition MoneyRange :: "int \<Rightarrow> bool" where
  "MoneyRange nValue \<longleftrightarrow> nValue \<ge> 0 \<and> nValue \<le> MAX_MONEY"

section \<open>Hashes on streams\<close>

definition IsNull_uint256 :: "bytes \<Rightarrow> bool" where
  "IsNull_uint256 data = list_all (\<lambda>b. b = 0) data"

abbreviation (input) null_uint256 :: bytes where "null_uint256 \<equiv> replicate 32 0"

definition Serialize_uint256 :: "bytes \<Rightarrow> bytes" where
  "Serialize_uint256 data = data"

definition Unserialize_uint256 :: "bytes reader" where
  "Unserialize_uint256 = stream_read 32"

section \<open>Outpoints, inputs, outputs\<close>

datatype COutPoint = COutPoint (prevout_hash: bytes) (prevout_n: u32)

definition COutPoint_SetNull :: COutPoint where
  "COutPoint_SetNull = COutPoint null_uint256 (- 1)"

definition COutPoint_IsNull :: "COutPoint \<Rightarrow> bool" where
  "COutPoint_IsNull p \<longleftrightarrow> IsNull_uint256 (prevout_hash p) \<and> prevout_n p = - 1"

definition Serialize_COutPoint :: "COutPoint \<Rightarrow> bytes" where
  "Serialize_COutPoint p = Serialize_uint256 (prevout_hash p) @ ser_writedata32 (prevout_n p)"

definition Unserialize_COutPoint :: "COutPoint reader" where
  "Unserialize_COutPoint =
     then_read Unserialize_uint256 (\<lambda>h. then_read ser_readdata32 (\<lambda>k. ret (COutPoint h k)))"

text \<open>The order of outpoints: \<^verbatim>\<open>memcmp\<close> on the hashes, then the index.\<close>

instantiation COutPoint :: linorder
begin

definition less_COutPoint :: "COutPoint \<Rightarrow> COutPoint \<Rightarrow> bool" where
  "less_COutPoint a b \<longleftrightarrow>
     prevout_hash a < prevout_hash b \<or> (prevout_hash a = prevout_hash b \<and> prevout_n a < prevout_n b)"

definition less_eq_COutPoint :: "COutPoint \<Rightarrow> COutPoint \<Rightarrow> bool" where
  "less_eq_COutPoint a b \<longleftrightarrow> a < b \<or> a = b"

instance
  by standard (auto simp: less_COutPoint_def less_eq_COutPoint_def intro: COutPoint.expand)

end

abbreviation (input) SEQUENCE_FINAL :: u32 where "SEQUENCE_FINAL \<equiv> 0xffffffff"
abbreviation (input) SEQUENCE_DISABLE_FLAG :: u32 where "SEQUENCE_DISABLE_FLAG \<equiv> push_bit 31 1"
abbreviation (input) SEQUENCE_LOCKTIME_TYPE_FLAG :: u32 where "SEQUENCE_LOCKTIME_TYPE_FLAG \<equiv> push_bit 22 1"
abbreviation (input) SEQUENCE_LOCKTIME_MASK :: u32 where "SEQUENCE_LOCKTIME_MASK \<equiv> 0x0000ffff"
abbreviation (input) SEQUENCE_LOCKTIME_GRANULARITY :: nat where "SEQUENCE_LOCKTIME_GRANULARITY \<equiv> 9"

record CTxIn =
  prevout :: COutPoint
  scriptSig :: bytes
  nSequence :: u32
  scriptWitness :: "bytes list"

record CTxOut =
  nValue :: int
  scriptPubKey :: bytes

record CTransaction =
  vin :: "CTxIn list"
  vout :: "CTxOut list"
  nVersion :: int
  nLockTime :: u32

text \<open>An input is streamed without its witness.\<close>

definition Serialize_CTxIn :: "CTxIn \<Rightarrow> bytes" where
  "Serialize_CTxIn txin =
     Serialize_COutPoint (prevout txin) @ Serialize_bytes (scriptSig txin) @ ser_writedata32 (nSequence txin)"

definition Unserialize_CTxIn :: "CTxIn reader" where
  "Unserialize_CTxIn =
     then_read Unserialize_COutPoint (\<lambda>p. then_read Unserialize_bytes (\<lambda>sig. then_read ser_readdata32 (\<lambda>seq.
       ret \<lparr>prevout = p, scriptSig = sig, nSequence = seq, scriptWitness = []\<rparr>)))"

definition Serialize_CTxOut :: "CTxOut \<Rightarrow> bytes" where
  "Serialize_CTxOut txout = Serialize_int64 (nValue txout) @ Serialize_bytes (scriptPubKey txout)"

definition Unserialize_CTxOut :: "CTxOut reader" where
  "Unserialize_CTxOut =
     then_read Unserialize_int64 (\<lambda>v. then_read Unserialize_bytes (\<lambda>pk. ret \<lparr>nValue = v, scriptPubKey = pk\<rparr>))"

definition CTxOut_SetNull :: CTxOut where
  "CTxOut_SetNull = \<lparr>nValue = - 1, scriptPubKey = []\<rparr>"

definition CTxOut_IsNull :: "CTxOut \<Rightarrow> bool" where
  "CTxOut_IsNull txout \<longleftrightarrow> nValue txout = - 1"

section \<open>Transactions\<close>

definition HasWitness :: "CTransaction \<Rightarrow> bool" where
  "HasWitness tx = list_ex (\<lambda>txin. scriptWitness txin \<noteq> []) (vin tx)"

definition IsCoinBase :: "CTransaction \<Rightarrow> bool" where
  "IsCoinBase tx \<longleftrightarrow> length (vin tx) = 1 \<and> COutPoint_IsNull (prevout (vin tx ! 0))"

definition CTransaction_IsNull :: "CTransaction \<Rightarrow> bool" where
  "CTransaction_IsNull tx \<longleftrightarrow> vin tx = [] \<and> vout tx = []"

text \<open>
  The argument \<open>fAllowWitness\<close> is the negation of the stream's \<^verbatim>\<open>SERIALIZE_TRANSACTION_NO_WITNESS\<close> flag.
\<close>

definition SerializeTransaction :: "bool \<Rightarrow> CTransaction \<Rightarrow> bytes" where
  "SerializeTransaction fAllowWitness tx =
     (let flags = (if fAllowWitness \<and> HasWitness tx then 1 else 0 :: byte)
      in Serialize_int32 (nVersion tx)
         @ (if flags \<noteq> 0 then Serialize_vector Serialize_CTxIn [] @ ser_writedata8 flags else [])
         @ Serialize_vector Serialize_CTxIn (vin tx)
         @ Serialize_vector Serialize_CTxOut (vout tx)
         @ (if flags AND 1 \<noteq> 0
            then concat (map (\<lambda>txin. Serialize_vector Serialize_bytes (scriptWitness txin)) (vin tx)) else [])
         @ ser_writedata32 (nLockTime tx))"

primrec read_witnesses :: "CTxIn list \<Rightarrow> CTxIn list reader" where
  "read_witnesses [] = ret []"
| "read_witnesses (txin # ins) =
     then_read (Unserialize_vector Unserialize_bytes) (\<lambda>w.
       then_read (read_witnesses ins) (\<lambda>ins. ret (txin\<lparr>scriptWitness := w\<rparr> # ins)))"

definition UnserializeTransaction :: "bool \<Rightarrow> CTransaction reader" where
  "UnserializeTransaction fAllowWitness =
     then_read Unserialize_int32 (\<lambda>version.
     then_read (Unserialize_vector Unserialize_CTxIn) (\<lambda>ins.
     then_read
       (if ins = [] \<and> fAllowWitness then
          then_read ser_readdata8 (\<lambda>flags.
            if flags \<noteq> 0 then
              then_read (Unserialize_vector Unserialize_CTxIn) (\<lambda>ins.
              then_read (Unserialize_vector Unserialize_CTxOut) (\<lambda>outs. ret (flags, ins, outs)))
            else ret (flags, ins, []))
        else then_read (Unserialize_vector Unserialize_CTxOut) (\<lambda>outs. ret (0, ins, outs)))
       (\<lambda>(flags, ins, outs).
     then_read
       (if flags AND 1 \<noteq> 0 \<and> fAllowWitness
        then then_read (read_witnesses ins) (\<lambda>ins. ret (flags XOR 1, ins))
        else ret (flags, ins))
       (\<lambda>(flags, ins).
     if flags \<noteq> 0 then fail UnknownOptionalData
     else then_read ser_readdata32 (\<lambda>lock.
       ret \<lparr>vin = ins, vout = outs, nVersion = version, nLockTime = lock\<rparr>)))))"

definition ComputeHash :: "CTransaction \<Rightarrow> bytes" where
  "ComputeHash tx = SerializeHash [SerializeTransaction False tx]"

definition GetWitnessHash :: "CTransaction \<Rightarrow> bytes" where
  "GetWitnessHash tx = (if \<not> HasWitness tx then ComputeHash tx else SerializeHash [SerializeTransaction True tx])"

text \<open>The sum of the outputs; \<^const>\<open>None\<close> is the thrown \<^verbatim>\<open>value out of range\<close>.\<close>

fun GetValueOut_loop :: "int \<Rightarrow> CTxOut list \<Rightarrow> int option" where
  "GetValueOut_loop nValueOut [] = Some nValueOut"
| "GetValueOut_loop nValueOut (tx_out # outs) =
     (let nValueOut = wrap64 (nValueOut + nValue tx_out)
      in if \<not> MoneyRange (nValue tx_out) \<or> \<not> MoneyRange nValueOut then None else GetValueOut_loop nValueOut outs)"

definition GetValueOut :: "CTransaction \<Rightarrow> int option" where
  "GetValueOut tx = GetValueOut_loop 0 (vout tx)"

definition GetTotalSize :: "CTransaction \<Rightarrow> nat" where
  "GetTotalSize tx = length (SerializeTransaction True tx)"

section \<open>Blocks\<close>

record CBlockHeader =
  hdr_nVersion :: int
  hashPrevBlock :: bytes
  hashMerkleRoot :: bytes
  nTime :: u32
  nBits :: u32
  nNonce :: u32

record CBlock = CBlockHeader +
  vtx :: "CTransaction list"

definition Serialize_CBlockHeader :: "'a CBlockHeader_scheme \<Rightarrow> bytes" where
  "Serialize_CBlockHeader b =
     Serialize_int32 (hdr_nVersion b) @ Serialize_uint256 (hashPrevBlock b) @ Serialize_uint256 (hashMerkleRoot b)
     @ ser_writedata32 (nTime b) @ ser_writedata32 (nBits b) @ ser_writedata32 (nNonce b)"

definition Unserialize_CBlockHeader :: "CBlockHeader reader" where
  "Unserialize_CBlockHeader =
     then_read Unserialize_int32 (\<lambda>v. then_read Unserialize_uint256 (\<lambda>p. then_read Unserialize_uint256 (\<lambda>m.
     then_read ser_readdata32 (\<lambda>t. then_read ser_readdata32 (\<lambda>bits. then_read ser_readdata32 (\<lambda>nonce.
       ret \<lparr>hdr_nVersion = v, hashPrevBlock = p, hashMerkleRoot = m, nTime = t, nBits = bits, nNonce = nonce\<rparr>))))))"

definition CBlockHeader_IsNull :: "'a CBlockHeader_scheme \<Rightarrow> bool" where
  "CBlockHeader_IsNull b \<longleftrightarrow> nBits b = 0"

definition GetBlockTime :: "'a CBlockHeader_scheme \<Rightarrow> int" where
  "GetBlockTime b = int (unat (nTime b))"

text \<open>
  The block hash is X16R of the 80 bytes from \<^verbatim>\<open>nVersion\<close> to \<^verbatim>\<open>nNonce\<close> in memory, the little-endian image
  of the fields, with the sixteen hash functions \<open>sph\<close> ordered by the previous block's hash.
\<close>

definition CBlockHeader_GetHash :: "(nat \<Rightarrow> bytes \<Rightarrow> bytes) \<Rightarrow> 'a CBlockHeader_scheme \<Rightarrow> bytes" where
  "CBlockHeader_GetHash sph b =
     HashX16R sph
       (WriteLE32 (word_of_int (hdr_nVersion b)) @ hashPrevBlock b @ hashMerkleRoot b
        @ WriteLE32 (nTime b) @ WriteLE32 (nBits b) @ WriteLE32 (nNonce b)) (hashPrevBlock b)"

definition GetBlockHeader :: "CBlock \<Rightarrow> CBlockHeader" where
  "GetBlockHeader b =
     \<lparr>hdr_nVersion = hdr_nVersion b, hashPrevBlock = hashPrevBlock b, hashMerkleRoot = hashMerkleRoot b,
      nTime = nTime b, nBits = nBits b, nNonce = nNonce b\<rparr>"

definition Serialize_CBlock :: "bool \<Rightarrow> CBlock \<Rightarrow> bytes" where
  "Serialize_CBlock fAllowWitness b =
     Serialize_CBlockHeader b @ Serialize_vector (SerializeTransaction fAllowWitness) (vtx b)"

definition Unserialize_CBlock :: "bool \<Rightarrow> CBlock reader" where
  "Unserialize_CBlock fAllowWitness =
     then_read Unserialize_CBlockHeader (\<lambda>h.
     then_read (Unserialize_vector (UnserializeTransaction fAllowWitness)) (\<lambda>txs.
       ret (CBlockHeader.extend h (CBlock.fields txs))))"

section \<open>Well-formed data\<close>

definition outpoint_ok :: "COutPoint \<Rightarrow> bool" where
  "outpoint_ok p \<longleftrightarrow> length (prevout_hash p) = 32"

definition script_ok :: "bytes \<Rightarrow> bool" where
  "script_ok s \<longleftrightarrow> length s \<le> MAX_SIZE"

definition txin_base_ok :: "CTxIn \<Rightarrow> bool" where
  "txin_base_ok i \<longleftrightarrow> outpoint_ok (prevout i) \<and> script_ok (scriptSig i) \<and> scriptWitness i = []"

definition txout_ok :: "CTxOut \<Rightarrow> bool" where
  "txout_ok out \<longleftrightarrow> int64_range (nValue out) \<and> script_ok (scriptPubKey out)"

definition stack_ok :: "bytes list \<Rightarrow> bool" where
  "stack_ok w \<longleftrightarrow> length w \<le> MAX_SIZE \<and> list_all script_ok w"

definition strip_witness :: "CTxIn \<Rightarrow> CTxIn" where
  "strip_witness i = i\<lparr>scriptWitness := []\<rparr>"

definition tx_ok :: "CTransaction \<Rightarrow> bool" where
  "tx_ok tx \<longleftrightarrow> int32_range (nVersion tx) \<and> length (vin tx) \<le> MAX_SIZE \<and> length (vout tx) \<le> MAX_SIZE \<and>
     list_all (\<lambda>i. outpoint_ok (prevout i) \<and> script_ok (scriptSig i) \<and> stack_ok (scriptWitness i)) (vin tx) \<and>
     list_all txout_ok (vout tx)"

definition tx_streamable :: "CTransaction \<Rightarrow> bool" where
  "tx_streamable tx \<longleftrightarrow> tx_ok tx \<and> (vin tx = [] \<longrightarrow> vout tx = [])"

definition block_ok :: "CBlock \<Rightarrow> bool" where
  "block_ok b \<longleftrightarrow> int32_range (hdr_nVersion b) \<and> length (hashPrevBlock b) = 32 \<and> length (hashMerkleRoot b) = 32 \<and>
     length (vtx b) \<le> MAX_SIZE \<and> list_all tx_streamable (vtx b)"

section \<open>Codecs\<close>

interpretation u256: canonical_codec Serialize_uint256 Unserialize_uint256 "\<lambda>x. length x = 32"
  by unfold_locales (auto simp: Serialize_uint256_def Unserialize_uint256_def stream_read_Inr)

interpretation outpoint: canonical_codec Serialize_COutPoint Unserialize_COutPoint outpoint_ok
proof
  show "outpoint_ok x \<Longrightarrow> Unserialize_COutPoint (Serialize_COutPoint x @ r) = Inr (x, r)" for x r
    by (simp add: outpoint_ok_def Serialize_COutPoint_def Unserialize_COutPoint_def then_read_def u256.unser_ser reads)
  show "Unserialize_COutPoint s = Inr (x, r) \<Longrightarrow> s = Serialize_COutPoint x @ r \<and> outpoint_ok x" for s x r
    by (auto simp: outpoint_ok_def Serialize_COutPoint_def Unserialize_COutPoint_def then_read_Inr_iff
      u256.unser_iff u32.unser_iff)
qed

interpretation txin: canonical_codec Serialize_CTxIn Unserialize_CTxIn txin_base_ok
proof
  show "txin_base_ok x \<Longrightarrow> Unserialize_CTxIn (Serialize_CTxIn x @ r) = Inr (x, r)" for x r
    by (simp add: txin_base_ok_def script_ok_def Serialize_CTxIn_def Unserialize_CTxIn_def then_read_def outpoint.unser_ser
      bv.unser_ser reads)
  show "Unserialize_CTxIn s = Inr (x, r) \<Longrightarrow> s = Serialize_CTxIn x @ r \<and> txin_base_ok x" for s x r
    by (auto simp: txin_base_ok_def script_ok_def Serialize_CTxIn_def Unserialize_CTxIn_def then_read_Inr_iff
      outpoint.unser_iff bv.unser_iff u32.unser_iff)
qed

interpretation txout: canonical_codec Serialize_CTxOut Unserialize_CTxOut txout_ok
proof
  show "txout_ok x \<Longrightarrow> Unserialize_CTxOut (Serialize_CTxOut x @ r) = Inr (x, r)" for x r
    by (simp add: txout_ok_def script_ok_def Serialize_CTxOut_def Unserialize_CTxOut_def then_read_def i64.unser_ser bv.unser_ser)
  show "Unserialize_CTxOut s = Inr (x, r) \<Longrightarrow> s = Serialize_CTxOut x @ r \<and> txout_ok x" for s x r
    by (auto simp: txout_ok_def script_ok_def Serialize_CTxOut_def Unserialize_CTxOut_def then_read_Inr_iff
      i64.unser_iff bv.unser_iff)
qed

interpretation txins: canonical_codec "Serialize_vector Serialize_CTxIn" "Unserialize_vector Unserialize_CTxIn"
  "\<lambda>v. length v \<le> MAX_SIZE \<and> list_all txin_base_ok v"
  by (rule txin.canonical_vector_codec)

interpretation txouts: canonical_codec "Serialize_vector Serialize_CTxOut" "Unserialize_vector Unserialize_CTxOut"
  "\<lambda>v. length v \<le> MAX_SIZE \<and> list_all txout_ok v"
  by (rule txout.canonical_vector_codec)

interpretation wstack: canonical_codec "Serialize_vector Serialize_bytes" "Unserialize_vector Unserialize_bytes" stack_ok
proof -
  have "stack_ok = (\<lambda>v. length v \<le> MAX_SIZE \<and> list_all (\<lambda>v. length v \<le> MAX_SIZE) v)"
    by (intro ext) (simp add: stack_ok_def script_ok_def [abs_def])
  then show "canonical_codec (Serialize_vector Serialize_bytes) (Unserialize_vector Unserialize_bytes) stack_ok"
    using bv.canonical_vector_codec by simp
qed

lemma Serialize_strip [simp]: "Serialize_CTxIn (strip_witness i) = Serialize_CTxIn i"
  by (simp add: Serialize_CTxIn_def strip_witness_def)

lemma txins_unser_ser:
  assumes "length ins \<le> MAX_SIZE" "list_all (\<lambda>i. outpoint_ok (prevout i) \<and> script_ok (scriptSig i) \<and> Q i) ins"
  shows "Unserialize_vector Unserialize_CTxIn (Serialize_vector Serialize_CTxIn ins @ r) = Inr (map strip_witness ins, r)"
proof -
  have "Serialize_vector Serialize_CTxIn ins = Serialize_vector Serialize_CTxIn (map strip_witness ins)"
    by (simp add: Serialize_vector_def comp_def)
  moreover have "list_all txin_base_ok (map strip_witness ins)"
    using assms(2) by (induction ins) (simp_all add: txin_base_ok_def strip_witness_def)
  ultimately show ?thesis using txins.unser_ser [of "map strip_witness ins"] assms(1) by simp
qed

lemma read_witnesses_ser:
  "list_all (\<lambda>i. P i \<and> Q i \<and> stack_ok (scriptWitness i)) ins \<Longrightarrow>
   read_witnesses (map strip_witness ins)
     (concat (map (\<lambda>i. Serialize_vector Serialize_bytes (scriptWitness i)) ins) @ r) = Inr (ins, r)"
  by (induction ins) (simp_all add: then_read_def wstack.unser_ser strip_witness_def)

lemma HasWitness_strip: "\<not> HasWitness tx \<Longrightarrow> map strip_witness (vin tx) = vin tx"
  by (auto simp: HasWitness_def list_ex_iff strip_witness_def intro!: map_idI)

lemma compact_zero: "WriteCompactSize 0 = [0]"
  by (simp add: WriteCompactSize_def ser_writedata8_def)

lemma Unserialize_SerializeTransaction:
  assumes "tx_ok tx" "fAllowWitness \<Longrightarrow> vin tx = [] \<Longrightarrow> vout tx = []"
  shows "UnserializeTransaction fAllowWitness (SerializeTransaction fAllowWitness tx @ r) =
    Inr (if fAllowWitness then tx else tx\<lparr>vin := map strip_witness (vin tx)\<rparr>, r)"
proof -
  have ok: "int32_range (nVersion tx)" "length (vin tx) \<le> MAX_SIZE" "length (vout tx) \<le> MAX_SIZE"
    "list_all (\<lambda>i. outpoint_ok (prevout i) \<and> script_ok (scriptSig i) \<and> stack_ok (scriptWitness i)) (vin tx)"
    "list_all txout_ok (vout tx)"
    using assms(1) by (simp_all add: tx_ok_def)
  have ins: "Unserialize_vector Unserialize_CTxIn (Serialize_vector Serialize_CTxIn (vin tx) @ t) = Inr (map strip_witness (vin tx), t)" for t
    by (rule txins_unser_ser [OF ok(2,4)])
  have outs: "Unserialize_vector Unserialize_CTxOut (Serialize_vector Serialize_CTxOut (vout tx) @ t) = Inr (vout tx, t)" for t
    by (rule txouts.unser_ser) (use ok in simp)
  have dummy: "Unserialize_vector Unserialize_CTxIn (Serialize_vector Serialize_CTxIn [] @ t) = Inr ([], t)" for t
    by (rule txins.unser_ser) simp
  note rd = then_read_def i32.unser_ser [OF ok(1)] reads
  consider "fAllowWitness" "HasWitness tx" | "fAllowWitness" "\<not> HasWitness tx" "vin tx \<noteq> []" | "fAllowWitness" "vin tx = []"
    | "\<not> fAllowWitness" by blast
  then show ?thesis
  proof cases
    case 1
    then show ?thesis
      by (simp add: SerializeTransaction_def UnserializeTransaction_def rd dummy ins outs read_witnesses_ser [OF ok(4)])
  next
    case 2
    then show ?thesis
      by (simp add: SerializeTransaction_def UnserializeTransaction_def rd ins outs HasWitness_strip)
  next
    case 3
    then have v: "vin tx = []" "vout tx = []" "\<not> HasWitness tx" using assms(2) by (simp_all add: HasWitness_def)
    have "Serialize_vector Serialize_CTxOut [] = ser_writedata8 0"
      by (simp add: Serialize_vector_def compact_zero ser_writedata8_def)
    then show ?thesis using 3 v
      by (simp add: SerializeTransaction_def UnserializeTransaction_def rd dummy)
  next
    case 4
    then show ?thesis
      by (simp add: SerializeTransaction_def UnserializeTransaction_def rd ins outs)
  qed
qed

lemma header_codec_ser:
  assumes "int32_range (hdr_nVersion b)" "length (hashPrevBlock b) = 32" "length (hashMerkleRoot b) = 32"
  shows "Unserialize_CBlockHeader (Serialize_CBlockHeader b @ r) = Inr (CBlockHeader.truncate b, r)"
  using assms
  by (simp add: Serialize_CBlockHeader_def Unserialize_CBlockHeader_def then_read_def i32.unser_ser u256.unser_ser reads
    CBlockHeader.truncate_def)

interpretation tx: codec "SerializeTransaction True" "UnserializeTransaction True" tx_streamable
  by unfold_locales (simp add: tx_streamable_def Unserialize_SerializeTransaction)

interpretation block: codec "Serialize_CBlock True" "Unserialize_CBlock True" block_ok
proof
  fix b r
  assume ok: "block_ok b"
  then have "Unserialize_vector (UnserializeTransaction True) (Serialize_vector (SerializeTransaction True) (vtx b) @ r) = Inr (vtx b, r)"
    by (intro codec.unser_ser [OF tx.vector_codec]) (simp add: block_ok_def)
  with ok show "Unserialize_CBlock True (Serialize_CBlock True b @ r) = Inr (b, r)"
    by (simp add: block_ok_def Serialize_CBlock_def Unserialize_CBlock_def then_read_def header_codec_ser
      CBlockHeader.extend_def CBlockHeader.truncate_def CBlock.fields_def)
qed

section \<open>Value sums\<close>

lemma GetValueOut_loop_iff:
  "MoneyRange a \<Longrightarrow> GetValueOut_loop a outs = Some s \<longleftrightarrow>
     (\<forall>txout \<in> set outs. MoneyRange (nValue txout)) \<and> a + sum_list (map nValue outs) \<le> MAX_MONEY \<and>
     s = a + sum_list (map nValue outs)"
proof (induction outs arbitrary: a)
  case Nil
  then show ?case by (auto simp: MoneyRange_def)
next
  case (Cons x outs)
  have pos: "0 \<le> sum_list (map nValue ys)" if "\<forall>txout \<in> set ys. MoneyRange (nValue txout)" for ys
    using that by (intro sum_list_nonneg) (auto simp: MoneyRange_def)
  show ?case
  proof (cases "MoneyRange (nValue x)")
    case True
    then have w: "wrap64 (a + nValue x) = a + nValue x"
      using Cons.prems by (intro wrap64_id) (simp add: MoneyRange_def MAX_MONEY_def int64_range_def)
    show ?thesis
    proof (cases "MoneyRange (a + nValue x)")
      case sum: True
      then show ?thesis using Cons.IH [OF sum] True w by (simp add: add.assoc)
    next
      case False
      then have "\<not> a + (nValue x + sum_list (map nValue outs)) \<le> MAX_MONEY" if "\<forall>txout \<in> set outs. MoneyRange (nValue txout)"
        using pos [OF that] True Cons.prems by (auto simp: MoneyRange_def)
      then show ?thesis using False w by (auto simp: Let_def)
    qed
  qed (simp add: Let_def)
qed

lemma ComputeHash_strip: "ComputeHash (tx\<lparr>vin := map strip_witness (vin tx)\<rparr>) = ComputeHash tx"
  by (simp add: ComputeHash_def SerializeTransaction_def Serialize_vector_def comp_def)

section \<open>Properties\<close>

text \<open>
  C18: Transactions survive the network: reading back a serialized transaction gives the transaction
  itself in the extended format, and the transaction without its witnesses in the basic format, and
  consumes exactly the bytes written.  In the extended format this needs an input, or no output
  either: a transaction with outputs only would be read as a witness marker.
\<close>
theorem transaction_roundtrip:
  assumes "tx_ok tx" "fAllowWitness \<Longrightarrow> vin tx = [] \<Longrightarrow> vout tx = []"
  shows "UnserializeTransaction fAllowWitness (SerializeTransaction fAllowWitness tx @ r) =
    Inr (if fAllowWitness then tx else tx\<lparr>vin := map strip_witness (vin tx)\<rparr>, r)"
  using Unserialize_SerializeTransaction [OF assms] .

theorem transaction_roundtrip_witness:
  "\<exists>tx. HasWitness tx \<and> length (vout tx) = 1 \<and>
     UnserializeTransaction True (SerializeTransaction True tx @ [9]) = Inr (tx, [9])"
proof -
  let ?tx = "\<lparr>vin = [\<lparr>prevout = COutPoint (replicate 32 1) 0, scriptSig = [], nSequence = 0xffffffff, scriptWitness = [[1, 2], []]\<rparr>],
     vout = [\<lparr>nValue = 5, scriptPubKey = [0x51]\<rparr>], nVersion = 2, nLockTime = 0\<rparr>"
  have "tx_ok ?tx" "HasWitness ?tx" "length (vout ?tx) = 1"
    by (simp_all add: tx_ok_def outpoint_ok_def script_ok_def stack_ok_def txout_ok_def int32_range_def int64_range_def
      HasWitness_def)
  moreover have "UnserializeTransaction True (SerializeTransaction True ?tx @ [9]) = Inr (?tx, [9])"
    using transaction_roundtrip [OF \<open>tx_ok ?tx\<close>, of True "[9]"] by simp
  ultimately show ?thesis by blast
qed

text \<open>
  C19: Blocks survive the network: a block of transactions that can be streamed is read back from its
  serialization, and exactly its bytes are consumed.
\<close>
theorem block_roundtrip:
  assumes "block_ok b"
  shows "Unserialize_CBlock True (Serialize_CBlock True b @ r) = Inr (b, r)"
  using block.unser_ser [OF assms] .

theorem block_roundtrip_witness:
  "\<exists>b. length (vtx b) = 1 \<and> Unserialize_CBlock True (Serialize_CBlock True b @ [7]) = Inr (b, [7])"
proof -
  let ?tx = "\<lparr>vin = [\<lparr>prevout = COutPoint_SetNull, scriptSig = [0x51, 0x52], nSequence = 0xffffffff, scriptWitness = []\<rparr>],
     vout = [\<lparr>nValue = 5, scriptPubKey = [0x51]\<rparr>], nVersion = 1, nLockTime = 0\<rparr>"
  let ?b = "\<lparr>hdr_nVersion = 4, hashPrevBlock = replicate 32 0, hashMerkleRoot = replicate 32 1, nTime = 5, nBits = 6,
     nNonce = 7, vtx = [?tx]\<rparr>"
  have "block_ok ?b" "length (vtx ?b) = 1"
    by (simp_all add: block_ok_def tx_streamable_def tx_ok_def outpoint_ok_def script_ok_def stack_ok_def txout_ok_def
      int32_range_def int64_range_def COutPoint_SetNull_def)
  then show ?thesis using block_roundtrip [of ?b "[7]"] by blast
qed

text \<open>
  C20: \<^verbatim>\<open>GetValueOut\<close> is the exact sum: it returns a value precisely when every output and the total
  are valid amounts, and then returns the mathematical sum of the outputs; no intermediate sum wraps
  around.  Otherwise it throws.
\<close>
theorem GetValueOut_exact:
  "GetValueOut tx = Some s \<longleftrightarrow>
     list_all (\<lambda>txout. MoneyRange (nValue txout)) (vout tx) \<and> sum_list (map nValue (vout tx)) \<le> MAX_MONEY \<and>
     s = sum_list (map nValue (vout tx))"
  using GetValueOut_loop_iff [of 0 "vout tx" s] by (simp add: GetValueOut_def MoneyRange_def MAX_MONEY_def list_all_iff)

text \<open>
  The transaction id does not depend on witnesses: replacing the witnesses of the inputs leaves
  \<^verbatim>\<open>GetHash\<close> unchanged, and without witnesses the witness hash is the transaction id.
\<close>
theorem txid_ignores_witness:
  "(map strip_witness (vin tx) = map strip_witness (vin tx') \<and> vout tx = vout tx' \<and> nVersion tx = nVersion tx' \<and>
      nLockTime tx = nLockTime tx' \<longrightarrow> ComputeHash tx = ComputeHash tx') \<and>
   GetWitnessHash (tx\<lparr>vin := map strip_witness (vin tx)\<rparr>) = ComputeHash tx"
proof
  show "map strip_witness (vin tx) = map strip_witness (vin tx') \<and> vout tx = vout tx' \<and> nVersion tx = nVersion tx' \<and>
      nLockTime tx = nLockTime tx' \<longrightarrow> ComputeHash tx = ComputeHash tx'"
  proof
    assume "map strip_witness (vin tx) = map strip_witness (vin tx') \<and> vout tx = vout tx' \<and> nVersion tx = nVersion tx' \<and>
      nLockTime tx = nLockTime tx'"
    then have "tx\<lparr>vin := map strip_witness (vin tx)\<rparr> = tx'\<lparr>vin := map strip_witness (vin tx')\<rparr>" by simp
    then have "ComputeHash (tx\<lparr>vin := map strip_witness (vin tx)\<rparr>) = ComputeHash (tx'\<lparr>vin := map strip_witness (vin tx')\<rparr>)"
      by (rule arg_cong)
    then show "ComputeHash tx = ComputeHash tx'" by (simp only: ComputeHash_strip)
  qed
  have "\<not> HasWitness (tx\<lparr>vin := map strip_witness (vin tx)\<rparr>)"
    by (auto simp: HasWitness_def list_ex_iff strip_witness_def)
  then show "GetWitnessHash (tx\<lparr>vin := map strip_witness (vin tx)\<rparr>) = ComputeHash tx"
    by (simp add: GetWitnessHash_def ComputeHash_strip)
qed

theorem txid_ignores_witness_witness:
  "\<exists>tx tx'. tx \<noteq> tx' \<and> ComputeHash tx = ComputeHash tx'"
proof -
  let ?tx = "\<lambda>w. \<lparr>vin = [\<lparr>prevout = COutPoint_SetNull, scriptSig = [], nSequence = 0, scriptWitness = w\<rparr>],
     vout = [], nVersion = 1, nLockTime = 0\<rparr>"
  have "?tx [[1]] \<noteq> ?tx []" by simp
  moreover have "ComputeHash (?tx [[1]]) = ComputeHash (?tx [])"
    by (rule conjunct1 [OF txid_ignores_witness, THEN mp]) (simp add: strip_witness_def)
  ultimately show ?thesis by (intro exI conjI)
qed

end
