(* ===== verification/ArithUint256.thy ===== *)
theory ArithUint256
  imports Common
begin

text \<open>
  256-bit arithmetic (\<^verbatim>\<open>src/src/arith_uint256.h\<close>, \<^verbatim>\<open>src/src/arith_uint256.cpp\<close>).  A \<^verbatim>\<open>base_uint\<close> is the list of
  its 32-bit limbs \<^verbatim>\<open>pn\<close>, the least significant one first; \<^verbatim>\<open>WIDTH\<close> is its length, eight for
  \<^verbatim>\<open>arith_uint256\<close>.  The loops carry in 64 bits as the code does.  The lemmas relate every operation to
  arithmetic on the number \<open>val\<close> that the limbs represent, modulo 2 to the power of the width, and the compact
  encoding of difficulty targets to the number it stands for.
\<close>

unbundle bit_operations_syntax

type_synonym arith_uint256 = "u32 list"

section \<open>Construction and bitwise operations\<close>

definition arith_of_u64 :: "u64 \<Rightarrow> arith_uint256" where
  "arith_of_u64 b = [ucast b, ucast (drop_bit 32 b)] @ replicate 6 0"

definition arith_not :: "arith_uint256 \<Rightarrow> arith_uint256" where
  "arith_not a = map (\<lambda>x. NOT x) a"

fun arith_inc :: "arith_uint256 \<Rightarrow> arith_uint256" where
  "arith_inc [] = []"
| "arith_inc (x # xs) = (if x + 1 = 0 then (x + 1) # arith_inc xs else (x + 1) # xs)"

fun arith_dec :: "arith_uint256 \<Rightarrow> arith_uint256" where
  "arith_dec [] = []"
| "arith_dec (x # xs) = (if x - 1 = - 1 then (x - 1) # arith_dec xs else (x - 1) # xs)"

definition arith_neg :: "arith_uint256 \<Rightarrow> arith_uint256" where
  "arith_neg a = arith_inc (arith_not a)"

definition GetLow64 :: "arith_uint256 \<Rightarrow> u64" where
  "GetLow64 a = ucast (a ! 0) OR push_bit 32 (ucast (a ! 1))"

section \<open>Sums and products\<close>

fun add_loop :: "u64 \<Rightarrow> arith_uint256 \<Rightarrow> arith_uint256 \<Rightarrow> arith_uint256" where
  "add_loop carry (x # xs) (y # ys) =
     (let n = carry + ucast x + ucast y in ucast (n AND 0xffffffff) # add_loop (drop_bit 32 n) xs ys)"
| "add_loop carry _ _ = []"

definition arith_add :: "arith_uint256 \<Rightarrow> arith_uint256 \<Rightarrow> arith_uint256" where
  "arith_add a b = add_loop 0 a b"

definition arith_sub :: "arith_uint256 \<Rightarrow> arith_uint256 \<Rightarrow> arith_uint256" where
  "arith_sub a b = arith_add a (arith_neg b)"

fun mul32_loop :: "u64 \<Rightarrow> u32 \<Rightarrow> arith_uint256 \<Rightarrow> arith_uint256" where
  "mul32_loop carry b32 [] = []"
| "mul32_loop carry b32 (x # xs) =
     (let n = carry + ucast b32 * ucast x in ucast (n AND 0xffffffff) # mul32_loop (drop_bit 32 n) b32 xs)"

definition arith_mul32 :: "arith_uint256 \<Rightarrow> u32 \<Rightarrow> arith_uint256" where
  "arith_mul32 a b32 = mul32_loop 0 b32 a"

text \<open>
  The two loops of the long multiplication: the inner one adds \<open>x\<close> times the limbs of \<^verbatim>\<open>b\<close> to the limbs of the
  result from position \<^verbatim>\<open>j\<close> on, the outer one moves \<^verbatim>\<open>j\<close> up, past a limb that no later turn touches.
\<close>

fun mul_inner :: "u64 \<Rightarrow> u32 \<Rightarrow> arith_uint256 \<Rightarrow> arith_uint256 \<Rightarrow> arith_uint256" where
  "mul_inner carry x (y # ys) (p # ps) =
     (let n = carry + ucast p + ucast x * ucast y in ucast (n AND 0xffffffff) # mul_inner (drop_bit 32 n) x ys ps)"
| "mul_inner carry x _ _ = []"

fun mul_outer :: "arith_uint256 \<Rightarrow> arith_uint256 \<Rightarrow> arith_uint256 \<Rightarrow> arith_uint256" where
  "mul_outer (x # xs) b pn =
     (case mul_inner 0 x b pn of
        [] \<Rightarrow> []
      | p # ps \<Rightarrow> p # mul_outer xs b ps)"
| "mul_outer [] b pn = pn"

definition arith_mul :: "arith_uint256 \<Rightarrow> arith_uint256 \<Rightarrow> arith_uint256" where
  "arith_mul a b = mul_outer a b (replicate (length a) 0)"

section \<open>Shifts\<close>

definition shl_step :: "nat \<Rightarrow> nat \<Rightarrow> arith_uint256 \<Rightarrow> nat \<Rightarrow> arith_uint256 \<Rightarrow> arith_uint256" where
  "shl_step k shift a i pn =
     (let pn' = (if i + k + 1 < length a \<and> shift \<noteq> 0
                 then pn[i + k + 1 := pn ! (i + k + 1) OR drop_bit (32 - shift) (a ! i)] else pn)
      in if i + k < length a then pn'[i + k := pn' ! (i + k) OR push_bit shift (a ! i)] else pn')"

definition arith_shl :: "arith_uint256 \<Rightarrow> nat \<Rightarrow> arith_uint256" where
  "arith_shl a shift = fold (shl_step (shift div 32) (shift mod 32) a) [0..<length a] (replicate (length a) 0)"

definition shr_step :: "nat \<Rightarrow> nat \<Rightarrow> arith_uint256 \<Rightarrow> nat \<Rightarrow> arith_uint256 \<Rightarrow> arith_uint256" where
  "shr_step k shift a i pn =
     (let pn' = (if i \<ge> k + 1 \<and> shift \<noteq> 0
                 then pn[i - k - 1 := pn ! (i - k - 1) OR push_bit (32 - shift) (a ! i)] else pn)
      in if i \<ge> k then pn'[i - k := pn' ! (i - k) OR drop_bit shift (a ! i)] else pn')"

definition arith_shr :: "arith_uint256 \<Rightarrow> nat \<Rightarrow> arith_uint256" where
  "arith_shr a shift = fold (shr_step (shift div 32) (shift mod 32) a) [0..<length a] (replicate (length a) 0)"

section \<open>Comparison and size\<close>

text \<open>The loops from the most significant limb down run over the reversed lists.\<close>

fun compare_loop :: "u32 list \<Rightarrow> u32 list \<Rightarrow> int" where
  "compare_loop (x # xs) (y # ys) = (if x < y then - 1 else if x > y then 1 else compare_loop xs ys)"
| "compare_loop _ _ = 0"

definition CompareTo :: "arith_uint256 \<Rightarrow> arith_uint256 \<Rightarrow> int" where
  "CompareTo a b = compare_loop (rev a) (rev b)"

definition EqualTo :: "arith_uint256 \<Rightarrow> u64 \<Rightarrow> bool" where
  "EqualTo a b \<longleftrightarrow>
     (\<forall>x\<in>set (drop 2 a). x = 0) \<and> ucast (a ! 1) = drop_bit 32 b \<and> ucast (a ! 0) = b AND 0xffffffff"

fun limb_bits :: "u32 \<Rightarrow> nat \<Rightarrow> nat" where
  "limb_bits x 0 = 1"
| "limb_bits x (Suc nbits) = (if bit x (Suc nbits) then Suc nbits + 1 else limb_bits x nbits)"

fun bits_loop :: "u32 list \<Rightarrow> nat" where
  "bits_loop [] = 0"
| "bits_loop (x # xs) = (if x \<noteq> 0 then 32 * length xs + limb_bits x 31 else bits_loop xs)"

definition arith_bits :: "arith_uint256 \<Rightarrow> nat" where
  "arith_bits a = bits_loop (rev a)"

section \<open>Division\<close>

definition set_quotient_bit :: "nat \<Rightarrow> arith_uint256 \<Rightarrow> arith_uint256" where
  "set_quotient_bit shift pn = pn[shift div 32 := pn ! (shift div 32) OR push_bit (shift mod 32) 1]"

fun div_loop :: "nat \<Rightarrow> arith_uint256 \<Rightarrow> arith_uint256 \<Rightarrow> arith_uint256 \<Rightarrow> arith_uint256" where
  "div_loop 0 num dv pn = pn"
| "div_loop (Suc shift) num dv pn =
     (if CompareTo num dv \<ge> 0
      then div_loop shift (arith_sub num dv) (arith_shr dv 1) (set_quotient_bit shift pn)
      else div_loop shift num (arith_shr dv 1) pn)"

text \<open>\<^const>\<open>None\<close> is the exception \<^verbatim>\<open>Division by zero\<close>.\<close>

definition arith_div :: "arith_uint256 \<Rightarrow> arith_uint256 \<Rightarrow> arith_uint256 option" where
  "arith_div num b =
     (let num_bits = arith_bits num; div_bits = arith_bits b; quotient = replicate (length num) 0 in
      if div_bits = 0 then None
      else if div_bits > num_bits then Some quotient
      else
        let shift = num_bits - div_bits
        in Some (div_loop (Suc shift) num (arith_shl b shift) quotient))"

section \<open>Compact targets and byte strings\<close>

definition SetCompact :: "u32 \<Rightarrow> arith_uint256 \<times> bool \<times> bool" where
  "SetCompact nCompact =
     (let nSize = unat (drop_bit 24 nCompact);
          nMantissa = nCompact AND 0x007fffff;
          nWord = (if nSize \<le> 3 then drop_bit (8 * (3 - nSize)) nMantissa else nMantissa);
          bn = (if nSize \<le> 3 then arith_of_u64 (ucast nWord) else arith_shl (arith_of_u64 (ucast nWord)) (8 * (nSize - 3)))
      in (bn,
          nWord \<noteq> 0 \<and> nCompact AND 0x00800000 \<noteq> 0,
          nWord \<noteq> 0 \<and> (nSize > 34 \<or> (nWord > 0xff \<and> nSize > 33) \<or> (nWord > 0xffff \<and> nSize > 32))))"

text \<open>\<^const>\<open>None\<close> is a failed assertion.\<close>

definition GetCompact :: "arith_uint256 \<Rightarrow> bool \<Rightarrow> u32 option" where
  "GetCompact a fNegative =
     (let nSize0 = (arith_bits a + 7) div 8;
          nCompact0 = (if nSize0 \<le> 3 then ucast (push_bit (8 * (3 - nSize0)) (GetLow64 a))
                       else ucast (GetLow64 (arith_shr a (8 * (nSize0 - 3))))) :: u32;
          nCompact1 = (if nCompact0 AND 0x00800000 \<noteq> 0 then drop_bit 8 nCompact0 else nCompact0);
          nSize = (if nCompact0 AND 0x00800000 \<noteq> 0 then nSize0 + 1 else nSize0)
      in if nCompact1 AND NOT 0x007fffff \<noteq> 0 \<or> \<not> nSize < 256 then None
         else
           let nCompact = nCompact1 OR push_bit 24 (of_nat nSize)
           in Some (nCompact OR (if fNegative \<and> nCompact AND 0x007fffff \<noteq> 0 then 0x00800000 else 0)))"

definition ArithToUint256 :: "arith_uint256 \<Rightarrow> bytes" where
  "ArithToUint256 a = concat (map WriteLE32 a)"

definition UintToArith256 :: "bytes \<Rightarrow> arith_uint256" where
  "UintToArith256 a = map (\<lambda>x. ReadLE32 (drop (4 * x) a)) [0..<8]"

section \<open>The numbers that limbs and compact values stand for\<close>

primrec val :: "arith_uint256 \<Rightarrow> nat" where
  "val [] = 0"
| "val (x # xs) = unat x + 2 ^ 32 * val xs"

abbreviation modulus :: "arith_uint256 \<Rightarrow> nat" where
  "modulus a \<equiv> 2 ^ (32 * length a)"

definition compact_size :: "u32 \<Rightarrow> nat" where
  "compact_size c = unat c div 2 ^ 24"

definition compact_mantissa :: "u32 \<Rightarrow> nat" where
  "compact_mantissa c = unat c mod 2 ^ 23"

text \<open>The number that a compact value stands for: the mantissa scaled by 256 to the power of the size less three.\<close>

definition compact_value :: "u32 \<Rightarrow> nat" where
  "compact_value c = compact_mantissa c * 256 ^ compact_size c div 256 ^ 3"

text \<open>
  The values that the encoder produces: no sign, the mantissa as large as it can be without touching the sign bit,
  nothing lost, and no overflow.
\<close>

definition compact_canonical :: "u32 \<Rightarrow> bool" where
  "compact_canonical c \<longleftrightarrow>
     c = 0 \<or> \<not> bit c 23 \<and> 2 ^ 15 \<le> compact_mantissa c \<and> 256 ^ 3 dvd compact_mantissa c * 256 ^ compact_size c
       \<and> compact_value c < 2 ^ 256"

section \<open>The number that limbs represent\<close>

lemma unat_u32_less: "unat (x :: u32) < 2 ^ 32"
  using unsigned_less [of x] by simp

lemma val_less: "val a < modulus a"
proof (induction a)
  case (Cons x xs)
  have "2 ^ 32 * (val xs + 1) \<le> 2 ^ 32 * modulus xs" using Cons by (intro mult_le_mono2) simp
  with unat_u32_less [of x] show ?case by (simp add: power_add)
qed simp

lemma val_append: "val (xs @ ys) = val xs + modulus xs * val ys"
  by (induction xs) (simp_all add: power_add algebra_simps)

lemma val_replicate_0 [simp]: "val (replicate n 0) = 0"
  by (induction n) simp_all

lemma digit_mod: "(d + B * r) mod (B * C) = d mod B + B * ((d div B + r) mod C)" if "0 < B" for B :: nat
proof -
  have "(d + B * r) div B = d div B + r" using that by simp
  then show ?thesis by (simp add: mod_mult2_eq)
qed

lemma modulus_Cons: "modulus (x # xs) = 2 ^ 32 * modulus xs"
  by (simp add: power_add)

lemma low_limb: "unat (ucast (n AND 0xffffffff) :: u32) = unat (n :: u64) mod 2 ^ 32"
proof -
  have "(0xffffffff :: u64) = mask 32" by (simp add: mask_eq_exp_minus_1)
  then have "n AND 0xffffffff = take_bit 32 n" by (simp only: take_bit_eq_mask)
  then have "unat (n AND 0xffffffff) = take_bit 32 (unat n)" by (simp only: unsigned_take_bit_eq)
  then show ?thesis by (simp add: unsigned_ucast_eq take_bit_eq_mod)
qed

lemma high_limb: "unat (drop_bit 32 n :: u64) = unat n div 2 ^ 32"
  by (simp only: unsigned_drop_bit_eq) (simp add: drop_bit_eq_div take_bit_nat_eq_self div_less_iff_less_mult unsigned_less [of n, simplified])

lemma unat_u32_u64: "unat (ucast (x :: u32) :: u64) = unat x"
  using unat_u32_less [of x] by (simp add: unsigned_ucast_eq take_bit_nat_eq_self)

lemma unat_sum64: "unat a + unat b < 2 ^ 64 \<Longrightarrow> unat (a + b :: u64) = unat a + unat b"
  by (simp add: unat_plus_if_size word_size)

lemma length_add_loop [simp]: "length (add_loop c xs ys) = min (length xs) (length ys)"
  by (induction c xs ys rule: add_loop.induct) (simp_all add: Let_def)

lemma val_add_loop:
  "length xs = length ys \<Longrightarrow> unat c \<le> 1 \<Longrightarrow> val (add_loop c xs ys) = (unat c + val xs + val ys) mod modulus xs"
proof (induction c xs ys rule: add_loop.induct)
  case (1 c x xs y ys)
  let ?n = "c + ucast x + ucast y"
  let ?m = "unat c + unat x + unat y"
  have lt: "?m < 2 ^ 64" "?m div 2 ^ 32 \<le> 1"
    using unat_u32_less [of x] unat_u32_less [of y] 1(3) by simp_all
  then have n: "unat ?n = ?m" by (simp add: unat_sum64 unat_u32_u64)
  have "val (add_loop (drop_bit 32 ?n) xs ys) = (?m div 2 ^ 32 + val xs + val ys) mod modulus xs"
    using 1 lt by (simp only: high_limb n) simp
  then have "val (add_loop c (x # xs) (y # ys)) = ?m mod 2 ^ 32 + 2 ^ 32 * ((?m div 2 ^ 32 + (val xs + val ys)) mod modulus xs)"
    by (simp only: add_loop.simps Let_def val.simps low_limb n add.assoc [of "?m div 2 ^ 32" "val xs" "val ys"])
  also have "\<dots> = (?m + 2 ^ 32 * (val xs + val ys)) mod modulus (x # xs)"
    unfolding modulus_Cons by (rule digit_mod [symmetric]) simp
  finally show ?case by (simp add: algebra_simps)
qed simp_all

lemma val_add: "length a = length b \<Longrightarrow> val (arith_add a b) = (val a + val b) mod modulus a"
  by (simp add: arith_add_def val_add_loop)

lemma length_inc [simp]: "length (arith_inc a) = length a"
  by (induction a rule: arith_inc.induct) simp_all

lemma val_inc: "val (arith_inc a) = (val a + 1) mod modulus a"
proof (induction a rule: arith_inc.induct)
  case (2 x xs)
  show ?case
  proof (cases "x + 1 = 0")
    case True
    then have "unat x + 1 = 2 ^ 32" using unat_u32_less [of x] by (simp add: unat_eq_zero [symmetric] unat_plus_if_size word_size split: if_splits)
    then have "val (x # xs) + 1 = 0 + 2 ^ 32 * (val xs + 1)" by simp
    then have "(val (x # xs) + 1) mod modulus (x # xs) = 2 ^ 32 * ((val xs + 1) mod modulus xs)"
      by (simp only: modulus_Cons mod_mult_mult1 add_0)
    with True 2 show ?thesis by simp
  next
    case False
    then have u: "unat (x + 1) = unat x + 1" using unat_u32_less [of x] by (simp add: unat_plus_if_size word_size unat_eq_zero [symmetric] split: if_splits)
    with False have v: "val (arith_inc (x # xs)) = val (x # xs) + 1" by simp
    have "val (arith_inc (x # xs)) < modulus (x # xs)"
      using val_less [of "arith_inc (x # xs)"] by (simp only: length_inc)
    with v show ?thesis by simp
  qed
qed simp

lemma length_dec [simp]: "length (arith_dec a) = length a"
  by (induction a rule: arith_dec.induct) simp_all

lemma length_not [simp]: "length (arith_not a) = length a"
  by (simp add: arith_not_def)

lemma val_not: "val (arith_not a) + val a + 1 = modulus a"
proof (induction a)
  case (Cons x xs)
  have "unat (NOT x) + unat x + 1 = 2 ^ 32"
  proof -
    have "NOT x = - 1 - x" by (simp add: not_eq_complement)
    moreover have "unat (- 1 - x) = unat (- 1 :: u32) - unat x" by (rule unat_sub) simp
    moreover have "unat (- 1 :: u32) = 2 ^ 32 - 1" by (simp add: unsigned_minus_1_eq_mask mask_eq_exp_minus_1)
    ultimately show ?thesis using unat_u32_less [of x] by simp
  qed
  with Cons show ?case by (simp add: arith_not_def power_add algebra_simps)
qed (simp add: arith_not_def)

lemma length_neg [simp]: "length (arith_neg a) = length a"
  by (simp add: arith_neg_def)

lemma val_neg: "val (arith_neg a) = (modulus a - val a) mod modulus a"
proof -
  have "modulus a - val a = val (arith_not a) + 1" using val_not [of a] by simp
  then show ?thesis by (simp only: arith_neg_def val_inc length_not)
qed

lemma length_add [simp]: "length a = length b \<Longrightarrow> length (arith_add a b) = length b"
  by (simp add: arith_add_def)

lemma length_sub [simp]: "length a = length b \<Longrightarrow> length (arith_sub a b) = length b"
  by (simp add: arith_sub_def)

lemma val_sub: "length a = length b \<Longrightarrow> val (arith_sub a b) = (val a + (modulus b - val b)) mod modulus b"
  by (simp add: arith_sub_def val_add val_neg mod_add_right_eq)

lemma val_sub_le: "length a = length b \<Longrightarrow> val b \<le> val a \<Longrightarrow> val (arith_sub a b) = val a - val b"
proof -
  assume l: "length a = length b" and le: "val b \<le> val a"
  have "val a + (modulus b - val b) = (val a - val b) + modulus b" using le val_less [of b] by simp
  moreover have "val a - val b < modulus b" using val_less [of a] l by simp
  ultimately show ?thesis using l by (simp add: val_sub)
qed

lemma unat_mul64: "unat a * unat b < 2 ^ 64 \<Longrightarrow> unat (a * b :: u64) = unat a * unat b"
  by (simp add: unat_word_ariths)

lemma limb_product_bound:
  "unat (x :: u32) * unat (y :: u32) + 2 * (2 ^ 32 - 1) < 2 ^ 64"
proof -
  have "unat x * unat y \<le> (2 ^ 32 - 1) * (2 ^ 32 - 1)"
    using unat_u32_less [of x] unat_u32_less [of y] by (intro mult_le_mono) simp_all
  then show ?thesis by simp
qed

lemma length_mul32_loop [simp]: "length (mul32_loop c b xs) = length xs"
  by (induction c b xs rule: mul32_loop.induct) (simp_all add: Let_def)

lemma val_mul32_loop:
  "unat c < 2 ^ 32 \<Longrightarrow> val (mul32_loop c b xs) = (unat c + unat b * val xs) mod modulus xs"
proof (induction c b xs rule: mul32_loop.induct)
  case (2 c b x xs)
  let ?n = "c + ucast b * ucast x"
  let ?m = "unat c + unat b * unat x"
  have lt: "unat b * unat x < 2 ^ 64" "?m < 2 ^ 64" using limb_product_bound [of b x] 2(2) by simp_all
  then have n: "unat ?n = ?m" by (simp add: unat_sum64 unat_mul64 unat_u32_u64)
  have "?m div 2 ^ 32 < 2 ^ 32" using lt by (simp add: div_less_iff_less_mult)
  then have "val (mul32_loop (drop_bit 32 ?n) b xs) = (?m div 2 ^ 32 + unat b * val xs) mod modulus xs"
    using 2(1) [OF refl] by (simp only: high_limb n)
  then have "val (mul32_loop c b (x # xs)) = ?m mod 2 ^ 32 + 2 ^ 32 * ((?m div 2 ^ 32 + unat b * val xs) mod modulus xs)"
    by (simp only: mul32_loop.simps Let_def val.simps low_limb n)
  also have "\<dots> = (?m + 2 ^ 32 * (unat b * val xs)) mod modulus (x # xs)"
    unfolding modulus_Cons by (rule digit_mod [symmetric]) simp
  finally show ?case by (simp add: algebra_simps)
qed simp

lemma val_mul32: "val (arith_mul32 a b) = (val a * unat b) mod modulus a"
  by (simp add: arith_mul32_def val_mul32_loop mult.commute)

lemma length_mul_inner [simp]: "length (mul_inner c x ys ps) = min (length ys) (length ps)"
  by (induction c x ys ps rule: mul_inner.induct) (simp_all add: Let_def)

lemma val_mul_inner:
  "unat c < 2 ^ 32 \<Longrightarrow> length ps \<le> length ys \<Longrightarrow>
     val (mul_inner c x ys ps) = (unat c + val ps + unat x * val ys) mod modulus ps"
proof (induction c x ys ps rule: mul_inner.induct)
  case (1 c x y ys p ps)
  let ?n = "c + ucast p + ucast x * ucast y"
  let ?m = "unat c + unat p + unat x * unat y"
  have lt: "unat x * unat y < 2 ^ 64" "?m < 2 ^ 64" "unat c + unat p < 2 ^ 64"
    using limb_product_bound [of x y] 1(2) unat_u32_less [of p] by simp_all
  then have n: "unat ?n = ?m" by (simp add: unat_sum64 unat_mul64 unat_u32_u64)
  have "?m div 2 ^ 32 < 2 ^ 32" using lt by (simp add: div_less_iff_less_mult)
  then have "val (mul_inner (drop_bit 32 ?n) x ys ps) = (?m div 2 ^ 32 + (val ps + unat x * val ys)) mod modulus ps"
    using 1(1) [OF refl] 1(3) by (simp only: high_limb n add.assoc [of "?m div 2 ^ 32" "val ps"] length_Cons Suc_le_mono)
  then have "val (mul_inner c x (y # ys) (p # ps)) =
      ?m mod 2 ^ 32 + 2 ^ 32 * ((?m div 2 ^ 32 + (val ps + unat x * val ys)) mod modulus ps)"
    by (simp only: mul_inner.simps Let_def val.simps low_limb n)
  also have "\<dots> = (?m + 2 ^ 32 * (val ps + unat x * val ys)) mod modulus (p # ps)"
    unfolding modulus_Cons by (rule digit_mod [symmetric]) simp
  finally show ?case by (simp add: algebra_simps)
qed simp_all

lemma val_mul_outer:
  "length xs = length ps \<Longrightarrow> length ps \<le> length b \<Longrightarrow>
     val (mul_outer xs b ps) = (val ps + val xs * val b) mod modulus ps \<and> length (mul_outer xs b ps) = length ps"
proof (induction xs arbitrary: ps)
  case (Cons x xs)
  from Cons.prems have ne: "length (mul_inner 0 x b ps) = Suc (length xs)" by simp
  then obtain q qs where q: "mul_inner 0 x b ps = q # qs" by (cases "mul_inner 0 x b ps") auto
  with ne have len: "length xs = length qs" by simp
  have inner: "val (q # qs) = (val ps + unat x * val b) mod modulus ps"
    using val_mul_inner [of 0 ps b x] Cons.prems q by simp
  have outer: "val (mul_outer xs b qs) = (val qs + val xs * val b) mod modulus qs" "length (mul_outer xs b qs) = length qs"
    using Cons.IH [OF len] Cons.prems len by simp_all
  have m: "modulus ps = 2 ^ 32 * modulus qs" using Cons.prems(1) len by (simp add: power_add flip: Cons.prems(1))
  have "val (mul_outer (x # xs) b ps) = unat q + 2 ^ 32 * ((val qs + val xs * val b) mod modulus qs)"
    using q outer by simp
  also have "\<dots> = (unat q + 2 ^ 32 * (val qs + val xs * val b)) mod modulus ps"
    unfolding m using unat_u32_less [of q] by (subst digit_mod) simp_all
  also have "unat q + 2 ^ 32 * (val qs + val xs * val b) = val (q # qs) + 2 ^ 32 * (val xs * val b)"
    by (simp add: algebra_simps)
  also have "\<dots> mod modulus ps = (val ps + unat x * val b + 2 ^ 32 * (val xs * val b)) mod modulus ps"
    by (simp only: inner mod_add_left_eq)
  finally show ?case using q outer Cons.prems len by (simp add: algebra_simps)
qed simp

lemma val_mul: "length a = length b \<Longrightarrow> val (arith_mul a b) = (val a * val b) mod modulus a"
  using val_mul_outer [of a "replicate (length a) 0" b] by (simp add: arith_mul_def)

lemma length_mul [simp]: "length a = length b \<Longrightarrow> length (arith_mul a b) = length b"
  using val_mul_outer [of a "replicate (length a) 0" b] by (simp add: arith_mul_def)

section \<open>Comparison and number of bits\<close>

lemma val_rev_Cons: "val (rev (x # xs)) = val (rev xs) + modulus xs * unat x"
  by (simp add: val_append)

lemma compare_loop_val:
  "length xs = length ys \<Longrightarrow>
     compare_loop xs ys = (if val (rev xs) < val (rev ys) then - 1 else if val (rev xs) > val (rev ys) then 1 else 0)"
proof (induction xs ys rule: compare_loop.induct)
  case (1 x xs y ys)
  then have len: "length xs = length ys" by simp
  have lt: "val (rev (x # xs)) < val (rev (y # ys))" if "x < y" "length xs = length ys" for x y :: u32 and xs ys
  proof -
    have "unat x + 1 \<le> unat y" using that(1) by (simp add: word_less_nat_alt)
    then have "modulus xs * (unat x + 1) \<le> modulus xs * unat y" by (rule mult_le_mono2)
    moreover have "val (rev xs) < modulus xs" using val_less [of "rev xs"] by simp
    ultimately show ?thesis using that(2) by (simp add: val_append algebra_simps)
  qed
  consider "x < y" | "y < x" | "x = y" by fastforce
  then show ?case
  proof cases
    case 1
    with lt [OF 1 len] show ?thesis by simp
  next
    case 2
    with lt [OF 2 len [symmetric]] show ?thesis by simp
  next
    case 3
    with "1.IH" len show ?thesis by (simp add: val_append)
  qed
qed simp_all

lemma CompareTo_val:
  "length a = length b \<Longrightarrow> CompareTo a b = (if val a < val b then - 1 else if val a > val b then 1 else 0)"
  by (simp add: CompareTo_def compare_loop_val)

lemma top_bit: "n < 2 ^ Suc k \<Longrightarrow> bit (n :: nat) k \<longleftrightarrow> 2 ^ k \<le> n"
proof -
  assume "n < 2 ^ Suc k"
  then have "n div 2 ^ k < 2" by (simp add: div_less_iff_less_mult)
  then have "odd (n div 2 ^ k) \<longleftrightarrow> 0 < n div 2 ^ k" by (cases "n div 2 ^ k") auto
  then show ?thesis by (simp add: bit_iff_odd div_greater_zero_iff)
qed

lemma limb_bits_le: "unat x < 2 ^ Suc n \<Longrightarrow> 0 < unat x \<Longrightarrow> limb_bits x n \<le> m \<longleftrightarrow> unat x < 2 ^ m"
proof (induction x n rule: limb_bits.induct)
  case (1 x)
  then have "unat x = 1" by simp
  then show ?case using one_less_power [of "2::nat" m] by (cases m) simp_all
next
  case (2 x n)
  have b: "bit x (Suc n) \<longleftrightarrow> 2 ^ Suc n \<le> unat x" using top_bit [OF 2(2)] by (simp add: bit_unsigned_iff)
  show ?case
  proof (cases "bit x (Suc n)")
    case True
    show ?thesis
    proof (cases "Suc (Suc n) \<le> m")
      case le: True
      then have "(2::nat) ^ Suc (Suc n) \<le> 2 ^ m" by (intro power_increasing) simp_all
      with 2(2) True le show ?thesis by simp
    next
      case False
      then have "(2::nat) ^ m \<le> 2 ^ Suc n" by (intro power_increasing) simp_all
      with b True False show ?thesis by simp
    qed
  next
    case False
    with 2 b show ?thesis by simp
  qed
qed

lemma limb_bits_bounds: "x \<noteq> 0 \<Longrightarrow> limb_bits x 31 \<le> m \<longleftrightarrow> unat x < 2 ^ m"
  using limb_bits_le [of x 31 m] unat_u32_less [of x] by (simp add: unat_gt_0)

lemma bits_loop_le: "bits_loop xs \<le> m \<longleftrightarrow> val (rev xs) < 2 ^ m"
proof (induction xs)
  case (Cons x xs)
  show ?case
  proof (cases "x = 0")
    case False
    let ?w = "32 * length xs"
    have r: "val (rev xs) < 2 ^ ?w" using val_less [of "rev xs"] by simp
    have v: "val (rev (x # xs)) = val (rev xs) + 2 ^ ?w * unat x" by (rule val_rev_Cons)
    have pos: "0 < unat x" using False by (simp add: unat_gt_0)
    show ?thesis
    proof (cases "?w \<le> m")
      case True
      then obtain d where m: "m = ?w + d" using le_Suc_ex by blast
      have "val (rev (x # xs)) < 2 ^ m \<longleftrightarrow> val (rev (x # xs)) div 2 ^ ?w < 2 ^ d"
        by (simp add: m power_add div_less_iff_less_mult mult.commute)
      also have "val (rev (x # xs)) div 2 ^ ?w = unat x" using r v by simp
      finally show ?thesis using False m limb_bits_bounds [OF False, of d] by simp
    next
      case lt: False
      then have "(2::nat) ^ m \<le> 2 ^ ?w" by (intro power_increasing) simp_all
      also have "\<dots> \<le> 2 ^ ?w * unat x" using pos by simp
      finally have "\<not> val (rev (x # xs)) < 2 ^ m" using v by simp
      with False lt show ?thesis by simp
    qed
  qed (use Cons in \<open>simp add: val_append\<close>)
qed simp

lemma bits_le: "arith_bits a \<le> m \<longleftrightarrow> val a < 2 ^ m"
  by (simp add: arith_bits_def bits_loop_le)

lemma bits_0: "arith_bits a = 0 \<longleftrightarrow> val a = 0"
  using bits_le [of a 0] by simp

lemma bits_lower: "0 < val a \<Longrightarrow> 2 ^ (arith_bits a - 1) \<le> val a"
proof -
  assume "0 < val a"
  then have "\<not> arith_bits a \<le> arith_bits a - 1" using bits_0 [of a] by simp
  then show ?thesis by (simp add: bits_le)
qed

section \<open>Shifts\<close>

lemma bit_val: "bit (val a) n \<longleftrightarrow> n div 32 < length a \<and> bit (a ! (n div 32)) (n mod 32)"
proof (induction a arbitrary: n)
  case (Cons x xs)
  have "val (x # xs) = unat x OR push_bit 32 (val xs)"
    using or_push_bit_nat [of "unat x" 32 "val xs"] unat_u32_less [of x] by (simp add: push_bit_eq_mult)
  then have b: "bit (val (x # xs)) n \<longleftrightarrow> bit x n \<or> 32 \<le> n \<and> bit (val xs) (n - 32)"
    by (simp add: bit_or_iff bit_push_bit_iff bit_unsigned_iff)
  show ?case
  proof (cases "n < 32")
    case True
    then show ?thesis using b by simp
  next
    case False
    then have "\<not> bit x n" using bit_imp_le_length [of x n] by auto
    moreover have "n div 32 = Suc ((n - 32) div 32)" "n mod 32 = (n - 32) mod 32"
      using False by (simp_all add: le_div_geq le_mod_geq)
    ultimately show ?thesis using b False Cons [of "n - 32"] by simp
  qed
qed simp

lemma length_shl_step [simp]: "length (shl_step k s a i pn) = length pn"
  by (simp add: shl_step_def Let_def)

lemma length_shr_step [simp]: "length (shr_step k s a i pn) = length pn"
  by (simp add: shr_step_def Let_def)

lemma shl_step_nth:
  assumes "length pn = length a" "j < length a"
  shows "shl_step k s a i pn ! j =
    pn ! j OR (if j = i + k then push_bit s (a ! i) else 0) OR (if s \<noteq> 0 \<and> j = i + k + 1 then drop_bit (32 - s) (a ! i) else 0)"
  using assms by (auto simp: shl_step_def Let_def nth_list_update)

lemma shl_fold:
  assumes "m \<le> length a"
  shows "length (fold (shl_step k s a) [0..<m] (replicate (length a) 0)) = length a \<and>
    (\<forall>j<length a. fold (shl_step k s a) [0..<m] (replicate (length a) 0) ! j =
       (if k \<le> j \<and> j - k < m then push_bit s (a ! (j - k)) else 0)
       OR (if s \<noteq> 0 \<and> k + 1 \<le> j \<and> j - k - 1 < m then drop_bit (32 - s) (a ! (j - k - 1)) else 0))"
  using assms
proof (induction m)
  case (Suc m)
  let ?p = "fold (shl_step k s a) [0..<m] (replicate (length a) 0)"
  have len: "length ?p = length a" using Suc by simp
  have "shl_step k s a m ?p ! j =
       (if k \<le> j \<and> j - k < Suc m then push_bit s (a ! (j - k)) else 0)
       OR (if s \<noteq> 0 \<and> k + 1 \<le> j \<and> j - k - 1 < Suc m then drop_bit (32 - s) (a ! (j - k - 1)) else 0)" if j: "j < length a" for j
  proof -
    have ih: "?p ! j = (if k \<le> j \<and> j - k < m then push_bit s (a ! (j - k)) else 0)
       OR (if s \<noteq> 0 \<and> k + 1 \<le> j \<and> j - k - 1 < m then drop_bit (32 - s) (a ! (j - k - 1)) else 0)"
      using Suc j by simp
    consider "j = m + k" | "j = m + k + 1" | "j \<noteq> m + k" "j \<noteq> m + k + 1" by blast
    then show ?thesis
    proof cases
      case 3
      then have "(k \<le> j \<and> j - k < Suc m) = (k \<le> j \<and> j - k < m)" "(k + 1 \<le> j \<and> j - k - 1 < Suc m) = (k + 1 \<le> j \<and> j - k - 1 < m)"
        by auto
      with 3 show ?thesis unfolding shl_step_nth [OF len j] ih by simp
    qed (unfold shl_step_nth [OF len j] ih, simp_all add: or.commute)
  qed
  with len show ?case by simp
qed simp

lemma length_shl [simp]: "length (arith_shl a n) = length a"
  using shl_fold [of "length a" a] by (simp add: arith_shl_def)

lemma shl_nth:
  "j < length a \<Longrightarrow> arith_shl a n ! j =
     (if n div 32 \<le> j then push_bit (n mod 32) (a ! (j - n div 32)) else 0)
     OR (if n mod 32 \<noteq> 0 \<and> n div 32 + 1 \<le> j then drop_bit (32 - n mod 32) (a ! (j - n div 32 - 1)) else 0)"
  using shl_fold [of "length a" a "n div 32" "n mod 32"] by (auto simp: arith_shl_def)

lemma val_eq_bits: "val a = (m :: nat) \<longleftrightarrow> (\<forall>n. bit (val a) n \<longleftrightarrow> bit m n)"
  by (auto intro: bit_eqI)

lemma bit_u32: "bit (x :: u32) n \<Longrightarrow> n < 32"
  using bit_imp_le_length [of x n] by simp

lemma divmod32: "n = 32 * a + b \<Longrightarrow> b < 32 \<Longrightarrow> n div 32 = a \<and> n mod 32 = b" for n :: nat
  by (metis add_cancel_right_right div_less div_mult_self4 mod_less mod_mult_self4 zero_neq_numeral)

lemma val_shl: "val (arith_shl a n) = (val a * 2 ^ n) mod modulus a"
proof -
  have "bit (val (arith_shl a n)) m \<longleftrightarrow> bit (take_bit (32 * length a) (push_bit n (val a))) m" for m
  proof -
    define q r j t where "q = n div 32" and "r = n mod 32" and "j = m div 32" and "t = m mod 32"
    have n: "n = 32 * q + r" "r < 32" and m: "m = 32 * j + t" "t < 32" by (simp_all add: q_def r_def j_def t_def)
    show ?thesis
    proof (cases "j < length a")
      case False
      then have "\<not> m < 32 * length a" using m by simp
      with False show ?thesis by (simp add: bit_val bit_take_bit_iff flip: j_def)
    next
      case True
      then have lt: "m < 32 * length a" using m by simp
      have l: "bit (val (arith_shl a n)) m \<longleftrightarrow>
          q \<le> j \<and> r \<le> t \<and> bit (a ! (j - q)) (t - r) \<or> r \<noteq> 0 \<and> q + 1 \<le> j \<and> bit (a ! (j - q - 1)) (t + (32 - r))"
        using True m(2) by (auto simp: bit_val shl_nth bit_or_iff bit_push_bit_iff bit_drop_bit_eq add.commute simp flip: j_def t_def q_def r_def)
      have rr: "bit (take_bit (32 * length a) (push_bit n (val a))) m \<longleftrightarrow> n \<le> m \<and> bit (val a) (m - n)"
        using lt by (simp add: bit_take_bit_iff bit_push_bit_iff)
      show ?thesis
      proof (cases "n \<le> m")
        case False
        then have "j < q \<or> j = q \<and> t < r" using n m by linarith
        then show ?thesis unfolding l rr using False by auto
      next
        case nm: True
        show ?thesis
        proof (cases "r \<le> t")
          case rt: True
          then have "m - n = 32 * (j - q) + (t - r)" "q \<le> j" using nm n m by (linarith | simp add: algebra_simps)+
          then have "(m - n) div 32 = j - q" "(m - n) mod 32 = t - r" using m(2) by simp_all
          moreover have "\<not> bit (a ! (j - q - 1)) (t + (32 - r))" using rt n(2) bit_u32 [of "a ! (j - q - 1)" "t + (32 - r)"] by auto
          ultimately show ?thesis unfolding l rr bit_val [of a "m - n"] using rt nm True \<open>q \<le> j\<close> by auto
        next
          case tr: False
          then have qj: "q + 1 \<le> j" using nm n m by linarith
          then obtain d where d: "j = q + 1 + d" using le_Suc_ex by blast
          then have "m - n = 32 * d + (t + (32 - r))" using tr n m by simp
          then have "(m - n) div 32 = j - q - 1" "(m - n) mod 32 = t + (32 - r)"
            using divmod32 [of "m - n" d "t + (32 - r)"] tr n(2) d by simp_all
          then show ?thesis unfolding l rr bit_val [of a "m - n"] using tr nm True qj by auto
        qed
      qed
    qed
  qed
  then have "val (arith_shl a n) = take_bit (32 * length a) (push_bit n (val a))" by (intro bit_eqI) blast
  then show ?thesis by (simp only: take_bit_eq_mod push_bit_eq_mult)
qed

lemma shr_step_nth:
  assumes "length pn = length a" "j < length a" "i < length a"
  shows "shr_step k s a i pn ! j =
    pn ! j OR (if i = j + k then drop_bit s (a ! i) else 0) OR (if s \<noteq> 0 \<and> i = j + k + 1 then push_bit (32 - s) (a ! i) else 0)"
  using assms by (auto simp: shr_step_def Let_def nth_list_update)

lemma shr_fold:
  assumes "m \<le> length a"
  shows "length (fold (shr_step k s a) [0..<m] (replicate (length a) 0)) = length a \<and>
    (\<forall>j<length a. fold (shr_step k s a) [0..<m] (replicate (length a) 0) ! j =
       (if j + k < m then drop_bit s (a ! (j + k)) else 0)
       OR (if s \<noteq> 0 \<and> j + k + 1 < m then push_bit (32 - s) (a ! (j + k + 1)) else 0))"
  using assms
proof (induction m)
  case (Suc m)
  let ?p = "fold (shr_step k s a) [0..<m] (replicate (length a) 0)"
  have len: "length ?p = length a" and m: "m < length a" using Suc by simp_all
  have "shr_step k s a m ?p ! j =
       (if j + k < Suc m then drop_bit s (a ! (j + k)) else 0)
       OR (if s \<noteq> 0 \<and> j + k + 1 < Suc m then push_bit (32 - s) (a ! (j + k + 1)) else 0)" if j: "j < length a" for j
  proof -
    have ih: "?p ! j = (if j + k < m then drop_bit s (a ! (j + k)) else 0)
       OR (if s \<noteq> 0 \<and> j + k + 1 < m then push_bit (32 - s) (a ! (j + k + 1)) else 0)"
      using Suc j by simp
    consider "m = j + k" | "m = j + k + 1" | "m \<noteq> j + k" "m \<noteq> j + k + 1" by blast
    then show ?thesis
      by cases (unfold shr_step_nth [OF len j m] ih, auto simp: less_Suc_eq or.commute)
  qed
  with len show ?case by simp
qed simp

lemma length_shr [simp]: "length (arith_shr a n) = length a"
  using shr_fold [of "length a" a] by (simp add: arith_shr_def)

lemma shr_nth:
  "j < length a \<Longrightarrow> arith_shr a n ! j =
     (if j + n div 32 < length a then drop_bit (n mod 32) (a ! (j + n div 32)) else 0)
     OR (if n mod 32 \<noteq> 0 \<and> j + n div 32 + 1 < length a then push_bit (32 - n mod 32) (a ! (j + n div 32 + 1)) else 0)"
  using shr_fold [of "length a" a "n div 32" "n mod 32"] by (auto simp: arith_shr_def)

lemma val_shr: "val (arith_shr a n) = val a div 2 ^ n"
proof -
  have "bit (val (arith_shr a n)) m \<longleftrightarrow> bit (drop_bit n (val a)) m" for m
  proof -
    define q r j t where "q = n div 32" and "r = n mod 32" and "j = m div 32" and "t = m mod 32"
    have n: "n = 32 * q + r" "r < 32" and m: "m = 32 * j + t" "t < 32" by (simp_all add: q_def r_def j_def t_def)
    have rr: "bit (drop_bit n (val a)) m \<longleftrightarrow> bit (val a) (m + n)" by (simp add: bit_drop_bit_eq add.commute)
    show ?thesis
    proof (cases "t + r < 32")
      case True
      then have "m + n = 32 * (j + q) + (t + r)" using n m by simp
      then have s: "(m + n) div 32 = j + q" "(m + n) mod 32 = t + r" using divmod32 True by blast+
      have "\<not> (32 - r \<le> t)" using True by simp
      then show ?thesis unfolding rr bit_val [of a] s
        by (auto simp: bit_val shr_nth bit_or_iff bit_push_bit_iff bit_drop_bit_eq add.commute
            simp flip: j_def t_def q_def r_def split: if_splits)
    next
      case False
      then have "m + n = 32 * (j + q + 1) + (t - (32 - r))" using n m by simp
      then have s: "(m + n) div 32 = j + q + 1" "(m + n) mod 32 = t - (32 - r)"
        using divmod32 [of "m + n" "j + q + 1" "t - (32 - r)"] n(2) m(2) by simp_all
      have "32 - r \<le> t" "r \<noteq> 0" "\<not> bit x (t + r)" for x :: u32 using False m(2) bit_u32 [of x "t + r"] by auto
      then show ?thesis unfolding rr bit_val [of a] s using m(2)
        by (auto simp: bit_val shr_nth bit_or_iff bit_push_bit_iff bit_drop_bit_eq add.commute
            simp flip: j_def t_def q_def r_def split: if_splits)
    qed
  qed
  then have "val (arith_shr a n) = drop_bit n (val a)" by (intro bit_eqI) blast
  then show ?thesis by (simp only: drop_bit_eq_div)
qed

section \<open>Division\<close>

lemma length_set_quotient_bit [simp]: "length (set_quotient_bit s q) = length q"
  by (simp add: set_quotient_bit_def)

lemma val_set_quotient_bit:
  assumes "s < 32 * length q" "\<not> bit (val q) s"
  shows "val (set_quotient_bit s q) = val q + 2 ^ s"
proof -
  have j: "s div 32 < length q" using assms(1) by (simp add: div_less_iff_less_mult mult.commute)
  have "bit (val (set_quotient_bit s q)) n \<longleftrightarrow> bit (val q OR push_bit s 1) n" for n
  proof -
    have "n = s \<longleftrightarrow> n div 32 = s div 32 \<and> n mod 32 = s mod 32" by (metis div_mult_mod_eq)
    moreover have "bit (push_bit s (1 :: nat)) n \<longleftrightarrow> n = s" "bit (push_bit (s mod 32) (1 :: u32)) (n mod 32) \<longleftrightarrow> n mod 32 = s mod 32"
      by (auto simp: bit_exp_iff)
    ultimately show ?thesis using j
      by (auto simp: bit_val set_quotient_bit_def nth_list_update bit_or_iff)
  qed
  then have "val (set_quotient_bit s q) = val q OR push_bit s 1" by (intro bit_eqI) blast
  moreover have "val q AND push_bit s 1 = 0"
    using assms(2) by (intro bit_eqI) (auto simp: bit_and_iff bit_exp_iff)
  ultimately show ?thesis by (simp add: disjunctive_add_eq_or push_bit_eq_mult flip: disjunctive_add_eq_or)
qed

lemma div_loop_val:
  assumes "s \<noteq> 0 \<Longrightarrow> val dv = D * 2 ^ (s - 1)" "length num = length dv" "length q = length dv" "0 < D"
    "val num < D * 2 ^ s" "2 ^ s dvd val q" "s \<le> 32 * length dv"
  shows "val (div_loop s num dv q) = (val num + D * val q) div D \<and> length (div_loop s num dv q) = length dv"
  using assms
proof (induction s arbitrary: num dv q)
  case 0
  then show ?case by simp
next
  case (Suc s)
  have dv: "val dv = D * 2 ^ s" using Suc.prems(1) by simp
  have half: "val (arith_shr dv 1) = D * 2 ^ (s - 1)" if "s \<noteq> 0"
    using that dv by (cases s) (simp_all add: val_shr)
  have dvd: "2 ^ s dvd val q" using Suc.prems(6) by (metis dvd_trans le_imp_power_dvd lessI less_imp_le)
  show ?case
  proof (cases "val dv \<le> val num")
    case True
    have "even (val q div 2 ^ s)" using Suc.prems(6) by (elim dvdE) simp
    then have "\<not> bit (val q) s" by (simp add: bit_iff_odd)
    then have q: "val (set_quotient_bit s q) = val q + 2 ^ s" using Suc.prems by (simp add: val_set_quotient_bit)
    have num: "val (arith_sub num dv) = val num - val dv" using True Suc.prems by (simp add: val_sub_le)
    have "val (div_loop s (arith_sub num dv) (arith_shr dv 1) (set_quotient_bit s q)) =
        (val (arith_sub num dv) + D * val (set_quotient_bit s q)) div D \<and>
        length (div_loop s (arith_sub num dv) (arith_shr dv 1) (set_quotient_bit s q)) = length (arith_shr dv 1)"
    proof (rule Suc.IH)
      show "s \<noteq> 0 \<Longrightarrow> val (arith_shr dv 1) = D * 2 ^ (s - 1)" by (rule half)
      show "val (arith_sub num dv) < D * 2 ^ s" using True Suc.prems(5) dv num by simp
      show "2 ^ s dvd val (set_quotient_bit s q)" using dvd q by simp
    qed (use Suc.prems in simp_all)
    moreover have "val (arith_sub num dv) + D * val (set_quotient_bit s q) = val num + D * val q"
      using True dv num q by (simp add: algebra_simps)
    moreover have "CompareTo num dv \<ge> 0" using True Suc.prems(2) by (simp add: CompareTo_val)
    ultimately show ?thesis by simp
  next
    case False
    have "val (div_loop s num (arith_shr dv 1) q) = (val num + D * val q) div D \<and>
        length (div_loop s num (arith_shr dv 1) q) = length (arith_shr dv 1)"
    proof (rule Suc.IH)
      show "s \<noteq> 0 \<Longrightarrow> val (arith_shr dv 1) = D * 2 ^ (s - 1)" by (rule half)
      show "val num < D * 2 ^ s" using False dv by simp
      show "2 ^ s dvd val q" by (rule dvd)
    qed (use Suc.prems in simp_all)
    moreover have "\<not> CompareTo num dv \<ge> 0" using False Suc.prems(2) by (simp add: CompareTo_val)
    ultimately show ?thesis by simp
  qed
qed

lemma bits_le_width: "arith_bits a \<le> 32 * length a"
  using val_less [of a] by (simp add: bits_le)

lemma arith_div_zero: "val b = 0 \<Longrightarrow> arith_div a b = None"
  by (simp add: arith_div_def Let_def bits_0)

lemma arith_div_val:
  assumes "length a = length b" "0 < val b"
  obtains q where "arith_div a b = Some q" "val q = val a div val b" "length q = length b"
proof (cases "arith_bits a < arith_bits b")
  case True
  have nz: "arith_bits b \<noteq> 0" using assms(2) by (simp add: bits_0)
  have "val a < 2 ^ arith_bits a" by (simp flip: bits_le)
  also have "\<dots> \<le> 2 ^ (arith_bits b - 1)" using True by (intro power_increasing) simp_all
  also have "\<dots> \<le> val b" using assms(2) by (rule bits_lower)
  finally show thesis using True nz assms by (intro that [of "replicate (length a) 0"]) (simp_all add: arith_div_def Let_def)
next
  case False
  let ?s = "arith_bits a - arith_bits b"
  let ?q = "div_loop (Suc ?s) a (arith_shl b ?s) (replicate (length a) 0)"
  have nz: "arith_bits b \<noteq> 0" using assms(2) by (simp add: bits_0)
  have a: "val a < 2 ^ arith_bits a" and b: "val b < 2 ^ arith_bits b" by (simp_all flip: bits_le)
  have "val b * 2 ^ ?s < 2 ^ arith_bits b * 2 ^ ?s" using b by simp
  also have "\<dots> = 2 ^ arith_bits a" using False by (simp flip: power_add)
  also have "\<dots> \<le> modulus b" using bits_le_width [of a] assms(1) by (intro power_increasing) simp_all
  finally have shl: "val (arith_shl b ?s) = val b * 2 ^ ?s" by (simp add: val_shl)
  have "arith_bits a = Suc (arith_bits b - 1) + ?s" using nz False by simp
  then have "(2::nat) ^ arith_bits a = 2 * 2 ^ (arith_bits b - 1) * 2 ^ ?s" by (metis power_Suc power_add)
  also have "\<dots> \<le> 2 * val b * 2 ^ ?s" using bits_lower [OF assms(2)] by simp
  finally have "val a < val b * 2 ^ Suc ?s" using a by simp
  then have "val ?q = (val a + val b * val (replicate (length a) 0)) div val b \<and> length ?q = length (arith_shl b ?s)"
    using shl assms nz bits_le_width [of a] False by (intro div_loop_val) simp_all
  then show thesis using False nz assms by (intro that [of ?q]) (simp_all add: arith_div_def Let_def)
qed

lemma length_of_u64 [simp]: "length (arith_of_u64 b) = 8"
  by (simp add: arith_of_u64_def)

lemma val_of_u64: "val (arith_of_u64 b) = unat b"
proof -
  have l: "unat (ucast b :: u32) = unat b mod 2 ^ 32" by (simp add: unsigned_ucast_eq take_bit_eq_mod)
  have "unat (drop_bit 32 b) < 2 ^ 32" using unsigned_less [of b] by (simp add: high_limb div_less_iff_less_mult)
  then have h: "unat (ucast (drop_bit 32 b) :: u32) = unat b div 2 ^ 32"
    by (simp add: unsigned_ucast_eq take_bit_nat_eq_self high_limb)
  have "replicate 6 (0::u32) = [0, 0, 0, 0, 0, 0]" by (simp add: numeral_eq_Suc)
  then show ?thesis using l h by (simp add: arith_of_u64_def)
qed

lemma unat_GetLow64: "2 \<le> length a \<Longrightarrow> unat (GetLow64 a) = val a mod 2 ^ 64"
proof -
  assume "2 \<le> length a"
  then obtain x y r where a: "a = x # y # r" by (cases a; cases "tl a") auto
  have lt: "unat y * 2 ^ 32 < 2 ^ 64" using unat_u32_less [of y] by simp
  then have "unat (push_bit 32 (ucast y) :: u64) = push_bit 32 (unat y)"
    by (simp only: unsigned_push_bit_eq unat_u32_u64) (simp add: push_bit_eq_mult take_bit_nat_eq_self)
  then have "unat (GetLow64 a) = unat x OR push_bit 32 (unat y)" by (simp add: a GetLow64_def unsigned_or_eq unat_u32_u64)
  also have "\<dots> = unat x + 2 ^ 32 * unat y" using or_push_bit_nat [of "unat x" 32 "unat y"] unat_u32_less [of x] by (simp add: push_bit_eq_mult)
  also have "\<dots> = val a mod 2 ^ 64"
  proof -
    have "val a = unat x + 2 ^ 32 * unat y + 2 ^ 64 * val r" by (simp add: a)
    moreover have "unat x + 2 ^ 32 * unat y < 2 ^ 64" using unat_u32_less [of x] unat_u32_less [of y] by simp
    ultimately show ?thesis by simp
  qed
  finally show ?thesis .
qed

lemma val_0_iff: "val a = 0 \<longleftrightarrow> (\<forall>x\<in>set a. x = 0)"
  by (induction a) (auto simp: unat_eq_zero)

lemma digits_eq_iff: "d < B \<Longrightarrow> e < B \<Longrightarrow> d + B * m = e + B * n \<longleftrightarrow> d = e \<and> m = n" for B :: nat
proof
  assume d: "d < B" and e: "e < B" and eq: "d + B * m = e + B * n"
  from eq have "(d + B * m) mod B = (e + B * n) mod B" by simp
  with d e have "d = e" by simp
  with eq d show "d = e \<and> m = n" by simp
qed simp

lemma EqualTo_val: "2 \<le> length a \<Longrightarrow> EqualTo a b \<longleftrightarrow> val a = unat b"
proof -
  assume "2 \<le> length a"
  then obtain x y r where a: "a = x # y # r" by (cases a; cases "tl a") auto
  have hi: "unat b div 2 ^ 32 < 2 ^ 32" using unsigned_less [of b] by (simp add: div_less_iff_less_mult)
  have "val a = unat b \<longleftrightarrow> unat x + 2 ^ 32 * (unat y + 2 ^ 32 * val r) = unat b mod 2 ^ 32 + 2 ^ 32 * (unat b div 2 ^ 32 + 2 ^ 32 * 0)"
    by (simp add: a)
  also have "\<dots> \<longleftrightarrow> unat x = unat b mod 2 ^ 32 \<and> unat y = unat b div 2 ^ 32 \<and> val r = 0"
    using unat_u32_less [of x] unat_u32_less [of y] hi by (simp only: digits_eq_iff mod_less_divisor zero_less_power zero_less_numeral zero_less_one)
  also have "unat x = unat b mod 2 ^ 32 \<longleftrightarrow> ucast x = b AND 0xffffffff"
  proof -
    have "unat (b AND 0xffffffff) = unat b mod 2 ^ 32"
    proof -
      have "(0xffffffff :: u64) = mask 32" by (simp add: mask_eq_exp_minus_1)
      then have "b AND 0xffffffff = take_bit 32 b" by (simp only: take_bit_eq_mask)
      then show ?thesis by (simp only: unsigned_take_bit_eq take_bit_eq_mod [of 32 "unat b"])
    qed
    then show ?thesis by (simp only: word_unat_eq_iff unat_u32_u64)
  qed
  also have "unat y = unat b div 2 ^ 32 \<longleftrightarrow> ucast y = drop_bit 32 b"
    by (simp only: word_unat_eq_iff unat_u32_u64 high_limb)
  finally show ?thesis by (auto simp: a EqualTo_def val_0_iff)
qed

section \<open>The compact encoding\<close>

lemma unat_drop_bit32: "unat (drop_bit n (x :: u32)) = unat x div 2 ^ n"
proof -
  have "take_bit 32 (unat x) = unat x" using unat_u32_less [of x] by (simp add: take_bit_nat_eq_self)
  then show ?thesis by (simp only: unsigned_drop_bit_eq) (simp add: drop_bit_eq_div)
qed

lemma unat_and_mask32: "unat (x AND mask n :: u32) = unat x mod 2 ^ n"
  by (simp only: unsigned_take_bit_eq take_bit_eq_mod [of n "unat x"] flip: take_bit_eq_mask)

lemma mantissa_unat: "unat (c AND 0x007fffff :: u32) = compact_mantissa c"
proof -
  have "(0x007fffff :: u32) = mask 23" by (simp add: mask_eq_exp_minus_1)
  then show ?thesis by (simp only: unat_and_mask32 compact_mantissa_def)
qed

lemma size_unat: "unat (drop_bit 24 c :: u32) = compact_size c"
  by (simp only: unat_drop_bit32 compact_size_def)

lemma mantissa_less: "compact_mantissa c < 2 ^ 23"
  by (simp add: compact_mantissa_def)

lemma size_less: "compact_size c < 256"
  using unat_u32_less [of c] by (simp add: compact_size_def div_less_iff_less_mult)

lemma compact_value_small: "compact_size c \<le> 3 \<Longrightarrow> compact_value c = compact_mantissa c div 256 ^ (3 - compact_size c)"
proof -
  assume "compact_size c \<le> 3"
  then have "(256::nat) ^ 3 = 256 ^ (3 - compact_size c) * 256 ^ compact_size c" by (simp flip: power_add)
  then show ?thesis unfolding compact_value_def by (simp only:) (rule div_mult_mult2, simp)
qed

lemma compact_value_large: "3 \<le> compact_size c \<Longrightarrow> compact_value c = compact_mantissa c * 256 ^ (compact_size c - 3)"
proof -
  assume "3 \<le> compact_size c"
  then have "(256::nat) ^ compact_size c = 256 ^ (compact_size c - 3) * 256 ^ 3"
    by (simp only: power_add [symmetric] le_add_diff_inverse2)
  then show ?thesis by (simp only: compact_value_def mult.assoc [symmetric]) simp
qed

lemma word_limits: "x > 0xff \<longleftrightarrow> 2 ^ 8 \<le> unat x" "x > 0xffff \<longleftrightarrow> 2 ^ 16 \<le> unat x" for x :: u32
  by (simp_all add: word_less_nat_alt Suc_le_eq [symmetric])

lemma overflow_iff:
  fixes s m :: nat
  assumes "3 \<le> s" "m < 2 ^ 23" "0 < m"
  shows "2 ^ 256 \<le> m * 256 ^ (s - 3) \<longleftrightarrow> s > 34 \<or> (2 ^ 8 \<le> m \<and> s > 33) \<or> (2 ^ 16 \<le> m \<and> s > 32)"
proof -
  have p: "(256::nat) ^ (s - 3) = 2 ^ (8 * (s - 3))" by (simp add: power_mult)
  consider "s \<le> 32" | "s = 33" | "s = 34" | "35 \<le> s" by linarith
  then show ?thesis
  proof cases
    case 1
    have "m * 2 ^ (8 * (s - 3)) < 2 ^ 23 * 2 ^ (8 * (s - 3))" using assms by simp
    also have "\<dots> \<le> 2 ^ 23 * 2 ^ 232" using 1 by (intro mult_le_mono2 power_increasing) simp_all
    also have "\<dots> < (2::nat) ^ 256" by simp
    finally show ?thesis using 1 p by simp
  next
    case 4
    have "(2::nat) ^ 256 \<le> 2 ^ (8 * (s - 3))" using 4 by (intro power_increasing) simp_all
    also have "\<dots> \<le> m * 2 ^ (8 * (s - 3))" using assms by simp
    finally show ?thesis using 4 p by simp
  qed (use p in auto)
qed

lemma SetCompact_spec:
  obtains a neg where "SetCompact c = (a, neg, 2 ^ 256 \<le> compact_value c)" "length a = 8"
    "val a = compact_value c mod 2 ^ 256" "neg \<longleftrightarrow> 0 < compact_value c \<and> bit c 23"
proof -
  let ?s = "compact_size c" and ?m = "compact_mantissa c"
  define w where "w = (if ?s \<le> 3 then drop_bit (8 * (3 - ?s)) (c AND 0x007fffff) else c AND 0x007fffff)"
  define a where "a = (if ?s \<le> 3 then arith_of_u64 (ucast w) else arith_shl (arith_of_u64 (ucast w)) (8 * (?s - 3)))"
  have w: "unat w = (if ?s \<le> 3 then ?m div 256 ^ (3 - ?s) else ?m)"
    unfolding w_def by (simp only: unat_drop_bit32 mantissa_unat power_mult if_distrib [of unat]) simp
  have sign: "c AND 0x00800000 \<noteq> 0 \<longleftrightarrow> bit c 23"
    using and_exp_eq_0_iff_not_bit [of c 23] by simp
  have a: "length a = 8" "val a = compact_value c mod 2 ^ 256"
  proof -
    show len: "length a = 8" by (simp add: a_def)
    show "val a = compact_value c mod 2 ^ 256"
    proof (cases "?s \<le> 3")
      case True
      then have "val a = compact_value c" by (simp add: a_def val_of_u64 unat_u32_u64 w compact_value_small)
      moreover have "val a < 2 ^ 256" using val_less [of a] len by simp
      ultimately show ?thesis by simp
    next
      case False
      then show ?thesis by (simp add: a_def val_shl val_of_u64 unat_u32_u64 w compact_value_large power_mult)
    qed
  qed
  have pos: "w \<noteq> 0 \<longleftrightarrow> 0 < compact_value c"
    using w compact_value_small [of c] compact_value_large [of c] unat_gt_0 [of w] by (cases "?s \<le> 3") auto
  have ovf: "w \<noteq> 0 \<and> (?s > 34 \<or> (w > 0xff \<and> ?s > 33) \<or> (w > 0xffff \<and> ?s > 32)) \<longleftrightarrow> 2 ^ 256 \<le> compact_value c"
  proof (cases "3 < ?s")
    case True
    then have m: "unat w = ?m" using w by simp
    show ?thesis
    proof (cases "0 < ?m")
      case pm: True
      with overflow_iff [of ?s ?m] True mantissa_less m show ?thesis
        by (simp add: word_limits compact_value_large unat_gt_0 [symmetric])
    next
      case False
      with True m show ?thesis by (simp add: compact_value_large unat_gt_0 [symmetric])
    qed
  next
    case False
    have "compact_value c \<le> ?m" using False by (simp add: compact_value_small)
    then have "compact_value c < 2 ^ 23" using mantissa_less [of c] by linarith
    then have "\<not> 2 ^ 256 \<le> compact_value c" by simp
    with False show ?thesis by simp
  qed
  have "SetCompact c = (a, w \<noteq> 0 \<and> c AND 0x00800000 \<noteq> 0, w \<noteq> 0 \<and> (?s > 34 \<or> (w > 0xff \<and> ?s > 33) \<or> (w > 0xffff \<and> ?s > 32)))"
    unfolding SetCompact_def Let_def size_unat w_def a_def by simp
  then have "SetCompact c = (a, w \<noteq> 0 \<and> c AND 0x00800000 \<noteq> 0, 2 ^ 256 \<le> compact_value c)" by (simp only: ovf)
  then show thesis using a by (rule that) (simp only: pos sign)
qed

lemma compact_parts: "unat c = compact_mantissa c + of_bool (bit c 23) * 2 ^ 23 + 2 ^ 24 * compact_size c"
proof -
  have "unat c = unat c mod 2 ^ 24 + 2 ^ 24 * (unat c div 2 ^ 24)" by simp
  also have "unat c mod 2 ^ 24 = unat c mod 2 ^ 23 + 2 ^ 23 * (unat c div 2 ^ 23 mod 2)"
    using mod_mult2_eq [of "unat c" "2 ^ 23" 2] by simp
  also have "unat c div 2 ^ 23 mod 2 = of_bool (bit c 23)"
  proof -
    have "bit c 23 \<longleftrightarrow> bit (unat c) 23" by (simp add: bit_unsigned_iff)
    then show ?thesis by (simp only: bit_iff_odd [of "unat c"] of_bool_odd_eq_mod_2)
  qed
  finally show ?thesis by (simp add: compact_mantissa_def compact_size_def)
qed

lemma compact_eqI:
  "\<not> bit c 23 \<Longrightarrow> \<not> bit d 23 \<Longrightarrow> compact_mantissa c = compact_mantissa d \<Longrightarrow> compact_size c = compact_size d \<Longrightarrow> c = d"
  using compact_parts [of c] compact_parts [of d] by (simp add: word_unat_eq_iff)

lemma mantissa_unique:
  fixes V :: nat
  assumes "2 ^ 15 \<le> V div 256 ^ s" "V div 256 ^ s < 2 ^ 23" "2 ^ 15 \<le> V div 256 ^ t" "V div 256 ^ t < 2 ^ 23"
  shows "s = t"
proof -
  have le: "t \<le> s" if "2 ^ 15 \<le> V div 256 ^ t" "V div 256 ^ s < 2 ^ 23" for s t
  proof (rule ccontr)
    assume "\<not> t \<le> s"
    then obtain d where d: "t = s + 1 + d" using le_Suc_ex [of "s + 1" t] by auto
    have "V div 256 ^ t = V div 256 ^ s div 256 div 256 ^ d"
      by (simp only: d power_add div_mult2_eq power_one_right)
    also have "\<dots> \<le> V div 256 ^ s div 256" by (rule div_le_dividend)
    also have "\<dots> < 2 ^ 15" using that(2) by (subst div_less_iff_less_mult) simp_all
    finally show False using that(1) by simp
  qed
  from le [of t s] le [of s t] assms show ?thesis by simp
qed

lemma sign_bit32: "x AND 0x00800000 \<noteq> 0 \<longleftrightarrow> bit x 23" for x :: u32
  using and_exp_eq_0_iff_not_bit [of x 23] by simp

lemma scaled_size:
  fixes V :: nat
  assumes "0 < val a" "V = val a * 256 ^ 3" "s = (arith_bits a + 7) div 8"
  shows "2 ^ 16 \<le> V div 256 ^ s" "V div 256 ^ s < 2 ^ 24" "0 < s" "s * 8 \<le> arith_bits a + 7"
proof -
  let ?b = "arith_bits a"
  have b: "0 < ?b" using assms(1) bits_0 [of a] by simp
  then show s: "0 < s" by (simp add: assms(3))
  show "s * 8 \<le> ?b + 7" by (simp add: assms(3))
  have "val a < 2 ^ ?b" by (simp flip: bits_le)
  also have "(2::nat) ^ ?b \<le> 2 ^ (8 * s)" using assms(3) by (intro power_increasing) simp_all
  also have "\<dots> = 256 ^ s" by (simp add: power_mult)
  finally show "V div 256 ^ s < 2 ^ 24" unfolding assms(2) by (simp add: div_less_iff_less_mult mult.commute)
  have "(256::nat) ^ (s - 1) = 2 ^ (8 * (s - 1))" by (simp add: power_mult)
  also have "\<dots> \<le> 2 ^ (?b - 1)" using assms(3) b by (intro power_increasing) simp_all
  also have "\<dots> \<le> val a" using assms(1) by (rule bits_lower)
  finally have "256 ^ (s - 1) * 256 ^ 3 \<le> V" unfolding assms(2) by (rule mult_le_mono1)
  moreover have "(256::nat) ^ (s - 1) * 256 ^ 3 = 2 ^ 16 * 256 ^ s" using s by (cases s) simp_all
  ultimately show "2 ^ 16 \<le> V div 256 ^ s" by (simp add: less_eq_div_iff_mult_less_eq)
qed

lemma unat_ucast32: "unat (x :: u64) < 2 ^ 32 \<Longrightarrow> unat (ucast x :: u32) = unat x"
  by (simp add: unsigned_ucast_eq take_bit_nat_eq_self)

lemma unat_push_bit64: "unat x * 2 ^ n < 2 ^ 64 \<Longrightarrow> unat (push_bit n x :: u64) = unat x * 2 ^ n"
  by (simp only: unsigned_push_bit_eq) (simp add: push_bit_eq_mult take_bit_nat_eq_self)

lemma pow256_split: "3 \<le> s \<Longrightarrow> (256::nat) ^ s = 256 ^ 3 * 256 ^ (s - 3)"
  by (simp only: power_add [symmetric] le_add_diff_inverse)

text \<open>The mantissa before the sign bit is kept clear.\<close>

lemma mantissa0:
  fixes a :: arith_uint256
  defines "s \<equiv> (arith_bits a + 7) div 8"
  assumes "length a = 8" "0 < val a"
  shows "unat ((if s \<le> 3 then ucast (push_bit (8 * (3 - s)) (GetLow64 a)) else ucast (GetLow64 (arith_shr a (8 * (s - 3))))) :: u32)
     = val a * 256 ^ 3 div 256 ^ s"
proof -
  note sz = scaled_size [OF assms(3) refl s_def [THEN meta_eq_to_obj_eq]]
  show ?thesis
  proof (cases "s \<le> 3")
    case True
    then have p: "(256::nat) ^ 3 = 256 ^ (3 - s) * 256 ^ s" by (simp flip: power_add)
    have V: "val a * 256 ^ 3 div 256 ^ s = val a * 256 ^ (3 - s)" unfolding p by simp
    have lt: "val a * 256 ^ (3 - s) < 2 ^ 24" using sz(2) by (simp only: V)
    have "val a * 1 \<le> val a * 256 ^ (3 - s)" by (intro mult_le_mono2) simp
    with lt have "val a < 2 ^ 24" by linarith
    then have g: "unat (GetLow64 a) = val a" using assms(2) by (simp add: unat_GetLow64)
    have e: "val a * 256 ^ (3 - s) = unat (GetLow64 a) * 2 ^ (8 * (3 - s))" by (simp add: g power_mult)
    have "unat (GetLow64 a) * 2 ^ (8 * (3 - s)) < 2 ^ 64" using lt unfolding e by simp
    then have u: "unat (push_bit (8 * (3 - s)) (GetLow64 a)) = val a * 256 ^ (3 - s)" unfolding e by (rule unat_push_bit64)
    then have "unat (push_bit (8 * (3 - s)) (GetLow64 a)) < 2 ^ 32" using lt by simp
    then show ?thesis using True unat_ucast32 u V by simp
  next
    case False
    then have p: "(256::nat) ^ s = 256 ^ 3 * 256 ^ (s - 3)" by (intro pow256_split) simp
    have V: "val a * 256 ^ 3 div 256 ^ s = val a div 256 ^ (s - 3)" unfolding p by (simp add: mult.commute)
    have v: "val (arith_shr a (8 * (s - 3))) = val a div 256 ^ (s - 3)" by (simp add: val_shr power_mult)
    have lt: "val a div 256 ^ (s - 3) < 2 ^ 24" using sz(2) by (simp only: V)
    then have g: "unat (GetLow64 (arith_shr a (8 * (s - 3)))) = val a div 256 ^ (s - 3)"
      using assms(2) v by (simp add: unat_GetLow64)
    then have "unat (GetLow64 (arith_shr a (8 * (s - 3)))) < 2 ^ 32" using lt by simp
    then show ?thesis using False unat_ucast32 g V by simp
  qed
qed

lemma GetCompact_zero: "length a = 8 \<Longrightarrow> val a = 0 \<Longrightarrow> GetCompact a False = Some 0"
proof -
  assume "length a = 8" "val a = 0"
  then have "GetLow64 a = 0" "arith_bits a = 0" by (simp_all add: unat_GetLow64 bits_0 unat_eq_zero [symmetric])
  then show ?thesis by (simp add: GetCompact_def Let_def)
qed

lemma compact_or:
  assumes "unat m < 2 ^ 23" "s < 256"
  shows "unat (m OR push_bit 24 (of_nat s) :: u32) = unat m + 2 ^ 24 * s"
proof -
  have "unat (push_bit 24 (of_nat s) :: u32) = push_bit 24 s"
    using assms(2) by (simp only: unsigned_push_bit_eq unsigned_of_nat) (simp add: push_bit_eq_mult take_bit_nat_eq_self)
  then have "unat (m OR push_bit 24 (of_nat s) :: u32) = unat m OR push_bit 24 s" by (simp only: unsigned_or_eq)
  also have "\<dots> = unat m + push_bit 24 s" using assms(1) by (intro or_push_bit_nat) simp
  finally show ?thesis by (simp add: push_bit_eq_mult)
qed

lemma GetCompact_spec:
  assumes "length a = 8" "0 < val a"
  obtains c where "GetCompact a False = Some c" "\<not> bit c 23" "2 ^ 15 \<le> compact_mantissa c"
    "compact_mantissa c = val a * 256 ^ 3 div 256 ^ compact_size c"
proof -
  define s0 where "s0 = (arith_bits a + 7) div 8"
  define c0 where "c0 = ((if s0 \<le> 3 then ucast (push_bit (8 * (3 - s0)) (GetLow64 a)) else ucast (GetLow64 (arith_shr a (8 * (s0 - 3))))) :: u32)"
  define c1 where "c1 = (if c0 AND 0x00800000 \<noteq> 0 then drop_bit 8 c0 else c0)"
  define s where "s = (if c0 AND 0x00800000 \<noteq> 0 then s0 + 1 else s0)"
  define V where "V = val a * 256 ^ 3"
  have m0: "unat c0 = V div 256 ^ s0" unfolding c0_def s0_def V_def using assms by (rule mantissa0)
  note sz = scaled_size [OF assms(2) V_def s0_def]
  have top: "c0 AND 0x00800000 \<noteq> 0 \<longleftrightarrow> 2 ^ 23 \<le> unat c0"
  proof -
    have "unat c0 < 2 ^ Suc 23" using sz(2) m0 by simp
    moreover have "bit c0 23 = bit (unat c0) 23" by (simp add: bit_unsigned_iff)
    ultimately show ?thesis by (simp only: sign_bit32 top_bit)
  qed
  have c1: "unat c1 = V div 256 ^ s \<and> unat c1 < 2 ^ 23 \<and> 2 ^ 15 \<le> unat c1"
  proof (cases "2 ^ 23 \<le> unat c0")
    case True
    then have "unat c1 = unat c0 div 256" "s = s0 + 1" using top by (simp_all only: c1_def s_def unat_drop_bit32 if_True) simp_all
    moreover have "V div 256 ^ (s0 + 1) = V div 256 ^ s0 div 256" by (simp only: power_add div_mult2_eq power_one_right)
    ultimately show ?thesis using True sz(2) m0 by (simp add: div_less_iff_less_mult less_eq_div_iff_mult_less_eq)
  next
    case False
    then have "c1 = c0" "s = s0" using top by (simp_all only: c1_def s_def if_False)
    then show ?thesis using False sz(1) m0 by simp
  qed
  have "s0 \<le> 32" using bits_le_width [of a] assms(1) by (simp add: s0_def)
  then have s: "s < 256" by (simp add: s_def)
  have "c1 AND NOT 0x007fffff = 0"
  proof -
    have m: "(0x007fffff :: u32) = mask 23" by (simp add: mask_eq_exp_minus_1)
    have "unat (c1 AND mask 23) = unat c1" using c1 by (simp add: unat_and_mask32)
    then have "c1 AND mask 23 = c1" by (simp only: word_unat_eq_iff)
    then have "c1 AND NOT (mask 23) = (c1 AND mask 23) AND NOT (mask 23)" by simp
    then show ?thesis unfolding m by (simp only: and.assoc bit.conj_cancel_right and_zero_eq)
  qed
  then have get: "GetCompact a False = Some (c1 OR push_bit 24 (of_nat s))"
    unfolding GetCompact_def Let_def s0_def [symmetric] c0_def [symmetric] c1_def [symmetric] s_def [symmetric] using s by simp
  let ?c = "c1 OR push_bit 24 (of_nat s)"
  have u: "unat ?c = unat c1 + 2 ^ 24 * s" using c1 s by (intro compact_or) simp_all
  have lt: "unat c1 < 2 ^ 23" using c1 by blast
  have size: "compact_size ?c = s" unfolding compact_size_def u using lt by simp
  have "unat c1 + 2 ^ 24 * s = unat c1 + 2 ^ 23 * (2 * s)" by simp
  then have mantissa: "compact_mantissa ?c = unat c1"
    unfolding compact_mantissa_def u using lt by (simp only: mod_mult_self2 mod_less)
  have "\<not> bit ?c 23" using compact_parts [of ?c] unfolding u size mantissa by simp
  then show thesis using that [OF get] c1 unfolding size mantissa V_def [symmetric] by blast
qed

lemma SetCompact_GetCompact:
  assumes "length a = 8"
  obtains c a' where "GetCompact a False = Some c" "compact_canonical c" "SetCompact c = (a', False, False)"
    "length a' = 8" "val a' \<le> val a" "2 ^ 15 * (val a - val a') \<le> val a'"
proof (cases "val a = 0")
  case True
  then have "GetCompact a False = Some 0" using assms by (simp add: GetCompact_zero)
  moreover obtain a' neg where "SetCompact 0 = (a', neg, 2 ^ 256 \<le> compact_value 0)" "length a' = 8"
    "val a' = compact_value 0 mod 2 ^ 256" "neg \<longleftrightarrow> 0 < compact_value 0 \<and> bit (0::u32) 23" by (rule SetCompact_spec)
  moreover have "compact_value 0 = 0" by (simp add: compact_value_def compact_mantissa_def)
  ultimately show thesis using True by (intro that [of 0 a']) (simp_all add: compact_canonical_def)
next
  case False
  then have pos: "0 < val a" by simp
  obtain c where c: "GetCompact a False = Some c" "\<not> bit c 23" "2 ^ 15 \<le> compact_mantissa c"
    "compact_mantissa c = val a * 256 ^ 3 div 256 ^ compact_size c" using assms pos by (rule GetCompact_spec)
  obtain a' neg where a': "SetCompact c = (a', neg, 2 ^ 256 \<le> compact_value c)" "length a' = 8"
    "val a' = compact_value c mod 2 ^ 256" "neg \<longleftrightarrow> 0 < compact_value c \<and> bit c 23" by (rule SetCompact_spec)
  let ?s = "compact_size c" and ?m = "compact_mantissa c"
  have "compact_value c \<le> val a \<and> 2 ^ 15 * (val a - compact_value c) \<le> compact_value c \<and> 256 ^ 3 dvd ?m * 256 ^ ?s"
  proof (cases "?s \<le> 3")
    case True
    then have p: "(256::nat) ^ 3 = 256 ^ (3 - ?s) * 256 ^ ?s" by (simp flip: power_add)
    have m: "?m = val a * 256 ^ (3 - ?s)" unfolding c(4) p by simp
    have e: "?m * 256 ^ ?s = val a * 256 ^ 3" unfolding p by (simp only: m mult.assoc)
    have "compact_value c = val a" unfolding compact_value_def e by simp
    then show ?thesis unfolding e by simp
  next
    case large: False
    let ?k = "?s - 3"
    have p: "(256::nat) ^ ?s = 256 ^ 3 * 256 ^ ?k" using large by (intro pow256_split) simp
    have m: "?m = val a div 256 ^ ?k" unfolding c(4) p by (simp add: mult.commute)
    have v: "compact_value c = val a div 256 ^ ?k * 256 ^ ?k" using large m by (simp add: compact_value_large)
    have "val a = val a div 256 ^ ?k * 256 ^ ?k + val a mod 256 ^ ?k" by (simp only: div_mult_mod_eq)
    moreover have "val a mod 256 ^ ?k < 256 ^ ?k" by simp
    ultimately have err: "val a - compact_value c \<le> 256 ^ ?k" "compact_value c \<le> val a" unfolding v by linarith+
    have "2 ^ 15 * 256 ^ ?k \<le> compact_value c" unfolding v m [symmetric] using c(3) by (rule mult_le_mono1)
    moreover have "2 ^ 15 * (val a - compact_value c) \<le> 2 ^ 15 * 256 ^ ?k" using err(1) by (rule mult_le_mono2)
    moreover have "256 ^ 3 dvd ?m * 256 ^ ?s" unfolding p by simp
    ultimately show ?thesis using err(2) by linarith
  qed
  moreover have "val a < 2 ^ 256" using val_less [of a] assms by simp
  ultimately show thesis using c a' by (intro that [of c a']) (simp_all add: compact_canonical_def)
qed

lemma GetCompact_SetCompact:
  assumes "compact_canonical c" "SetCompact c = (a, neg, ovf)"
  shows "GetCompact a False = Some c"
proof -
  obtain a' neg' where a': "SetCompact c = (a', neg', 2 ^ 256 \<le> compact_value c)" "length a' = 8"
    "val a' = compact_value c mod 2 ^ 256" by (rule SetCompact_spec)
  with assms have a: "length a = 8" "val a = compact_value c mod 2 ^ 256" by simp_all
  show ?thesis
  proof (cases "c = 0")
    case True
    with a show ?thesis by (simp add: GetCompact_zero compact_value_def compact_mantissa_def)
  next
    case False
    with assms(1) have can: "\<not> bit c 23" "2 ^ 15 \<le> compact_mantissa c"
      "256 ^ 3 dvd compact_mantissa c * 256 ^ compact_size c" "compact_value c < 2 ^ 256"
      by (simp_all add: compact_canonical_def)
    have V: "val a * 256 ^ 3 = compact_mantissa c * 256 ^ compact_size c"
      using a(2) can(3, 4) by (simp only: mod_less compact_value_def dvd_div_mult_self)
    have "0 < compact_mantissa c * 256 ^ compact_size c" using can(2) by simp
    then have pos: "0 < val a" unfolding V [symmetric] by (simp only: nat_0_less_mult_iff)
    obtain d where d: "GetCompact a False = Some d" "\<not> bit d 23" "2 ^ 15 \<le> compact_mantissa d"
      "compact_mantissa d = val a * 256 ^ 3 div 256 ^ compact_size d" using a(1) pos by (rule GetCompact_spec)
    have mc: "compact_mantissa c = val a * 256 ^ 3 div 256 ^ compact_size c" unfolding V by simp
    have "compact_size c = compact_size d"
      using mantissa_unique [of "val a * 256 ^ 3" "compact_size c" "compact_size d"] can(2) d(3) mantissa_less [of c] mantissa_less [of d]
      by (simp only: mc [symmetric] d(4) [symmetric])
    moreover from this have "compact_mantissa c = compact_mantissa d" using mc d(4) by simp
    ultimately have "c = d" using can(1) d(2) by (intro compact_eqI [of c d])
    with d(1) show ?thesis by simp
  qed
qed

section \<open>Byte strings\<close>

lemma UintToArith256_val: "length h = 32 \<Longrightarrow> val (UintToArith256 h) = le_nat h"
proof -
  have "val (map (\<lambda>x. ReadLE32 (drop (4 * x) h)) [0..<n]) = le_nat h" if "length h = 4 * n" for n h
    using that
  proof (induction n arbitrary: h)
    case (Suc n)
    have "map (\<lambda>x. ReadLE32 (drop (4 * x) h)) [0..<Suc n] =
        ReadLE32 h # map (\<lambda>x. ReadLE32 (drop (4 * x) (drop 4 h))) [0..<n]"
      by (subst upt_conv_Cons) (simp_all add: map_Suc_upt [symmetric] add.commute del: upt_Suc)
    moreover have "unat (ReadLE32 h) = le_nat (take 4 h)" by (rule unat_ReadLE)
    moreover have "le_nat h = le_nat (take 4 h) + 256 ^ 4 * le_nat (drop 4 h)"
      using le_nat_append [of "take 4 h" "drop 4 h"] Suc.prems by simp
    moreover have "val (map (\<lambda>x. ReadLE32 (drop (4 * x) (drop 4 h))) [0..<n]) = le_nat (drop 4 h)"
      using Suc.prems by (intro Suc.IH) simp
    ultimately show ?case by (simp only: val.simps) simp
  qed simp
  from this [of h 8] show "length h = 32 \<Longrightarrow> ?thesis" by (simp add: UintToArith256_def)
qed

lemma length_UintToArith256 [simp]: "length (UintToArith256 h) = 8"
  by (simp add: UintToArith256_def)

lemma ArithToUint256_le_bytes: "ArithToUint256 a = le_bytes (4 * length a) (val a)"
proof (induction a)
  case (Cons x xs)
  have "le_bytes (4 + k) (unat x + 2 ^ 32 * n) = WriteLE32 x @ le_bytes k n" for k n
  proof -
    have "le_bytes (j + k) (d + 256 ^ j * n) = le_bytes j d @ le_bytes k n" if "d < 256 ^ j" for j d
      using that
    proof (induction j arbitrary: d)
      case (Suc j)
      then have "d div 256 < 256 ^ j" by (simp add: div_less_iff_less_mult mult.commute)
      moreover have "(d + 256 ^ Suc j * n) div 256 = d div 256 + 256 ^ j * n" by (simp add: mult.assoc)
      moreover have "(word_of_nat (d + 256 ^ Suc j * n) :: byte) = word_of_nat d"
        by (simp only: word_unat_eq_iff unat_byte_of_nat power_Suc mult.assoc mod_mult_self2)
      ultimately show ?case using Suc.IH [of "d div 256"] by simp
    qed simp
    from this [of "unat x" 4] unat_u32_less [of x] show ?thesis by (simp add: WriteLE32_def)
  qed
  with Cons show ?case by (simp add: ArithToUint256_def)
qed (simp add: ArithToUint256_def)

lemma ArithToUint256_UintToArith256: "length h = 32 \<Longrightarrow> ArithToUint256 (UintToArith256 h) = h"
  using le_bytes_le_nat [of h] by (simp add: ArithToUint256_le_bytes UintToArith256_val)

lemma borrow: "0 < B \<Longrightarrow> 0 < M \<Longrightarrow> B - 1 + B * (v + (M - 1)) = B * v + (B * M - 1)" for B M v :: nat
  by (cases B; cases M) (simp_all add: algebra_simps)

lemma val_dec: "val (arith_dec a) = (val a + (modulus a - 1)) mod modulus a"
proof (induction a rule: arith_dec.induct)
  case (2 x xs)
  show ?case
  proof (cases "x = 0")
    case True
    have "unat (- 1 :: u32) = 2 ^ 32 - 1" by (simp add: unsigned_minus_1_eq_mask mask_eq_exp_minus_1)
    then have "val (arith_dec (x # xs)) = (2 ^ 32 - 1) mod 2 ^ 32 + 2 ^ 32 * (((2 ^ 32 - 1) div 2 ^ 32 + (val xs + (modulus xs - 1))) mod modulus xs)"
      using True 2 by simp
    also have "\<dots> = (2 ^ 32 - 1 + 2 ^ 32 * (val xs + (modulus xs - 1))) mod modulus (x # xs)"
      unfolding modulus_Cons by (rule digit_mod [symmetric]) simp
    also have "2 ^ 32 - 1 + 2 ^ 32 * (val xs + (modulus xs - 1)) = val (x # xs) + (modulus (x # xs) - 1)"
      using borrow [of "2 ^ 32" "modulus xs" "val xs"] True unfolding modulus_Cons by simp
    finally show ?thesis .
  next
    case False
    have pos: "0 < unat x" using False by (simp add: unat_gt_0)
    have "x - 1 \<noteq> - 1" using False by auto
    moreover have "unat (x - 1) = unat x - 1" using False by (rule unat_minus_one)
    ultimately have v: "val (arith_dec (x # xs)) = val (x # xs) - 1" using pos by simp
    have "0 < val (x # xs)" "0 < modulus (x # xs)" using pos by simp_all
    then have eq: "val (x # xs) + (modulus (x # xs) - 1) = val (x # xs) - 1 + modulus (x # xs)" by linarith
    have "val (x # xs) - 1 < modulus (x # xs)" using val_less [of "x # xs"] by linarith
    then show ?thesis unfolding v eq by (simp only: mod_add_self2 mod_less)
  qed
qed simp

section \<open>Properties\<close>

text \<open>
  C26: The 256-bit arithmetic computes with the numbers that the limbs represent: sums, differences, products and left
  shifts modulo 2 to the 256, right shifts and quotients exactly, complements, comparisons and bit lengths as of
  those numbers.  Division fails for a zero divisor and for no other, and its loop gives the exact quotient.
\<close>
theorem arith_uint256_correct:
  assumes "length a = 8" "length b = 8"
  shows "val (arith_add a b) = (val a + val b) mod 2 ^ 256 \<and>
    val (arith_sub a b) = (val a + (2 ^ 256 - val b)) mod 2 ^ 256 \<and>
    val (arith_mul a b) = (val a * val b) mod 2 ^ 256 \<and>
    val (arith_mul32 a c) = (val a * unat c) mod 2 ^ 256 \<and>
    val (arith_shl a n) = (val a * 2 ^ n) mod 2 ^ 256 \<and>
    val (arith_shr a n) = val a div 2 ^ n \<and>
    val (arith_not a) = 2 ^ 256 - 1 - val a \<and>
    CompareTo a b = sgn (int (val a) - int (val b)) \<and>
    (arith_bits a \<le> n \<longleftrightarrow> val a < 2 ^ n) \<and>
    (case arith_div a b of None \<Rightarrow> val b = 0 | Some q \<Rightarrow> val b \<noteq> 0 \<and> length q = 8 \<and> val q = val a div val b)"
proof -
  have m: "modulus a = 2 ^ 256" "modulus b = 2 ^ 256" using assms by simp_all
  have "val (arith_not a) = 2 ^ 256 - 1 - val a" using val_not [of a] m by simp
  moreover have "CompareTo a b = sgn (int (val a) - int (val b))" using assms by (simp add: CompareTo_val)
  moreover have "case arith_div a b of None \<Rightarrow> val b = 0 | Some q \<Rightarrow> val b \<noteq> 0 \<and> length q = 8 \<and> val q = val a div val b"
  proof (cases "val b = 0")
    case False
    have "length a = length b" "0 < val b" using assms False by simp_all
    then show ?thesis by (rule arith_div_val) (use False in \<open>simp add: assms\<close>)
  qed (simp add: arith_div_zero)
  ultimately show ?thesis using assms
    by (simp add: val_add val_sub val_mul val_mul32 val_shl val_shr bits_le m del: power_numeral)
qed

lemma arith_uint256_correct_witness:
  "val (arith_mul (arith_of_u64 5) (arith_of_u64 7)) = 35 \<and>
   (\<exists>q. arith_div (arith_of_u64 1000) (arith_of_u64 7) = Some q \<and> val q = 142)"
proof -
  note c = arith_uint256_correct [of "arith_of_u64 _" "arith_of_u64 _", OF length_of_u64 length_of_u64]
  have "val (arith_mul (arith_of_u64 5) (arith_of_u64 7)) = 35" using c [of 5 7] by (simp add: val_of_u64)
  moreover have "\<exists>q. arith_div (arith_of_u64 1000) (arith_of_u64 7) = Some q \<and> val q = 142"
    using c [of 1000 7] by (cases "arith_div (arith_of_u64 1000) (arith_of_u64 7)") (simp_all add: val_of_u64)
  ultimately show ?thesis ..
qed

text \<open>
  C27: The compact encoding of targets is canonical and nearly exact.  Encoding a 256-bit number never fails an
  assertion; decoding the result gives no sign and no overflow and a number that is at most the original
  and less than one part in 32768 below it.  Decoding an encoding of this form and encoding the number again gives the same
  32 bits.
\<close>
theorem compact_target_codec:
  assumes "length a = 8" "compact_canonical d"
  shows "(\<exists>c a'. GetCompact a False = Some c \<and> compact_canonical c \<and> SetCompact c = (a', False, False)
      \<and> val a' \<le> val a \<and> 2 ^ 15 * (val a - val a') \<le> val a') \<and>
    GetCompact (fst (SetCompact d)) False = Some d"
proof
  show "\<exists>c a'. GetCompact a False = Some c \<and> compact_canonical c \<and> SetCompact c = (a', False, False)
      \<and> val a' \<le> val a \<and> 2 ^ 15 * (val a - val a') \<le> val a'"
    using assms(1) by (rule SetCompact_GetCompact) blast
  show "GetCompact (fst (SetCompact d)) False = Some d"
    using GetCompact_SetCompact [OF assms(2)] by (cases "SetCompact d") simp
qed

lemma compact_target_codec_witness:
  "compact_canonical 0x1d00ffff \<and> GetCompact (fst (SetCompact 0x1d00ffff)) False = Some 0x1d00ffff \<and>
   (\<exists>c. GetCompact (arith_of_u64 0x123456789) False = Some c \<and> compact_canonical c)"
proof -
  have c: "compact_canonical 0x1d00ffff"
    by (simp add: compact_canonical_def compact_value_def compact_mantissa_def compact_size_def)
  from compact_target_codec [OF length_of_u64 [of "0x123456789"] c] c show ?thesis by blast
qed

end
