(* ===== verification/Chain.thy ===== *)
theory Chain
  imports Transaction ArithUint256
begin

text \<open>
  The tree of block headers and the active chain (\<^verbatim>\<open>src/src/chain.h\<close>, \<^verbatim>\<open>src/src/chain.cpp\<close>) and the insertion of a
  header into the tree (\<^verbatim>\<open>AddToBlockIndex\<close> of \<^verbatim>\<open>src/src/validation.cpp\<close>).

  \<^verbatim>\<open>mapBlockIndex\<close> owns one \<^verbatim>\<open>CBlockIndex\<close> per block hash and never moves it, so the hash stands for the
  pointer: \<open>mapBlockIndex\<close> is the store, a pointer is a hash, and a null pointer is \<^const>\<open>None\<close>.  A function
  returns \<^const>\<open>None\<close> when an assertion fails, a pointer leads nowhere, or a loop over \<^verbatim>\<open>pprev\<close> does not end.
  The lemmas show that on the trees the code builds none of this happens, that skip pointers lead to the block that
  following \<^verbatim>\<open>pprev\<close> leads to, and what the searches for common ancestors return.
\<close>

unbundle bit_operations_syntax

section \<open>Block index entries\<close>

type_synonym block_ptr = bytes

record CBlockIndex =
  pprev :: "block_ptr option"
  pskip :: "block_ptr option"
  bi_nHeight :: nat
  bi_nFile :: int
  nDataPos :: u32
  nUndoPos :: u32
  nChainWork :: arith_uint256
  nTx :: u32
  nChainTx :: u32
  nStatus :: u32
  bi_nVersion :: int
  bi_hashMerkleRoot :: bytes
  bi_nTime :: u32
  bi_nBits :: u32
  bi_nNonce :: u32
  nSequenceId :: int
  nTimeMax :: u32

type_synonym BlockMap = "block_ptr \<Rightarrow> CBlockIndex option"

definition CBlockIndex_new :: "'a CBlockHeader_scheme \<Rightarrow> CBlockIndex" where
  "CBlockIndex_new block =
     \<lparr>pprev = None, pskip = None, bi_nHeight = 0, bi_nFile = 0, nDataPos = 0, nUndoPos = 0,
      nChainWork = replicate 8 0, nTx = 0, nChainTx = 0, nStatus = 0,
      bi_nVersion = hdr_nVersion block, bi_hashMerkleRoot = hashMerkleRoot block, bi_nTime = nTime block,
      bi_nBits = nBits block, bi_nNonce = nNonce block, nSequenceId = 0, nTimeMax = 0\<rparr>"

abbreviation (input) BLOCK_VALID_HEADER :: u32 where "BLOCK_VALID_HEADER \<equiv> 1"
abbreviation (input) BLOCK_VALID_TREE :: u32 where "BLOCK_VALID_TREE \<equiv> 2"
abbreviation (input) BLOCK_VALID_TRANSACTIONS :: u32 where "BLOCK_VALID_TRANSACTIONS \<equiv> 3"
abbreviation (input) BLOCK_VALID_CHAIN :: u32 where "BLOCK_VALID_CHAIN \<equiv> 4"
abbreviation (input) BLOCK_VALID_SCRIPTS :: u32 where "BLOCK_VALID_SCRIPTS \<equiv> 5"
abbreviation (input) BLOCK_VALID_MASK :: u32 where "BLOCK_VALID_MASK \<equiv> 1 OR 2 OR 3 OR 4 OR 5"
abbreviation (input) BLOCK_HAVE_DATA :: u32 where "BLOCK_HAVE_DATA \<equiv> 8"
abbreviation (input) BLOCK_HAVE_UNDO :: u32 where "BLOCK_HAVE_UNDO \<equiv> 16"
abbreviation (input) BLOCK_FAILED_MASK :: u32 where "BLOCK_FAILED_MASK \<equiv> 32 OR 64"

text \<open>The null position has file \<^verbatim>\<open>-1\<close>.\<close>

record CDiskBlockPos =
  pos_nFile :: int
  nPos :: u32

definition CDiskBlockPos_IsNull :: "CDiskBlockPos \<Rightarrow> bool" where
  "CDiskBlockPos_IsNull pos \<longleftrightarrow> pos_nFile pos = - 1"

definition GetBlockPos :: "CBlockIndex \<Rightarrow> CDiskBlockPos" where
  "GetBlockPos x =
     (if nStatus x AND BLOCK_HAVE_DATA \<noteq> 0 then \<lparr>pos_nFile = bi_nFile x, nPos = nDataPos x\<rparr> else \<lparr>pos_nFile = - 1, nPos = 0\<rparr>)"

definition GetUndoPos :: "CBlockIndex \<Rightarrow> CDiskBlockPos" where
  "GetUndoPos x =
     (if nStatus x AND BLOCK_HAVE_UNDO \<noteq> 0 then \<lparr>pos_nFile = bi_nFile x, nPos = nUndoPos x\<rparr> else \<lparr>pos_nFile = - 1, nPos = 0\<rparr>)"

definition CBlockIndex_GetBlockTime :: "CBlockIndex \<Rightarrow> int" where
  "CBlockIndex_GetBlockTime x = int (unat (bi_nTime x))"

definition GetBlockTimeMax :: "CBlockIndex \<Rightarrow> int" where
  "GetBlockTimeMax x = int (unat (nTimeMax x))"

definition CBlockIndex_GetBlockHeader :: "CBlockIndex \<Rightarrow> CBlockHeader" where
  "CBlockIndex_GetBlockHeader x =
     \<lparr>hdr_nVersion = bi_nVersion x, hashPrevBlock = (case pprev x of None \<Rightarrow> null_uint256 | Some p \<Rightarrow> p),
      hashMerkleRoot = bi_hashMerkleRoot x, nTime = bi_nTime x, nBits = bi_nBits x, nNonce = bi_nNonce x\<rparr>"

text \<open>The last of at most eleven block times before sorting are those of the block itself.\<close>

abbreviation (input) nMedianTimeSpan :: nat where "nMedianTimeSpan \<equiv> 11"

fun median_times :: "BlockMap \<Rightarrow> nat \<Rightarrow> block_ptr option \<Rightarrow> int list \<Rightarrow> int list option" where
  "median_times m 0 pindex acc = Some acc"
| "median_times m (Suc n) None acc = Some acc"
| "median_times m (Suc n) (Some p) acc =
     (case m p of
        None \<Rightarrow> None
      | Some x \<Rightarrow> median_times m n (pprev x) (CBlockIndex_GetBlockTime x # acc))"

definition GetMedianTimePast :: "BlockMap \<Rightarrow> block_ptr \<Rightarrow> int option" where
  "GetMedianTimePast m p =
     (case median_times m nMedianTimeSpan (Some p) [] of
        None \<Rightarrow> None
      | Some ts \<Rightarrow> Some (sort ts ! (length ts div 2)))"

text \<open>\<^const>\<open>None\<close> is the assertion that \<^verbatim>\<open>nUpTo\<close> has validity bits only.\<close>

definition CBlockIndex_IsValid :: "CBlockIndex \<Rightarrow> u32 \<Rightarrow> bool option" where
  "CBlockIndex_IsValid x nUpTo =
     (if nUpTo AND NOT BLOCK_VALID_MASK \<noteq> 0 then None
      else Some (if nStatus x AND BLOCK_FAILED_MASK \<noteq> 0 then False else nStatus x AND BLOCK_VALID_MASK \<ge> nUpTo))"

definition RaiseValidity :: "CBlockIndex \<Rightarrow> u32 \<Rightarrow> (bool \<times> CBlockIndex) option" where
  "RaiseValidity x nUpTo =
     (if nUpTo AND NOT BLOCK_VALID_MASK \<noteq> 0 then None
      else Some
        (if nStatus x AND BLOCK_FAILED_MASK \<noteq> 0 then (False, x)
         else if nStatus x AND BLOCK_VALID_MASK < nUpTo
         then (True, x\<lparr>nStatus := (nStatus x AND NOT BLOCK_VALID_MASK) OR nUpTo\<rparr>)
         else (False, x)))"

section \<open>Ancestors\<close>

definition InvertLowestOne :: "nat \<Rightarrow> nat" where
  "InvertLowestOne n = n AND (n - 1)"

definition GetSkipHeight :: "nat \<Rightarrow> nat" where
  "GetSkipHeight height =
     (if height < 2 then 0
      else if height AND 1 \<noteq> 0 then InvertLowestOne (InvertLowestOne (height - 1)) + 1
      else InvertLowestOne height)"

lemma InvertLowestOne_le: "InvertLowestOne n \<le> n - 1"
proof -
  have "int (n AND (n - 1)) = int n AND int (n - 1)" by (simp add: of_nat_and_eq)
  also have "\<dots> \<le> int (n - 1)" by (rule AND_upper2) simp
  finally show ?thesis by (simp add: InvertLowestOne_def)
qed

lemma GetSkipHeight_less: "0 < h \<Longrightarrow> GetSkipHeight h < h"
  using InvertLowestOne_le [of h] InvertLowestOne_le [of "h - 1"] InvertLowestOne_le [of "InvertLowestOne (h - 1)"]
  by (auto simp: GetSkipHeight_def)

function GetAncestor_loop :: "BlockMap \<Rightarrow> nat \<Rightarrow> block_ptr \<Rightarrow> nat \<Rightarrow> block_ptr option" where
  "GetAncestor_loop m height pindexWalk heightWalk =
     (if heightWalk > height then
        (case m pindexWalk of
           None \<Rightarrow> None
         | Some x \<Rightarrow>
             let heightSkip = GetSkipHeight heightWalk; heightSkipPrev = GetSkipHeight (heightWalk - 1) in
             if pskip x \<noteq> None \<and>
                (heightSkip = height \<or> (heightSkip > height \<and> \<not> (heightSkipPrev + 2 < heightSkip \<and> heightSkipPrev \<ge> height)))
             then GetAncestor_loop m height (the (pskip x)) heightSkip
             else
               (case pprev x of
                  None \<Rightarrow> None
                | Some q \<Rightarrow> GetAncestor_loop m height q (heightWalk - 1)))
      else Some pindexWalk)"
  by auto
termination
  by (relation "measure (\<lambda>(_, _, _, h). h)") (auto intro: GetSkipHeight_less)

declare GetAncestor_loop.simps [simp del]

text \<open>The result is a pointer that may be null, or a failure.\<close>

definition GetAncestor :: "BlockMap \<Rightarrow> block_ptr \<Rightarrow> int \<Rightarrow> block_ptr option option" where
  "GetAncestor m p height =
     (case m p of
        None \<Rightarrow> None
      | Some x \<Rightarrow>
          if height > int (bi_nHeight x) \<or> height < 0 then Some None
          else map_option Some (GetAncestor_loop m (nat height) p (bi_nHeight x)))"

definition BuildSkip :: "BlockMap \<Rightarrow> CBlockIndex \<Rightarrow> CBlockIndex option" where
  "BuildSkip m x =
     (case pprev x of
        None \<Rightarrow> Some x
      | Some q \<Rightarrow>
          (case GetAncestor m q (int (GetSkipHeight (bi_nHeight x))) of
             None \<Rightarrow> None
           | Some r \<Rightarrow> Some (x\<lparr>pskip := r\<rparr>)))"

section \<open>Work\<close>

definition GetBlockProof :: "CBlockIndex \<Rightarrow> arith_uint256 option" where
  "GetBlockProof block =
     (case SetCompact (bi_nBits block) of
        (bnTarget, fNegative, fOverflow) \<Rightarrow>
          if fNegative \<or> fOverflow \<or> EqualTo bnTarget 0 then Some (arith_of_u64 0)
          else
            (case arith_div (arith_not bnTarget) (arith_add bnTarget (arith_of_u64 1)) of
               None \<Rightarrow> None
             | Some q \<Rightarrow> Some (arith_add q (arith_of_u64 1))))"

text \<open>The division fails, as the code's does, when the tip has no proof of work.\<close>

definition GetBlockProofEquivalentTime ::
    "CBlockIndex \<Rightarrow> CBlockIndex \<Rightarrow> CBlockIndex \<Rightarrow> u64 \<Rightarrow> int option" where
  "GetBlockProofEquivalentTime to from tip nPowTargetSpacing =
     (let later = CompareTo (nChainWork to) (nChainWork from) > 0;
          r = (if later then arith_sub (nChainWork to) (nChainWork from) else arith_sub (nChainWork from) (nChainWork to));
          sign = (if later then 1 else - 1)
      in case GetBlockProof tip of
           None \<Rightarrow> None
         | Some proof_tip \<Rightarrow>
             (case arith_div (arith_mul r (arith_of_u64 nPowTargetSpacing)) proof_tip of
                None \<Rightarrow> None
              | Some q \<Rightarrow> Some (if arith_bits q > 63 then sign * (2 ^ 63 - 1) else sign * int (unat (GetLow64 q)))))"

section \<open>Inserting a header\<close>

record block_index_state =
  mapBlockIndex :: BlockMap
  pindexBestHeader :: "block_ptr option"
  setDirtyBlockIndex :: "block_ptr set"

definition link_to_prev :: "BlockMap \<Rightarrow> block_ptr \<Rightarrow> CBlockIndex \<Rightarrow> CBlockIndex option" where
  "link_to_prev m hashPrev pindexNew =
     (case m hashPrev of
        None \<Rightarrow> Some pindexNew
      | Some prev \<Rightarrow> BuildSkip m (pindexNew\<lparr>pprev := Some hashPrev, bi_nHeight := bi_nHeight prev + 1\<rparr>))"

text \<open>The time, work and validity of the new entry.\<close>

definition complete_entry :: "BlockMap \<Rightarrow> CBlockIndex \<Rightarrow> CBlockIndex option" where
  "complete_entry m x =
     (let prev = (case pprev x of None \<Rightarrow> None | Some q \<Rightarrow> m q);
          x' = x\<lparr>nTimeMax := (case prev of None \<Rightarrow> bi_nTime x | Some y \<Rightarrow> max (nTimeMax y) (bi_nTime x))\<rparr>
      in (case GetBlockProof x' of
            None \<Rightarrow> None
          | Some work \<Rightarrow>
              map_option snd
                (RaiseValidity
                  (x'\<lparr>nChainWork := arith_add (case prev of None \<Rightarrow> arith_of_u64 0 | Some y \<Rightarrow> nChainWork y) work\<rparr>)
                  BLOCK_VALID_TREE)))"

definition AddToBlockIndex ::
    "(nat \<Rightarrow> bytes \<Rightarrow> bytes) \<Rightarrow> 'a CBlockHeader_scheme \<Rightarrow> block_index_state \<Rightarrow> (block_ptr \<times> block_index_state) option" where
  "AddToBlockIndex sph block s =
     (let hash = CBlockHeader_GetHash sph block;
          m = (mapBlockIndex s)(hash \<mapsto> CBlockIndex_new block)
      in if mapBlockIndex s hash \<noteq> None then Some (hash, s)
         else
           (case link_to_prev m (hashPrevBlock block) (CBlockIndex_new block) of
              None \<Rightarrow> None
            | Some x \<Rightarrow>
                (case complete_entry m x of
                   None \<Rightarrow> None
                 | Some pindexNew \<Rightarrow>
                     let m' = m(hash \<mapsto> pindexNew);
                         s' = s\<lparr>mapBlockIndex := m', setDirtyBlockIndex := insert hash (setDirtyBlockIndex s)\<rparr>
                     in (case pindexBestHeader s of
                           None \<Rightarrow> Some (hash, s'\<lparr>pindexBestHeader := Some hash\<rparr>)
                         | Some b \<Rightarrow>
                             (case m' b of
                                None \<Rightarrow> None
                              | Some y \<Rightarrow>
                                  Some (hash, if CompareTo (nChainWork y) (nChainWork pindexNew) < 0
                                              then s'\<lparr>pindexBestHeader := Some hash\<rparr> else s'))))))"

section \<open>The active chain\<close>

type_synonym CChain = "block_ptr option list"

definition CChain_Genesis :: "CChain \<Rightarrow> block_ptr option" where
  "CChain_Genesis vChain = (if length vChain > 0 then vChain ! 0 else None)"

definition CChain_Tip :: "CChain \<Rightarrow> block_ptr option" where
  "CChain_Tip vChain = (if length vChain > 0 then vChain ! (length vChain - 1) else None)"

definition CChain_at :: "CChain \<Rightarrow> int \<Rightarrow> block_ptr option" where
  "CChain_at vChain nHeight = (if nHeight < 0 \<or> nHeight \<ge> int (length vChain) then None else vChain ! nat nHeight)"

definition CChain_Height :: "CChain \<Rightarrow> int" where
  "CChain_Height vChain = int (length vChain) - 1"

definition CChain_Contains :: "BlockMap \<Rightarrow> CChain \<Rightarrow> block_ptr \<Rightarrow> bool option" where
  "CChain_Contains m vChain p =
     (case m p of None \<Rightarrow> None | Some x \<Rightarrow> Some (CChain_at vChain (int (bi_nHeight x)) = Some p))"

definition CChain_Next :: "BlockMap \<Rightarrow> CChain \<Rightarrow> block_ptr \<Rightarrow> block_ptr option option" where
  "CChain_Next m vChain p =
     (case m p of
        None \<Rightarrow> None
      | Some x \<Rightarrow>
          (case CChain_Contains m vChain p of
             Some True \<Rightarrow> Some (CChain_at vChain (int (bi_nHeight x) + 1))
           | _ \<Rightarrow> Some None))"

definition resize_chain :: "CChain \<Rightarrow> nat \<Rightarrow> CChain" where
  "resize_chain vChain n = take n vChain @ replicate (n - length vChain) None"

partial_function (option) SetTip_loop :: "BlockMap \<Rightarrow> block_ptr option \<Rightarrow> CChain \<Rightarrow> CChain option" where
  "SetTip_loop m pindex vChain =
     (case pindex of
        None \<Rightarrow> Some vChain
      | Some p \<Rightarrow>
          (case m p of
             None \<Rightarrow> None
           | Some x \<Rightarrow>
               if \<not> bi_nHeight x < length vChain then None
               else if vChain ! bi_nHeight x \<noteq> Some p
               then SetTip_loop m (pprev x) (vChain[bi_nHeight x := Some p])
               else Some vChain))"

definition SetTip :: "BlockMap \<Rightarrow> block_ptr option \<Rightarrow> CChain \<Rightarrow> CChain option" where
  "SetTip m pindex vChain =
     (case pindex of
        None \<Rightarrow> Some []
      | Some p \<Rightarrow>
          (case m p of
             None \<Rightarrow> None
           | Some x \<Rightarrow> SetTip_loop m (Some p) (resize_chain vChain (bi_nHeight x + 1))))"

partial_function (option) FindFork_loop :: "BlockMap \<Rightarrow> CChain \<Rightarrow> block_ptr option \<Rightarrow> block_ptr option option" where
  "FindFork_loop m vChain pindex =
     (case pindex of
        None \<Rightarrow> Some None
      | Some p \<Rightarrow>
          (case m p of
             None \<Rightarrow> None
           | Some x \<Rightarrow>
               if CChain_Contains m vChain p = Some True then Some (Some p)
               else FindFork_loop m vChain (pprev x)))"

definition FindFork :: "BlockMap \<Rightarrow> CChain \<Rightarrow> block_ptr option \<Rightarrow> block_ptr option option" where
  "FindFork m vChain pindex =
     (case pindex of
        None \<Rightarrow> Some None
      | Some p \<Rightarrow>
          (case m p of
             None \<Rightarrow> None
           | Some x \<Rightarrow>
               if int (bi_nHeight x) > CChain_Height vChain then
                 (case GetAncestor m p (CChain_Height vChain) of
                    None \<Rightarrow> None
                  | Some q \<Rightarrow> FindFork_loop m vChain q)
               else FindFork_loop m vChain (Some p)))"

partial_function (option) GetLocator_loop ::
    "BlockMap \<Rightarrow> CChain \<Rightarrow> nat \<Rightarrow> bytes list \<Rightarrow> block_ptr option \<Rightarrow> bytes list option" where
  "GetLocator_loop m vChain nStep vHave pindex =
     (case pindex of
        None \<Rightarrow> Some vHave
      | Some p \<Rightarrow>
          (case m p of
             None \<Rightarrow> None
           | Some x \<Rightarrow>
               let vHave' = vHave @ [p] in
               if bi_nHeight x = 0 then Some vHave'
               else
                 let nHeight = bi_nHeight x - nStep;
                     nStep' = (if length vHave' > 10 then nStep * 2 else nStep)
                 in (case (if CChain_Contains m vChain p = Some True then Some (CChain_at vChain (int nHeight))
                          else GetAncestor m p (int nHeight)) of
                      None \<Rightarrow> None
                    | Some q \<Rightarrow> GetLocator_loop m vChain nStep' vHave' q)))"

definition GetLocator :: "BlockMap \<Rightarrow> CChain \<Rightarrow> block_ptr option \<Rightarrow> bytes list option" where
  "GetLocator m vChain pindex =
     GetLocator_loop m vChain 1 [] (case pindex of None \<Rightarrow> CChain_Tip vChain | Some p \<Rightarrow> Some p)"

text \<open>\<^verbatim>\<open>std::lower_bound\<close> on a range that the comparison partitions.\<close>

definition FindEarliestAtLeast :: "BlockMap \<Rightarrow> CChain \<Rightarrow> int \<Rightarrow> block_ptr option" where
  "FindEarliestAtLeast m vChain t =
     (case dropWhile (\<lambda>b. case b of None \<Rightarrow> False | Some p \<Rightarrow> (case m p of None \<Rightarrow> False | Some x \<Rightarrow> GetBlockTimeMax x < t)) vChain of
        [] \<Rightarrow> None
      | b # _ \<Rightarrow> b)"

partial_function (option) LastCommonAncestor_loop ::
    "BlockMap \<Rightarrow> block_ptr option \<Rightarrow> block_ptr option \<Rightarrow> block_ptr option option" where
  "LastCommonAncestor_loop m pa pb =
     (case (pa, pb) of
        (Some a, Some b) \<Rightarrow>
          if a = b then Some (Some a)
          else
            (case (m a, m b) of
               (Some x, Some y) \<Rightarrow> LastCommonAncestor_loop m (pprev x) (pprev y)
             | _ \<Rightarrow> None)
      | (None, None) \<Rightarrow> Some None
      | _ \<Rightarrow> None)"

definition LastCommonAncestor :: "BlockMap \<Rightarrow> block_ptr \<Rightarrow> block_ptr \<Rightarrow> block_ptr option option" where
  "LastCommonAncestor m pa pb =
     (case (m pa, m pb) of
        (Some x, Some y) \<Rightarrow>
          if bi_nHeight x > bi_nHeight y then
            (case GetAncestor m pa (int (bi_nHeight y)) of
               None \<Rightarrow> None
             | Some a \<Rightarrow> LastCommonAncestor_loop m a (Some pb))
          else if bi_nHeight y > bi_nHeight x then
            (case GetAncestor m pb (int (bi_nHeight x)) of
               None \<Rightarrow> None
             | Some b \<Rightarrow> LastCommonAncestor_loop m (Some pa) b)
          else LastCommonAncestor_loop m (Some pa) (Some pb)
      | _ \<Rightarrow> None)"

section \<open>The block index and the active chain\<close>

primrec nth_pprev :: "BlockMap \<Rightarrow> nat \<Rightarrow> block_ptr \<Rightarrow> block_ptr option" where
  "nth_pprev m 0 p = Some p"
| "nth_pprev m (Suc n) p =
     (case m p of
        None \<Rightarrow> None
      | Some x \<Rightarrow> (case pprev x of None \<Rightarrow> None | Some q \<Rightarrow> nth_pprev m n q))"

text \<open>
  The shape of the tree: the height of a block is one more than its parent's, the root's is zero, and a skip pointer
  leads to the ancestor at the height computed for it.
\<close>

definition linked :: "BlockMap \<Rightarrow> CBlockIndex \<Rightarrow> bool" where
  "linked m x \<longleftrightarrow>
     (case pprev x of
        None \<Rightarrow> bi_nHeight x = 0
      | Some q \<Rightarrow> (case m q of None \<Rightarrow> False | Some y \<Rightarrow> bi_nHeight x = bi_nHeight y + 1))"

definition skip_ok :: "BlockMap \<Rightarrow> block_ptr \<Rightarrow> CBlockIndex \<Rightarrow> bool" where
  "skip_ok m p x \<longleftrightarrow>
     (case pskip x of
        None \<Rightarrow> True
      | Some r \<Rightarrow> nth_pprev m (bi_nHeight x - GetSkipHeight (bi_nHeight x)) p = Some r)"

definition tree_ok :: "BlockMap \<Rightarrow> bool" where
  "tree_ok m \<longleftrightarrow> (\<forall>p x. m p = Some x \<longrightarrow> linked m x \<and> skip_ok m p x)"

definition block_work :: "u32 \<Rightarrow> nat" where
  "block_work c =
     (if compact_value c = 0 \<or> 2 ^ 256 \<le> compact_value c \<or> bit c 23 then 0 else 2 ^ 256 div (compact_value c + 1))"

text \<open>
  The derived fields: the greatest time and the total work on the path from the root, and the bit that says that the
  header has been checked against its parent.
\<close>

definition entry_fields_ok :: "BlockMap \<Rightarrow> CBlockIndex \<Rightarrow> bool" where
  "entry_fields_ok m x \<longleftrightarrow>
     length (nChainWork x) = 8 \<and> nStatus x AND BLOCK_VALID_MASK \<ge> BLOCK_VALID_TREE \<and>
     (case pprev x of
        None \<Rightarrow> nTimeMax x = bi_nTime x \<and> val (nChainWork x) = block_work (bi_nBits x)
      | Some q \<Rightarrow>
          (case m q of
             None \<Rightarrow> False
           | Some y \<Rightarrow>
               nTimeMax x = max (nTimeMax y) (bi_nTime x) \<and>
               val (nChainWork x) = (val (nChainWork y) + block_work (bi_nBits x)) mod 2 ^ 256))"

text \<open>The best header is a block of the tree, and none has more work.\<close>

definition best_header_ok :: "block_index_state \<Rightarrow> bool" where
  "best_header_ok s \<longleftrightarrow>
     (case pindexBestHeader s of
        None \<Rightarrow> mapBlockIndex s = Map.empty
      | Some b \<Rightarrow>
          (case mapBlockIndex s b of
             None \<Rightarrow> False
           | Some y \<Rightarrow> (\<forall>p x. mapBlockIndex s p = Some x \<longrightarrow> val (nChainWork x) \<le> val (nChainWork y))))"

definition block_index_ok :: "block_index_state \<Rightarrow> bool" where
  "block_index_ok s \<longleftrightarrow>
     tree_ok (mapBlockIndex s) \<and> (\<forall>p x. mapBlockIndex s p = Some x \<longrightarrow> entry_fields_ok (mapBlockIndex s) x) \<and> best_header_ok s"

text \<open>What a new block changes: its entry, the dirty set and, when it has more work than the best one, the best header.\<close>

definition insert_entry :: "block_index_state \<Rightarrow> block_ptr \<Rightarrow> CBlockIndex \<Rightarrow> block_index_state" where
  "insert_entry s h x =
     s\<lparr>mapBlockIndex := (mapBlockIndex s)(h \<mapsto> x),
       setDirtyBlockIndex := insert h (setDirtyBlockIndex s),
       pindexBestHeader :=
         (case pindexBestHeader s of
            None \<Rightarrow> Some h
          | Some b \<Rightarrow> if val (nChainWork (the (mapBlockIndex s b))) < val (nChainWork x) then Some h else Some b)\<rparr>"

definition anc :: "BlockMap \<Rightarrow> block_ptr \<Rightarrow> block_ptr \<Rightarrow> bool" where
  "anc m p c \<longleftrightarrow> (\<exists>n. nth_pprev m n p = Some c)"

text \<open>The blocks from the root to \<open>p\<close>, by height.\<close>

definition branch :: "BlockMap \<Rightarrow> block_ptr \<Rightarrow> CChain" where
  "branch m p =
     (case m p of
        None \<Rightarrow> []
      | Some x \<Rightarrow> map (\<lambda>i. nth_pprev m (bi_nHeight x - i) p) [0..<bi_nHeight x + 1])"

definition chain_ok :: "BlockMap \<Rightarrow> CChain \<Rightarrow> bool" where
  "chain_ok m vChain \<longleftrightarrow> vChain = [] \<or> (\<exists>p. m p \<noteq> None \<and> vChain = branch m p)"

definition coherent :: "BlockMap \<Rightarrow> CChain \<Rightarrow> nat \<Rightarrow> bool" where
  "coherent m v n \<longleftrightarrow> (\<forall>i<n. \<forall>q. v ! i = Some q \<longrightarrow> (\<forall>j\<le>i. v ! j = nth_pprev m (i - j) q))"

definition highest_common :: "BlockMap \<Rightarrow> block_ptr \<Rightarrow> block_ptr \<Rightarrow> block_ptr option \<Rightarrow> bool" where
  "highest_common m p q r \<longleftrightarrow>
     (case r of
        None \<Rightarrow> (\<forall>d. \<not> (anc m p d \<and> anc m q d))
      | Some c \<Rightarrow> anc m p c \<and> anc m q c \<and> (\<forall>d. anc m p d \<and> anc m q d \<longrightarrow> anc m c d))"

text \<open>The heights of a locator: ten single steps down from the start, then steps that double, and the root.\<close>

function locator_heights :: "nat \<Rightarrow> nat \<Rightarrow> nat \<Rightarrow> nat list" where
  "locator_heights nStep k h =
     (if h = 0 \<or> nStep = 0 then [h]
      else h # locator_heights (if k + 1 > 10 then nStep * 2 else nStep) (k + 1) (h - nStep))"
  by pat_completeness auto
termination by (relation "measure (\<lambda>(s, k, h). h)") auto

text \<open>
  The block index and the active chain as the program changes them: a header is added, the chain is set to a block of
  the tree or cleared. A header whose hash is the hash of its parent does not exist for a hash function that is secure.
\<close>

inductive index_reachable :: "(nat \<Rightarrow> bytes \<Rightarrow> bytes) \<Rightarrow> block_index_state \<Rightarrow> CChain \<Rightarrow> bool" for sph where
  index_empty: "index_reachable sph \<lparr>mapBlockIndex = Map.empty, pindexBestHeader = None, setDirtyBlockIndex = {}\<rparr> []"
| index_header:
    "index_reachable sph s v \<Longrightarrow> hashPrevBlock (block :: CBlockHeader) \<noteq> CBlockHeader_GetHash sph block \<Longrightarrow>
     AddToBlockIndex sph block s = Some (h, s') \<Longrightarrow> index_reachable sph s' v"
| index_tip:
    "index_reachable sph s v \<Longrightarrow> mapBlockIndex s p \<noteq> None \<Longrightarrow> SetTip (mapBlockIndex s) (Some p) v = Some v' \<Longrightarrow>
     index_reachable sph s v'"
| index_clear:
    "index_reachable sph s v \<Longrightarrow> SetTip (mapBlockIndex s) None v = Some v' \<Longrightarrow> index_reachable sph s v'"

text \<open>A stand-in for the sixteen hash functions, and two headers of which the second builds on the first.\<close>

abbreviation example_sph :: "nat \<Rightarrow> bytes \<Rightarrow> bytes" where
  "example_sph k msg \<equiv> (if length msg = 80 then take 64 (rev msg) else msg)"

abbreviation example_header :: "bytes \<Rightarrow> u32 \<Rightarrow> CBlockHeader" where
  "example_header prev nonce \<equiv>
     \<lparr>hdr_nVersion = 1, hashPrevBlock = prev, hashMerkleRoot = replicate 32 0, nTime = 1000, nBits = 0x207fffff, nNonce = nonce\<rparr>"

section \<open>Following the parent pointers\<close>

lemma tree_ok_parent:
  assumes "tree_ok m" "m p = Some x"
  shows "pprev x = None \<longleftrightarrow> bi_nHeight x = 0" "pprev x = Some q \<Longrightarrow> \<exists>y. m q = Some y \<and> bi_nHeight x = bi_nHeight y + 1"
proof -
  from assms have "linked m x" by (auto simp: tree_ok_def)
  then show "pprev x = None \<longleftrightarrow> bi_nHeight x = 0" "pprev x = Some q \<Longrightarrow> \<exists>y. m q = Some y \<and> bi_nHeight x = bi_nHeight y + 1"
    by (auto simp: linked_def split: option.splits)
qed

lemma nth_pprev_total:
  "tree_ok m \<Longrightarrow> m p = Some x \<Longrightarrow> n \<le> bi_nHeight x \<Longrightarrow>
     \<exists>q y. nth_pprev m n p = Some q \<and> m q = Some y \<and> bi_nHeight y = bi_nHeight x - n"
proof (induction n arbitrary: p x)
  case (Suc n)
  then have "pprev x \<noteq> None" using tree_ok_parent(1) [OF Suc.prems(1, 2)] by simp
  then obtain q where q: "pprev x = Some q" by auto
  with tree_ok_parent(2) [OF Suc.prems(1, 2)] obtain y where y: "m q = Some y" "bi_nHeight x = bi_nHeight y + 1" by blast
  with Suc q show ?case by auto
qed auto

lemma nth_pprev_above:
  "tree_ok m \<Longrightarrow> m p = Some x \<Longrightarrow> bi_nHeight x < n \<Longrightarrow> nth_pprev m n p = None"
proof (induction n arbitrary: p x)
  case (Suc n)
  show ?case
  proof (cases "pprev x")
    case (Some q)
    with tree_ok_parent(2) [OF Suc.prems(1, 2)] obtain y where y: "m q = Some y" "bi_nHeight x = bi_nHeight y + 1" by blast
    with Suc Some show ?thesis by simp
  qed (use Suc in simp)
qed simp

lemma nth_pprev_Some: "m p = Some x \<Longrightarrow> pprev x = Some q \<Longrightarrow> nth_pprev m (Suc n) p = nth_pprev m n q"
  by simp

lemma nth_pprev_add: "nth_pprev m a p = Some q \<Longrightarrow> nth_pprev m (a + b) p = nth_pprev m b q"
  by (induction a arbitrary: p) (auto split: option.splits)

lemma GetAncestor_loop_spec:
  "tree_ok m \<Longrightarrow> m p = Some x \<Longrightarrow> h = bi_nHeight x \<Longrightarrow> k \<le> h \<Longrightarrow> GetAncestor_loop m k p h = nth_pprev m (h - k) p"
proof (induction m k p h arbitrary: x rule: GetAncestor_loop.induct)
  case (1 m k p h)
  note tree = 1(3) and x = 1(4) and h = 1(5)
  show ?case
  proof (cases "k < h")
    case False
    with 1 show ?thesis by (subst GetAncestor_loop.simps) simp
  next
    case lt: True
    define follow where "follow \<longleftrightarrow> pskip x \<noteq> None \<and> (GetSkipHeight h = k \<or> (GetSkipHeight h > k \<and>
        \<not> (GetSkipHeight (h - 1) + 2 < GetSkipHeight h \<and> GetSkipHeight (h - 1) \<ge> k)))"
    have skip: "GetSkipHeight h < h" using lt by (intro GetSkipHeight_less) simp
    show ?thesis
    proof (cases follow)
      case True
      then obtain r where r: "pskip x = Some r" by (auto simp: follow_def)
      have k: "k \<le> GetSkipHeight h" using True by (auto simp: follow_def)
      have n: "nth_pprev m (h - GetSkipHeight h) p = Some r"
        using tree x r h by (force simp: tree_ok_def skip_ok_def)
      obtain y where y: "m r = Some y" "bi_nHeight y = GetSkipHeight h"
        using nth_pprev_total [OF tree x, of "h - GetSkipHeight h"] n h skip by auto
      have "GetAncestor_loop m k p h = GetAncestor_loop m k r (GetSkipHeight h)"
        using lt x r True by (simp add: GetAncestor_loop.simps [of m k p h] Let_def follow_def)
      also have "\<dots> = nth_pprev m (GetSkipHeight h - k) r"
        using 1(1) [OF lt x refl refl] True r y tree k unfolding follow_def by auto
      also have "\<dots> = nth_pprev m (h - GetSkipHeight h + (GetSkipHeight h - k)) p"
        using nth_pprev_add [OF n] by simp
      finally show ?thesis using skip k by simp
    next
      case False
      have "bi_nHeight x \<noteq> 0" using lt h by simp
      then obtain q where q: "pprev x = Some q" using tree_ok_parent(1) [OF tree x] by auto
      then obtain y where y: "m q = Some y" "bi_nHeight x = bi_nHeight y + 1" using tree_ok_parent(2) [OF tree x] by blast
      have "GetAncestor_loop m k p h = GetAncestor_loop m k q (h - 1)"
        using lt x q False by (subst GetAncestor_loop.simps) (auto simp: Let_def follow_def)
      also have "\<dots> = nth_pprev m (h - 1 - k) q"
        using 1(2) [OF lt x refl refl _ q tree y(1)] False y h lt unfolding follow_def by auto
      also have "\<dots> = nth_pprev m (Suc (h - 1 - k)) p" using x q by (simp add: nth_pprev_Some)
      finally show ?thesis using lt by (simp add: Suc_diff_Suc)
    qed
  qed
qed

lemma GetAncestor_spec:
  assumes "tree_ok m" "m p = Some x"
  shows "GetAncestor m p height =
    (if 0 \<le> height \<and> height \<le> int (bi_nHeight x) then Some (nth_pprev m (bi_nHeight x - nat height) p) else Some None)"
proof (cases "0 \<le> height \<and> height \<le> int (bi_nHeight x)")
  case True
  then have "nat height \<le> bi_nHeight x" by (simp add: nat_le_iff)
  with GetAncestor_loop_spec [OF assms refl this] nth_pprev_total [OF assms, of "bi_nHeight x - nat height"] assms True
  show ?thesis by (auto simp: GetAncestor_def)
qed (use assms in \<open>auto simp: GetAncestor_def\<close>)

section \<open>Work and the invariant of the block index\<close>

lemma compact_value_not_max: "compact_value c \<noteq> 2 ^ 256 - 1"
proof (cases "compact_size c \<le> 3")
  case True
  then have "compact_value c \<le> compact_mantissa c" by (simp add: compact_value_small)
  then have "compact_value c < 2 ^ 23" using mantissa_less [of c] by linarith
  then show ?thesis by simp
next
  case False
  then obtain k where "compact_size c - 3 = Suc k" by (cases "compact_size c - 3") auto
  then have "even (compact_value c)" using False by (simp add: compact_value_large)
  moreover have "odd (2 ^ 256 - 1 :: nat)" by simp
  ultimately show ?thesis by metis
qed

lemma div_plus_one: "0 < t \<Longrightarrow> t < N \<Longrightarrow> (N - 1 - t) div (t + 1) + 1 = N div (t + 1)" for t N :: nat
proof -
  assume "t < N"
  then have "N = (N - 1 - t) + (t + 1)" by simp
  then have "N div (t + 1) = ((N - 1 - t) + (t + 1)) div (t + 1)" by presburger
  also have "\<dots> = (N - 1 - t) div (t + 1) + 1" by (rule div_add_self2) simp
  finally show ?thesis by simp
qed

lemma GetBlockProof_spec:
  obtains w where "GetBlockProof x = Some w" "length w = 8" "val w = block_work (bi_nBits x)"
proof -
  let ?v = "compact_value (bi_nBits x)"
  obtain a neg where a: "SetCompact (bi_nBits x) = (a, neg, 2 ^ 256 \<le> ?v)" "length a = 8"
    "val a = ?v mod 2 ^ 256" "neg \<longleftrightarrow> 0 < ?v \<and> bit (bi_nBits x) 23" by (rule SetCompact_spec)
  have eq0: "EqualTo a 0 \<longleftrightarrow> val a = 0" using EqualTo_val [of a 0] a(2) by simp
  show thesis
  proof (cases "neg \<or> 2 ^ 256 \<le> ?v \<or> val a = 0")
    case True
    then have "GetBlockProof x = Some (arith_of_u64 0)" using a(1) eq0 by (auto simp: GetBlockProof_def)
    moreover have "block_work (bi_nBits x) = 0" using True a(3, 4) by (auto simp: block_work_def)
    ultimately show thesis by (intro that [of "arith_of_u64 0"]) (simp_all add: val_of_u64)
  next
    case False
    then have v: "val a = ?v" "0 < ?v" "?v < 2 ^ 256" "\<not> bit (bi_nBits x) 23" using a(3, 4) by auto
    let ?b = "arith_add a (arith_of_u64 1)"
    have "?v + 1 < 2 ^ 256" using v(3) compact_value_not_max [of "bi_nBits x"] by linarith
    then have b: "val ?b = ?v + 1" "length ?b = 8" using a(2) v(1) by (simp_all add: val_add val_of_u64)
    have n: "val (arith_not a) = 2 ^ 256 - 1 - ?v" "length (arith_not a) = length ?b"
      using val_not [of a] a(2) v(1) by simp_all
    obtain q where q: "arith_div (arith_not a) ?b = Some q" "val q = val (arith_not a) div val ?b" "length q = length ?b"
      using n(2) b by (rule_tac arith_div_val [of "arith_not a" ?b]) simp_all
    have w: "val q + 1 = 2 ^ 256 div (?v + 1)" using q(2) n(1) b(1) div_plus_one [OF v(2, 3)] by simp
    have "2 ^ 256 div (?v + 1) \<le> 2 ^ 256 div 2" using v(2) by (intro div_le_mono2) simp_all
    then have "val q + 1 < 2 ^ 256" unfolding w by simp
    then have "val (arith_add q (arith_of_u64 1)) = 2 ^ 256 div (?v + 1)" using q(3) b(2) w by (simp add: val_add val_of_u64)
    moreover have "GetBlockProof x = Some (arith_add q (arith_of_u64 1))"
      using a(1) eq0 False q(1) by (auto simp: GetBlockProof_def)
    moreover have "block_work (bi_nBits x) = 2 ^ 256 div (?v + 1)" using v by (simp add: block_work_def)
    ultimately show thesis using q(3) b(2) by (intro that [of "arith_add q (arith_of_u64 1)"]) simp_all
  qed
qed

lemma nth_pprev_extend:
  "tree_ok m \<Longrightarrow> m h = None \<Longrightarrow> m p = Some y \<Longrightarrow> nth_pprev (m(h \<mapsto> x)) n p = nth_pprev m n p"
proof (induction n arbitrary: p y)
  case (Suc n)
  have ne: "p \<noteq> h" using Suc.prems by auto
  show ?case
  proof (cases "pprev y")
    case (Some q)
    with tree_ok_parent(2) [OF Suc.prems(1, 3)] obtain z where "m q = Some z" by blast
    with Suc Some ne show ?thesis by auto
  qed (use Suc ne in simp)
qed simp

lemma linked_extend: "m h = None \<Longrightarrow> linked m y \<Longrightarrow> linked (m(h \<mapsto> x)) y"
  by (auto simp: linked_def split: option.splits)

lemma tree_ok_extend:
  assumes "tree_ok m" "m h = None" "linked (m(h \<mapsto> x)) x" "skip_ok (m(h \<mapsto> x)) h x"
  shows "tree_ok (m(h \<mapsto> x))"
  unfolding tree_ok_def
proof (intro allI impI)
  fix p y
  assume y: "(m(h \<mapsto> x)) p = Some y"
  show "linked (m(h \<mapsto> x)) y \<and> skip_ok (m(h \<mapsto> x)) p y"
  proof (cases "p = h")
    case True
    with y assms show ?thesis by simp
  next
    case False
    with y have p: "m p = Some y" by simp
    with assms(1) have "linked m y" "skip_ok m p y" by (auto simp: tree_ok_def)
    then show ?thesis using linked_extend [where m = m and h = h and x = x, OF assms(2)] nth_pprev_extend [where x = x, OF assms(1, 2) p]
      by (simp add: skip_ok_def split: option.splits)
  qed
qed

lemma link_to_prev_spec:
  assumes "tree_ok m" "m h = None" "hp \<noteq> h" "pprev x0 = None" "pskip x0 = None" "bi_nHeight x0 = 0"
  obtains x1 where "link_to_prev (m(h \<mapsto> x0)) hp x0 = Some x1"
    "pprev x1 = (if m hp = None then None else Some hp)" "bi_nBits x1 = bi_nBits x0" "bi_nTime x1 = bi_nTime x0"
    "nStatus x1 = nStatus x0"
    "\<And>x. pprev x = pprev x1 \<Longrightarrow> pskip x = pskip x1 \<Longrightarrow> bi_nHeight x = bi_nHeight x1 \<Longrightarrow> tree_ok (m(h \<mapsto> x))"
proof (cases "m hp")
  case None
  have "tree_ok (m(h \<mapsto> x))" if "pprev x = None" "pskip x = None" "bi_nHeight x = 0" for x
    using assms(1, 2) that by (intro tree_ok_extend) (simp_all add: linked_def skip_ok_def)
  with None assms that [of x0] show thesis by (simp add: link_to_prev_def)
next
  case (Some y)
  let ?m = "m(h \<mapsto> x0)"
  let ?x = "x0\<lparr>pprev := Some hp, bi_nHeight := bi_nHeight y + 1\<rparr>"
  let ?s = "GetSkipHeight (bi_nHeight y + 1)"
  have s: "?s < bi_nHeight y + 1" by (rule GetSkipHeight_less) simp
  have tree0: "tree_ok ?m" using assms by (intro tree_ok_extend) (simp_all add: linked_def skip_ok_def)
  have y: "?m hp = Some y" using Some assms(3) by simp
  have anc: "GetAncestor ?m hp (int ?s) = Some (nth_pprev ?m (bi_nHeight y - ?s) hp)"
    using s by (subst GetAncestor_spec [OF tree0 y]) simp
  then have link: "link_to_prev ?m hp x0 = Some (?x\<lparr>pskip := nth_pprev ?m (bi_nHeight y - ?s) hp\<rparr>)"
    using y by (simp add: link_to_prev_def BuildSkip_def)
  have "tree_ok (m(h \<mapsto> x))" if x: "pprev x = Some hp" "pskip x = nth_pprev ?m (bi_nHeight y - ?s) hp" "bi_nHeight x = bi_nHeight y + 1" for x
  proof (rule tree_ok_extend)
    show "linked (m(h \<mapsto> x)) x" using x Some assms(3) by (simp add: linked_def)
    have "nth_pprev (m(h \<mapsto> x)) n hp = nth_pprev ?m n hp" for n
      using nth_pprev_extend [OF assms(1, 2) Some] by simp
    moreover have "bi_nHeight y + 1 - ?s = Suc (bi_nHeight y - ?s)" using s by simp
    ultimately show "skip_ok (m(h \<mapsto> x)) h x" using x by (simp add: skip_ok_def split: option.split)
  qed (use assms in simp_all)
  with link Some show thesis by (intro that [OF link]) simp_all
qed

lemma complete_entry_spec:
  assumes "m h = None" "hp \<noteq> h" "pprev x1 = (if m hp = None then None else Some hp)" "nStatus x1 = 0"
    "\<And>y. m hp = Some y \<Longrightarrow> length (nChainWork y) = 8"
  obtains x where "complete_entry (m(h \<mapsto> x0)) x1 = Some x" "pprev x = pprev x1" "pskip x = pskip x1"
    "bi_nHeight x = bi_nHeight x1" "\<And>z. entry_fields_ok (m(h \<mapsto> z)) x"
proof -
  let ?prev = "case pprev x1 of None \<Rightarrow> None | Some q \<Rightarrow> (m(h \<mapsto> x0)) q"
  let ?x' = "x1\<lparr>nTimeMax := (case ?prev of None \<Rightarrow> bi_nTime x1 | Some y \<Rightarrow> max (nTimeMax y) (bi_nTime x1))\<rparr>"
  obtain w where w: "GetBlockProof ?x' = Some w" "length w = 8" "val w = block_work (bi_nBits ?x')" by (rule GetBlockProof_spec)
  let ?x = "?x'\<lparr>nChainWork := arith_add (case ?prev of None \<Rightarrow> arith_of_u64 0 | Some y \<Rightarrow> nChainWork y) w, nStatus := 2\<rparr>"
  have c: "complete_entry (m(h \<mapsto> x0)) x1 = Some ?x"
    using w(1) assms(4) unfolding complete_entry_def Let_def by (simp add: RaiseValidity_def)
  have wlt: "val w < 2 ^ 256" using val_less [of w] w(2) by simp
  have "entry_fields_ok (m(h \<mapsto> z)) ?x" for z
  proof (cases "m hp")
    case None
    then show ?thesis using assms(3) w wlt by (simp add: entry_fields_ok_def val_add val_of_u64)
  next
    case (Some y)
    then show ?thesis using assms(2, 3) assms(5) [OF Some] w by (simp add: entry_fields_ok_def val_add)
  qed
  with c show thesis by (intro that [OF c]) simp_all
qed

section \<open>Adding a header\<close>

text \<open>A map extended with a block that nothing refers to yet keeps the derived fields of the others.\<close>

lemma entry_fields_ok_extend: "m h = None \<Longrightarrow> entry_fields_ok m y \<Longrightarrow> entry_fields_ok (m(h \<mapsto> x)) y"
  by (auto simp: entry_fields_ok_def split: option.splits)

lemma AddToBlockIndex_known:
  "mapBlockIndex s (CBlockHeader_GetHash sph block) \<noteq> None \<Longrightarrow>
     AddToBlockIndex sph block s = Some (CBlockHeader_GetHash sph block, s)"
  by (simp add: AddToBlockIndex_def)

lemma CBlockIndex_new_fields [simp]:
  "pprev (CBlockIndex_new block) = None" "pskip (CBlockIndex_new block) = None" "bi_nHeight (CBlockIndex_new block) = 0"
  "nStatus (CBlockIndex_new block) = 0" "bi_nBits (CBlockIndex_new block) = nBits block" "bi_nTime (CBlockIndex_new block) = nTime block"
  by (simp_all add: CBlockIndex_new_def)

lemma AddToBlockIndex_new:
  assumes ok: "block_index_ok s" and new: "mapBlockIndex s (CBlockHeader_GetHash sph block) = None"
    and prev: "hashPrevBlock block \<noteq> CBlockHeader_GetHash sph block"
  obtains x where "AddToBlockIndex sph block s =
      Some (CBlockHeader_GetHash sph block, insert_entry s (CBlockHeader_GetHash sph block) x)"
    "pprev x = (if mapBlockIndex s (hashPrevBlock block) = None then None else Some (hashPrevBlock block))"
    "tree_ok ((mapBlockIndex s)(CBlockHeader_GetHash sph block \<mapsto> x))"
    "entry_fields_ok ((mapBlockIndex s)(CBlockHeader_GetHash sph block \<mapsto> x)) x"
proof -
  let ?h = "CBlockHeader_GetHash sph block" and ?hp = "hashPrevBlock block" and ?m = "mapBlockIndex s"
  let ?x0 = "CBlockIndex_new block"
  have tree: "tree_ok ?m" and fields: "\<And>p y. ?m p = Some y \<Longrightarrow> entry_fields_ok ?m y" and best: "best_header_ok s"
    using ok by (auto simp: block_index_ok_def)
  have len: "length (nChainWork y) = 8" if "?m p = Some y" for p y
    using fields [OF that] by (simp add: entry_fields_ok_def)
  obtain x1 where x1: "link_to_prev (?m(?h \<mapsto> ?x0)) ?hp ?x0 = Some x1"
      "pprev x1 = (if ?m ?hp = None then None else Some ?hp)" "nStatus x1 = 0"
      "\<And>x. pprev x = pprev x1 \<Longrightarrow> pskip x = pskip x1 \<Longrightarrow> bi_nHeight x = bi_nHeight x1 \<Longrightarrow> tree_ok (?m(?h \<mapsto> x))"
    using link_to_prev_spec [OF tree new prev, of ?x0] by auto
  obtain x where x: "complete_entry (?m(?h \<mapsto> ?x0)) x1 = Some x" "pprev x = pprev x1" "pskip x = pskip x1"
      "bi_nHeight x = bi_nHeight x1" "\<And>z. entry_fields_ok (?m(?h \<mapsto> z)) x"
    using complete_entry_spec [OF new prev x1(2, 3), of ?x0] len by blast
  have lx: "length (nChainWork x) = 8" using x(5) by (simp add: entry_fields_ok_def)
  show thesis
  proof (cases "pindexBestHeader s")
    case None
    show thesis using new x1(1, 2) x None x1(4) [OF x(2-4)]
      by (intro that [of x]) (simp_all add: AddToBlockIndex_def insert_entry_def Let_def)
  next
    case (Some b)
    with best obtain y where y: "?m b = Some y" by (auto simp: best_header_ok_def split: option.splits)
    have "b \<noteq> ?h" using y new by auto
    moreover have "CompareTo (nChainWork y) (nChainWork x) < 0 \<longleftrightarrow> val (nChainWork y) < val (nChainWork x)"
      using CompareTo_val [of "nChainWork y" "nChainWork x"] len [OF y] lx by auto
    ultimately show thesis using new x1(1, 2) x Some y x1(4) [OF x(2-4)]
      by (intro that [of x]) (simp_all add: AddToBlockIndex_def insert_entry_def Let_def)
  qed
qed

lemma best_header_ok_insert:
  assumes "best_header_ok s" "mapBlockIndex s h = None"
  shows "best_header_ok (insert_entry s h x)"
proof (cases "pindexBestHeader s")
  case None
  with assms show ?thesis by (simp add: best_header_ok_def insert_entry_def)
next
  case (Some b)
  with assms(1) obtain y where y: "mapBlockIndex s b = Some y"
      "\<forall>p z. mapBlockIndex s p = Some z \<longrightarrow> val (nChainWork z) \<le> val (nChainWork y)"
    by (auto simp: best_header_ok_def split: option.splits)
  have "b \<noteq> h" using y assms(2) by auto
  then show ?thesis using assms Some y by (fastforce simp: best_header_ok_def insert_entry_def)
qed

lemma AddToBlockIndex_ok:
  assumes "block_index_ok s" "hashPrevBlock block \<noteq> CBlockHeader_GetHash sph block"
  obtains s' where "AddToBlockIndex sph block s = Some (CBlockHeader_GetHash sph block, s')" "block_index_ok s'"
    "mapBlockIndex s' (CBlockHeader_GetHash sph block) \<noteq> None"
    "\<And>p y. mapBlockIndex s p = Some y \<Longrightarrow> mapBlockIndex s' p = Some y"
proof (cases "mapBlockIndex s (CBlockHeader_GetHash sph block)")
  case None
  obtain x where "AddToBlockIndex sph block s =
      Some (CBlockHeader_GetHash sph block, insert_entry s (CBlockHeader_GetHash sph block) x)"
    and t: "tree_ok ((mapBlockIndex s)(CBlockHeader_GetHash sph block \<mapsto> x))"
    and e: "entry_fields_ok ((mapBlockIndex s)(CBlockHeader_GetHash sph block \<mapsto> x)) x"
    by (rule AddToBlockIndex_new [OF assms(1) None assms(2)])
  moreover have "best_header_ok (insert_entry s (CBlockHeader_GetHash sph block) x)"
    using assms(1) None by (intro best_header_ok_insert) (simp_all add: block_index_ok_def)
  then have "block_index_ok (insert_entry s (CBlockHeader_GetHash sph block) x)"
    using t e assms(1) entry_fields_ok_extend [of "mapBlockIndex s" "CBlockHeader_GetHash sph block" _ x] None
    by (auto simp: block_index_ok_def insert_entry_def)
  ultimately show thesis using None
    by (intro that [of "insert_entry s (CBlockHeader_GetHash sph block) x"]) (auto simp: insert_entry_def)
next
  case (Some x)
  then show thesis using AddToBlockIndex_known [of s sph block] assms(1) by (intro that [of s]) simp_all
qed

section \<open>The active chain\<close>

lemma length_branch [simp]: "m p = Some x \<Longrightarrow> length (branch m p) = bi_nHeight x + 1"
  by (simp add: branch_def)

lemma branch_nth: "m p = Some x \<Longrightarrow> i \<le> bi_nHeight x \<Longrightarrow> branch m p ! i = nth_pprev m (bi_nHeight x - i) p"
  by (simp add: branch_def del: upt_Suc)

lemma anc_cases:
  assumes "tree_ok m" "m p = Some x" "anc m p c"
  obtains y where "m c = Some y" "bi_nHeight y \<le> bi_nHeight x" "nth_pprev m (bi_nHeight x - bi_nHeight y) p = Some c"
proof -
  from assms(3) obtain n where n: "nth_pprev m n p = Some c" by (auto simp: anc_def)
  then have "n \<le> bi_nHeight x" using nth_pprev_above [OF assms(1, 2), of n] by force
  with nth_pprev_total [OF assms(1, 2) this] n that show thesis by auto
qed

lemma anc_refl [simp]: "anc m p p"
  unfolding anc_def by (rule exI [of _ 0]) simp

lemma anc_step: "m p = Some x \<Longrightarrow> anc m p c \<longleftrightarrow> c = p \<or> (\<exists>q. pprev x = Some q \<and> anc m q c)"
proof
  assume x: "m p = Some x" and "anc m p c"
  then obtain n where n: "nth_pprev m n p = Some c" by (auto simp: anc_def)
  then show "c = p \<or> (\<exists>q. pprev x = Some q \<and> anc m q c)" using x
    by (cases n) (auto simp: anc_def split: option.splits)
next
  assume x: "m p = Some x" and "c = p \<or> (\<exists>q. pprev x = Some q \<and> anc m q c)"
  from this(2) show "anc m p c"
  proof
    assume "\<exists>q. pprev x = Some q \<and> anc m q c"
    then obtain q n where "pprev x = Some q" "nth_pprev m n q = Some c" by (auto simp: anc_def)
    with x have "nth_pprev m (Suc n) p = Some c" by simp
    then show ?thesis unfolding anc_def by blast
  qed simp
qed

lemma anc_trans: "anc m a b \<Longrightarrow> anc m b c \<Longrightarrow> anc m a c"
  using nth_pprev_add by (metis anc_def)

lemma anc_same_height:
  assumes "tree_ok m" "m p = Some x" "anc m p c" "m c = Some y" "bi_nHeight y = bi_nHeight x"
  shows "c = p"
  using anc_cases [OF assms(1-3)] assms(4, 5) by force

text \<open>An ancestor that is not higher than a given ancestor is an ancestor of it.\<close>

lemma anc_linear:
  assumes "tree_ok m" "m p = Some x" "anc m p c" "anc m p d" "m c = Some y" "m d = Some z" "bi_nHeight z \<le> bi_nHeight y"
  shows "anc m c d"
proof -
  have c: "nth_pprev m (bi_nHeight x - bi_nHeight y) p = Some c" "bi_nHeight y \<le> bi_nHeight x"
    using anc_cases [OF assms(1-3)] assms(5) by force+
  have d: "nth_pprev m (bi_nHeight x - bi_nHeight z) p = Some d"
    using anc_cases [OF assms(1, 2, 4)] assms(6) by force
  have "bi_nHeight x - bi_nHeight z = bi_nHeight x - bi_nHeight y + (bi_nHeight y - bi_nHeight z)" using c(2) assms(7) by simp
  with nth_pprev_add [OF c(1), of "bi_nHeight y - bi_nHeight z"] d show ?thesis by (auto simp: anc_def)
qed

lemma Contains_branch:
  assumes "tree_ok m" "m t = Some xt" "m p = Some x"
  shows "CChain_Contains m (branch m t) p = Some (anc m t p)"
proof (cases "bi_nHeight x \<le> bi_nHeight xt")
  case True
  then have "CChain_Contains m (branch m t) p = Some (nth_pprev m (bi_nHeight xt - bi_nHeight x) t = Some p)"
    using assms by (simp add: CChain_Contains_def CChain_at_def branch_nth)
  also have "\<dots> = Some (anc m t p)" using anc_cases [OF assms(1, 2)] assms(3) by (fastforce simp: anc_def)
  finally show ?thesis .
next
  case False
  moreover have "\<not> anc m t p" using anc_cases [OF assms(1, 2)] assms(3) False by force
  ultimately show ?thesis using assms by (simp add: CChain_Contains_def CChain_at_def)
qed

lemma Contains_Nil: "m p = Some x \<Longrightarrow> CChain_Contains m [] p = Some False"
  by (simp add: CChain_Contains_def CChain_at_def)

subsection \<open>Setting the tip\<close>

lemma length_resize_chain [simp]: "length (resize_chain v n) = n"
  by (simp add: resize_chain_def)

lemma SetTip_loop_spec:
  "tree_ok m \<Longrightarrow> m t = Some xt \<Longrightarrow> length v = bi_nHeight xt + 1 \<Longrightarrow> h \<le> bi_nHeight xt \<Longrightarrow>
     nth_pprev m (bi_nHeight xt - h) t = Some p \<Longrightarrow>
     (\<And>i. h < i \<Longrightarrow> i \<le> bi_nHeight xt \<Longrightarrow> v ! i = nth_pprev m (bi_nHeight xt - i) t) \<Longrightarrow> coherent m v (h + 1) \<Longrightarrow>
     SetTip_loop m (Some p) v = Some (branch m t)"
proof (induction h arbitrary: p v)
  case 0
  obtain x where x: "m p = Some x" "bi_nHeight x = 0" "pprev x = None"
    using nth_pprev_total [OF 0(1, 2), of "bi_nHeight xt"] tree_ok_parent(1) [OF 0(1)] 0(5) by auto
  have "v[0 := Some p] = branch m t"
  proof (rule nth_equalityI)
    fix i assume "i < length (v[0 := Some p])"
    then show "v[0 := Some p] ! i = branch m t ! i" using 0(2, 3, 5, 6) by (cases i) (simp_all add: branch_nth)
  qed (use 0 in simp)
  moreover have "v[0 := Some p] = v" if "v ! 0 = Some p" using that by (metis list_update_id)
  ultimately show ?case using x 0(3) by (auto simp: SetTip_loop.simps [of m _ v] SetTip_loop.simps [of m None])
next
  case (Suc h)
  obtain x where x: "m p = Some x" "bi_nHeight x = Suc h"
    using nth_pprev_total [OF Suc.prems(1, 2), of "bi_nHeight xt - Suc h"] Suc.prems(4, 5) by auto
  show ?case
  proof (cases "v ! Suc h = Some p")
    case True
    have "v = branch m t"
    proof (rule nth_equalityI)
      fix i assume "i < length v"
      then have i: "i \<le> bi_nHeight xt" using Suc.prems(3) by simp
      show "v ! i = branch m t ! i"
      proof (cases "i \<le> Suc h")
        case le: True
        then have "v ! i = nth_pprev m (Suc h - i) p" using Suc.prems(7) True by (simp add: coherent_def)
        also have "\<dots> = nth_pprev m (bi_nHeight xt - Suc h + (Suc h - i)) t" using nth_pprev_add [OF Suc.prems(5)] by simp
        finally show ?thesis using i le Suc.prems(2, 4) by (simp add: branch_nth)
      qed (use i Suc.prems(2, 6) in \<open>simp add: branch_nth\<close>)
    qed (use Suc.prems in simp)
    then show ?thesis using x True Suc.prems(3, 4) by (simp add: SetTip_loop.simps [of m "Some p"])
  next
    case False
    obtain q where q: "pprev x = Some q" using tree_ok_parent(1) [OF Suc.prems(1) x(1)] x(2) by auto
    have "SetTip_loop m (Some p) v = SetTip_loop m (Some q) (v[Suc h := Some p])"
      using x q False Suc.prems(3, 4) by (simp add: SetTip_loop.simps [of m "Some p"])
    also have "\<dots> = Some (branch m t)"
    proof (rule Suc.IH)
      have "nth_pprev m (bi_nHeight xt - Suc h + 1) t = Some q" using nth_pprev_add [OF Suc.prems(5), of 1] x q by simp
      then show "nth_pprev m (bi_nHeight xt - h) t = Some q" using Suc.prems(4) by (simp add: Suc_diff_Suc)
      show "v[Suc h := Some p] ! i = nth_pprev m (bi_nHeight xt - i) t" if "h < i" "i \<le> bi_nHeight xt" for i
        using Suc.prems(3-6) that by (cases "i = Suc h") auto
      show "coherent m (v[Suc h := Some p]) (h + 1)" using Suc.prems(7) by (auto simp: coherent_def)
    qed (use Suc.prems in simp_all)
    finally show ?thesis .
  qed
qed

lemma coherent_branch:
  assumes "tree_ok m" "chain_ok m v"
  shows "coherent m (resize_chain v n) n"
proof -
  have "resize_chain v n ! j = nth_pprev m (i - j) q" if i: "i < n" "resize_chain v n ! i = Some q" "j \<le> i" for i j q
  proof -
    have iv: "i < length v" using i by (cases "i < length v") (simp_all add: resize_chain_def nth_append)
    then obtain p x where p: "m p = Some x" "v = branch m p" using assms(2) by (auto simp: chain_ok_def)
    then have "i \<le> bi_nHeight x" "v ! i = Some q" using iv i(1, 2) by (simp_all add: resize_chain_def nth_append)
    then have "nth_pprev m (bi_nHeight x - i) p = Some q" using p by (simp add: branch_nth)
    from nth_pprev_add [OF this, of "i - j"] show ?thesis
      using i iv p \<open>i \<le> bi_nHeight x\<close> by (simp add: resize_chain_def nth_append branch_nth)
  qed
  then show ?thesis by (auto simp: coherent_def)
qed

lemma SetTip_spec:
  assumes "tree_ok m" "chain_ok m v" "m p = Some x"
  shows "SetTip m (Some p) v = Some (branch m p)"
proof -
  have "SetTip_loop m (Some p) (resize_chain v (bi_nHeight x + 1)) = Some (branch m p)"
    using coherent_branch [OF assms(1, 2), of "bi_nHeight x + 1"] assms(1, 3)
    by (intro SetTip_loop_spec [where h = "bi_nHeight x" and xt = x]) simp_all
  with assms(3) show ?thesis by (simp add: SetTip_def)
qed

subsection \<open>Where two branches part\<close>

lemma highest_common_sym: "highest_common m p q r \<longleftrightarrow> highest_common m q p r"
  by (auto simp: highest_common_def split: option.split)

lemma highest_common_unique:
  assumes "tree_ok m" "m p = Some x" "highest_common m p q r" "highest_common m p q r'"
  shows "r = r'"
proof (cases r)
  case None
  with assms(3, 4) show ?thesis by (auto simp: highest_common_def split: option.splits)
next
  case (Some c)
  with assms(3, 4) obtain d where d: "r' = Some d" by (auto simp: highest_common_def split: option.splits)
  have cd: "anc m c d" "anc m d c" "anc m p c" using assms(3, 4) Some d by (auto simp: highest_common_def)
  obtain y where y: "m c = Some y" by (rule anc_cases [OF assms(1, 2) cd(3)])
  obtain z where z: "m d = Some z" "bi_nHeight z \<le> bi_nHeight y" by (rule anc_cases [OF assms(1) y cd(1)])
  have "bi_nHeight y \<le> bi_nHeight z" using anc_cases [OF assms(1) z(1) cd(2)] y by force
  then have "c = d" using anc_same_height [OF assms(1) z(1) cd(2) y] z(2) by simp
  with Some d show ?thesis by simp
qed

text \<open>From an ancestor at least as high as \<open>q\<close> the result is the same.\<close>

lemma highest_common_ancestor:
  assumes "tree_ok m" "m p = Some x" "m q = Some y" "nth_pprev m (bi_nHeight x - bi_nHeight y) p = Some p'"
    "bi_nHeight y \<le> bi_nHeight x"
  shows "highest_common m p q r \<longleftrightarrow> highest_common m p' q r"
proof -
  obtain z where z: "m p' = Some z" "bi_nHeight z = bi_nHeight y"
    using nth_pprev_total [OF assms(1, 2), of "bi_nHeight x - bi_nHeight y"] assms(4, 5) by auto
  have a: "anc m p p'" using assms(4) by (auto simp: anc_def)
  have "anc m p d \<longleftrightarrow> anc m p' d" if q: "anc m q d" for d
  proof
    assume d: "anc m p d"
    obtain w where w: "m d = Some w" "bi_nHeight w \<le> bi_nHeight y" by (rule anc_cases [OF assms(1, 3) q])
    then show "anc m p' d" using anc_linear [OF assms(1, 2) a d z(1)] z(2) by simp
  next
    assume "anc m p' d"
    then show "anc m p d" using a anc_trans by blast
  qed
  then show ?thesis by (auto simp: highest_common_def split: option.split)
qed

lemma FindFork_loop_spec:
  assumes "tree_ok m" "m t = Some xt"
  shows "m p = Some x \<Longrightarrow> bi_nHeight x = n \<Longrightarrow> \<exists>r. FindFork_loop m (branch m t) (Some p) = Some r \<and> highest_common m p t r"
proof (induction n arbitrary: p x)
  case 0
  then have "pprev x = None" using tree_ok_parent(1) [OF assms(1) 0(1)] by simp
  then show ?case using 0 Contains_branch [OF assms 0(1)] anc_step [of m p x]
    by (auto simp: FindFork_loop.simps [of m _ "Some p"] FindFork_loop.simps [of m _ None] highest_common_def)
next
  case (Suc n)
  show ?case
  proof (cases "anc m t p")
    case True
    then show ?thesis using Suc.prems Contains_branch [OF assms Suc.prems(1)]
      by (auto simp: FindFork_loop.simps [of m _ "Some p"] highest_common_def)
  next
    case False
    obtain q where q: "pprev x = Some q" using tree_ok_parent(1) [OF assms(1) Suc.prems(1)] Suc.prems(2) by auto
    then obtain y where y: "m q = Some y" "bi_nHeight y = n" using tree_ok_parent(2) [OF assms(1) Suc.prems(1)] Suc.prems(2) by auto
    obtain r where r: "FindFork_loop m (branch m t) (Some q) = Some r" "highest_common m q t r" using Suc.IH [OF y] by blast
    have "anc m p d \<longleftrightarrow> anc m q d" if "anc m t d" for d
      using anc_step [of m p x d] Suc.prems(1) q that False by auto
    then have "highest_common m p t r" using r(2) by (auto simp: highest_common_def split: option.splits)
    then show ?thesis using Suc.prems q r(1) False Contains_branch [OF assms Suc.prems(1)]
      by (simp add: FindFork_loop.simps [of m _ "Some p"])
  qed
qed

lemma FindFork_spec:
  assumes "tree_ok m" "m t = Some xt" "m p = Some x"
  obtains r where "FindFork m (branch m t) (Some p) = Some r" "highest_common m p t r"
proof (cases "bi_nHeight xt < bi_nHeight x")
  case False
  with FindFork_loop_spec [OF assms(1, 2, 3) refl] assms that show thesis by (auto simp: FindFork_def CChain_Height_def)
next
  case True
  then obtain p' y where p': "nth_pprev m (bi_nHeight x - bi_nHeight xt) p = Some p'" "m p' = Some y"
    using nth_pprev_total [OF assms(1, 3), of "bi_nHeight x - bi_nHeight xt"] by auto
  obtain r where r: "FindFork_loop m (branch m t) (Some p') = Some r" "highest_common m p' t r"
    using FindFork_loop_spec [OF assms(1, 2) p'(2) refl] by blast
  have "highest_common m p t r" using r(2) highest_common_ancestor [OF assms(1, 3, 2) p'(1)] True by simp
  moreover have "FindFork m (branch m t) (Some p) = Some r"
    using assms True p' r(1) GetAncestor_spec [OF assms(1, 3), of "int (bi_nHeight xt)"]
    by (simp add: FindFork_def CChain_Height_def)
  ultimately show thesis using that by blast
qed

lemma FindFork_Nil: "tree_ok m \<Longrightarrow> m p = Some x \<Longrightarrow> FindFork m [] (Some p) = Some None"
  using GetAncestor_spec [of m p x "- 1"] by (simp add: FindFork_def CChain_Height_def FindFork_loop.simps)

lemma LastCommonAncestor_loop_spec:
  assumes "tree_ok m"
  shows "m a = Some x \<Longrightarrow> m b = Some y \<Longrightarrow> bi_nHeight x = n \<Longrightarrow> bi_nHeight y = n \<Longrightarrow>
    \<exists>r. LastCommonAncestor_loop m (Some a) (Some b) = Some r \<and> highest_common m a b r"
proof (induction n arbitrary: a b x y)
  case 0
  then have "pprev x = None" "pprev y = None" using tree_ok_parent(1) [OF assms] by auto
  then show ?case using 0 anc_step [of m a x] anc_step [of m b y]
    by (auto simp: LastCommonAncestor_loop.simps [of m "Some a"] LastCommonAncestor_loop.simps [of m None] highest_common_def)
next
  case (Suc n)
  show ?case
  proof (cases "a = b")
    case True
    then show ?thesis by (auto simp: LastCommonAncestor_loop.simps highest_common_def)
  next
    case False
    obtain p q where pq: "pprev x = Some p" "pprev y = Some q"
      using tree_ok_parent(1) [OF assms Suc.prems(1)] tree_ok_parent(1) [OF assms Suc.prems(2)] Suc.prems(3, 4) by auto
    obtain u w where u: "m p = Some u" "bi_nHeight u = n" and w: "m q = Some w" "bi_nHeight w = n"
      using tree_ok_parent(2) [OF assms Suc.prems(1) pq(1)] tree_ok_parent(2) [OF assms Suc.prems(2) pq(2)] Suc.prems(3, 4) by auto
    obtain r where r: "LastCommonAncestor_loop m (Some p) (Some q) = Some r" "highest_common m p q r"
      using Suc.IH [OF u(1) w(1) u(2) w(2)] by blast
    have na: "\<not> anc m b a" "\<not> anc m a b"
      using anc_same_height [OF assms Suc.prems(2) _ Suc.prems(1)] anc_same_height [OF assms Suc.prems(1) _ Suc.prems(2)]
        Suc.prems(3, 4) False by auto
    have "anc m a d \<and> anc m b d \<longleftrightarrow> anc m p d \<and> anc m q d" for d
      using anc_step [of m a x d] anc_step [of m b y d] Suc.prems(1, 2) pq na by auto
    then have "highest_common m a b r" using r(2) by (auto simp: highest_common_def split: option.splits)
    then show ?thesis using Suc.prems pq r(1) False by (simp add: LastCommonAncestor_loop.simps [of m "Some a"])
  qed
qed

lemma LastCommonAncestor_spec:
  assumes "tree_ok m" "m a = Some x" "m b = Some y"
  obtains r where "LastCommonAncestor m a b = Some r" "highest_common m a b r"
proof (cases "bi_nHeight x" "bi_nHeight y" rule: linorder_cases)
  case equal
  with LastCommonAncestor_loop_spec [OF assms] that show thesis using assms by (auto simp: LastCommonAncestor_def)
next
  case greater
  then obtain p z where p: "nth_pprev m (bi_nHeight x - bi_nHeight y) a = Some p" "m p = Some z" "bi_nHeight z = bi_nHeight y"
    using nth_pprev_total [OF assms(1, 2), of "bi_nHeight x - bi_nHeight y"] by auto
  obtain r where r: "LastCommonAncestor_loop m (Some p) (Some b) = Some r" "highest_common m p b r"
    using LastCommonAncestor_loop_spec [OF assms(1) p(2) assms(3) p(3)] by blast
  have "highest_common m a b r" using r(2) highest_common_ancestor [OF assms p(1)] greater by simp
  then show thesis using that r(1) assms greater p GetAncestor_spec [OF assms(1, 2), of "int (bi_nHeight y)"]
    by (simp add: LastCommonAncestor_def)
next
  case less
  then obtain p z where p: "nth_pprev m (bi_nHeight y - bi_nHeight x) b = Some p" "m p = Some z" "bi_nHeight z = bi_nHeight x"
    using nth_pprev_total [OF assms(1, 3), of "bi_nHeight y - bi_nHeight x"] by auto
  obtain r where r: "LastCommonAncestor_loop m (Some a) (Some p) = Some r" "highest_common m a p r"
    using LastCommonAncestor_loop_spec [OF assms(1, 2) p(2) refl p(3)] by blast
  have "highest_common m a b r"
    using r(2) highest_common_ancestor [OF assms(1, 3, 2) p(1)] highest_common_sym less by (metis less_imp_le)
  then show thesis using that r(1) assms less p GetAncestor_spec [OF assms(1, 3), of "int (bi_nHeight x)"]
    by (simp add: LastCommonAncestor_def)
qed

section \<open>The reachable states\<close>

lemma nth_pprev_mono:
  "tree_ok m \<Longrightarrow> (\<And>p y. m p = Some y \<Longrightarrow> m' p = Some y) \<Longrightarrow> m p = Some x \<Longrightarrow> nth_pprev m' n p = nth_pprev m n p"
proof (induction n arbitrary: p x)
  case (Suc n)
  show ?case
  proof (cases "pprev x")
    case (Some q)
    with tree_ok_parent(2) [OF Suc.prems(1, 3)] obtain z where "m q = Some z" by blast
    with Suc Some show ?thesis by simp
  qed (use Suc in simp)
qed simp

lemma chain_ok_mono:
  assumes "tree_ok m" "\<And>p y. m p = Some y \<Longrightarrow> m' p = Some y" "chain_ok m v"
  shows "chain_ok m' v"
proof (cases "v = []")
  case False
  then obtain p x where p: "m p = Some x" "v = branch m p" using assms(3) by (auto simp: chain_ok_def)
  have "branch m' p = branch m p" using assms(2) [OF p(1)] p(1) nth_pprev_mono [OF assms(1, 2) p(1)] by (simp add: branch_def)
  then show ?thesis using p assms(2) [OF p(1)] by (auto simp: chain_ok_def)
qed (simp add: chain_ok_def)

lemma index_reachable_ok:
  "index_reachable sph s v \<Longrightarrow> block_index_ok s \<and> chain_ok (mapBlockIndex s) v"
proof (induction rule: index_reachable.induct)
  case index_empty
  show ?case by (simp add: block_index_ok_def tree_ok_def best_header_ok_def chain_ok_def)
next
  case (index_header s v block h s')
  then obtain t where "AddToBlockIndex sph block s = Some (CBlockHeader_GetHash sph block, t)" "block_index_ok t"
      "\<And>p y. mapBlockIndex s p = Some y \<Longrightarrow> mapBlockIndex t p = Some y"
    using AddToBlockIndex_ok [of s block sph] by metis
  then show ?case using index_header chain_ok_mono [of "mapBlockIndex s" "mapBlockIndex t" v]
    by (auto simp: block_index_ok_def)
next
  case (index_tip s v p v')
  then obtain x where x: "mapBlockIndex s p = Some x" by auto
  with index_tip SetTip_spec [of "mapBlockIndex s" v p x] show ?case by (auto simp: chain_ok_def block_index_ok_def)
next
  case (index_clear s v v')
  then show ?case by (simp add: SetTip_def chain_ok_def)
qed

subsection \<open>The locator\<close>

declare locator_heights.simps [simp del]

lemma locator_heights_0 [simp]: "locator_heights nStep k 0 = [0]"
  by (simp add: locator_heights.simps)

lemma locator_heights_step:
  "h \<noteq> 0 \<Longrightarrow> nStep \<noteq> 0 \<Longrightarrow>
     locator_heights nStep k h = h # locator_heights (if k + 1 > 10 then nStep * 2 else nStep) (k + 1) (h - nStep)"
  by (subst locator_heights.simps) simp

lemma locator_heights_Nil [simp]: "locator_heights nStep k h \<noteq> []"
  by (subst locator_heights.simps) simp

lemma locator_heights_le: "i \<in> set (locator_heights nStep k h) \<Longrightarrow> i \<le> h"
proof (induction nStep k h rule: locator_heights.induct)
  case (1 nStep k h)
  show ?case
  proof (cases "h = 0 \<or> nStep = 0")
    case False
    with 1 show ?thesis by (auto simp: locator_heights_step simp del: One_nat_def)
  qed (use 1 in \<open>auto simp: locator_heights.simps [of nStep k h]\<close>)
qed

lemma locator_heights_last: "nStep > 0 \<Longrightarrow> last (locator_heights nStep k h) = 0"
proof (induction nStep k h rule: locator_heights.induct)
  case (1 nStep k h)
  then show ?case by (cases "h = 0") (simp_all add: locator_heights_step)
qed

lemma locator_heights_decreasing: "nStep > 0 \<Longrightarrow> sorted_wrt (>) (locator_heights nStep k h)"
proof (induction nStep k h rule: locator_heights.induct)
  case (1 nStep k h)
  show ?case
  proof (cases "h = 0")
    case False
    have "\<forall>i\<in>set (locator_heights (if k + 1 > 10 then nStep * 2 else nStep) (k + 1) (h - nStep)). i < h"
      using locator_heights_le 1(2) False by fastforce
    with 1 False show ?thesis by (simp add: locator_heights_step)
  qed simp
qed

lemma locator_heights_bound:
  "k \<ge> 10 \<Longrightarrow> h \<le> nStep * (2 ^ i - 1) \<Longrightarrow> length (locator_heights nStep k h) \<le> i + 1"
proof (induction i arbitrary: nStep k h)
  case 0
  then show ?case by simp
next
  case (Suc i)
  show ?case
  proof (cases "h = 0 \<or> nStep = 0")
    case False
    have "h - nStep \<le> nStep * 2 * (2 ^ i - 1)" using Suc.prems(2) by (simp add: algebra_simps)
    with Suc.IH [of "k + 1" "h - nStep" "nStep * 2"] Suc.prems(1) False show ?thesis
      by (simp add: locator_heights_step)
  qed (auto simp: locator_heights.simps [of nStep k h])
qed

lemma locator_heights_single:
  "k + n = 10 \<Longrightarrow> h \<le> n + (2 ^ i - 1) \<Longrightarrow> length (locator_heights 1 k h) \<le> n + i + 1"
proof (induction n arbitrary: k h)
  case 0
  then show ?case using locator_heights_bound [of k h 1 i] by simp
next
  case (Suc n)
  then have "length (locator_heights 1 (k + 1) (h - 1)) \<le> n + i + 1" by (intro Suc.IH) simp_all
  then show ?case using Suc.prems(1) by (cases "h = 0") (simp_all add: locator_heights_step)
qed

lemma CChain_at_nat: "i < length v \<Longrightarrow> CChain_at v (int i) = v ! i"
  by (simp add: CChain_at_def)

lemma GetLocator_loop_spec:
  assumes "tree_ok m" "chain_ok m v"
  shows "m p = Some x \<Longrightarrow> nStep > 0 \<Longrightarrow>
    GetLocator_loop m v nStep vHave (Some p) =
      Some (vHave @ map (\<lambda>i. the (nth_pprev m (bi_nHeight x - i) p)) (locator_heights nStep (length vHave) (bi_nHeight x)))"
proof (induction "bi_nHeight x" arbitrary: p x nStep vHave rule: less_induct)
  case less
  let ?h = "bi_nHeight x - nStep"
  let ?s = "if length vHave + 1 > 10 then nStep * 2 else nStep"
  show ?case
  proof (cases "bi_nHeight x = 0")
    case True
    then show ?thesis using less.prems by (simp add: GetLocator_loop.simps [of m v nStep] Let_def)
  next
    case False
    obtain q y where q: "nth_pprev m (bi_nHeight x - ?h) p = Some q" "m q = Some y" "bi_nHeight y = ?h"
      using nth_pprev_total [OF assms(1) less.prems(1), of "bi_nHeight x - ?h"] by auto
    have anc: "GetAncestor m p (int ?h) = Some (Some q)"
      using q(1) by (subst GetAncestor_spec [OF assms(1) less.prems(1)]) simp
    have at: "CChain_at v (int ?h) = Some q" if "CChain_Contains m v p = Some True"
    proof -
      from that less.prems(1) assms(2) obtain t xt where t: "m t = Some xt" "v = branch m t"
        by (auto simp: chain_ok_def Contains_Nil)
      then have "anc m t p" using Contains_branch [OF assms(1) t(1) less.prems(1)] that by simp
      then have n: "nth_pprev m (bi_nHeight xt - bi_nHeight x) t = Some p" and le: "bi_nHeight x \<le> bi_nHeight xt"
        using anc_cases [OF assms(1) t(1), of p] less.prems(1) by force+
      have "CChain_at v (int ?h) = nth_pprev m (bi_nHeight xt - ?h) t"
        using t le by (subst CChain_at_nat) (simp_all add: branch_nth)
      also have "\<dots> = nth_pprev m (bi_nHeight xt - bi_nHeight x + (bi_nHeight x - ?h)) t" using le by simp
      also have "\<dots> = Some q" by (simp only: nth_pprev_add [OF n] q(1))
      finally show ?thesis .
    qed
    have "GetLocator_loop m v nStep vHave (Some p) = GetLocator_loop m v ?s (vHave @ [p]) (Some q)"
      using less.prems(1) False anc at by (auto simp: GetLocator_loop.simps [of m v nStep] Let_def)
    also have "\<dots> = Some ((vHave @ [p]) @ map (\<lambda>i. the (nth_pprev m (bi_nHeight y - i) q)) (locator_heights ?s (length (vHave @ [p])) (bi_nHeight y)))"
      by (rule less.hyps) (use q less.prems False in auto)
    also have "map (\<lambda>i. the (nth_pprev m (bi_nHeight y - i) q)) (locator_heights ?s (length (vHave @ [p])) (bi_nHeight y)) =
        map (\<lambda>i. the (nth_pprev m (bi_nHeight x - i) p)) (locator_heights ?s (length vHave + 1) ?h)"
    proof -
      have "nth_pprev m (?h - i) q = nth_pprev m (bi_nHeight x - i) p" if "i \<le> ?h" for i
      proof -
        have "bi_nHeight x - ?h + (?h - i) = bi_nHeight x - i" using that by simp
        then show ?thesis using nth_pprev_add [OF q(1), of "?h - i"] by (simp only:)
      qed
      then show ?thesis using locator_heights_le [of _ ?s "length vHave + 1" ?h] q(3) by auto
    qed
    finally show ?thesis using False less.prems(2) by (simp add: locator_heights_step)
  qed
qed

text \<open>The tip of the chain that ends in \<open>p\<close>.\<close>

lemma Tip_branch: "m p = Some x \<Longrightarrow> CChain_Tip (branch m p) = Some p"
  by (simp add: CChain_Tip_def branch_nth)

lemma GetLocator_spec:
  assumes "tree_ok m" "chain_ok m v" "m p = Some x"
  shows "GetLocator m v (Some p) = Some (map (\<lambda>i. the (nth_pprev m (bi_nHeight x - i) p)) (locator_heights 1 0 (bi_nHeight x)))"
  using GetLocator_loop_spec [OF assms, of 1 "[]"] by (simp add: GetLocator_def)

subsection \<open>An example\<close>

lemma x16r_rounds_example:
  "length p = 64 \<Longrightarrow> x16r_rounds example_sph prev ks p = p"
  by (induction ks) simp_all

lemma example_hash:
  assumes "length prev = 32"
  shows "CBlockHeader_GetHash example_sph (example_header prev nonce) = take 32 (rev (WriteLE32 nonce) @ rev (WriteLE32 0x207fffff) @ rev (WriteLE32 1000) @ replicate 32 0)"
proof -
  have "[0..<16] = 0 # [1..<16::nat]" by (simp add: upt_rec [of 0])
  then show ?thesis using assms by (simp add: CBlockHeader_GetHash_def HashX16R_def trim256_def x16r_rounds_example)
qed

lemma example_reachable:
  obtains s a b x y where "index_reachable example_sph s (branch (mapBlockIndex s) a)" "mapBlockIndex s a = Some x"
    "mapBlockIndex s b = Some y" "pprev y = Some a" "a \<noteq> b"
proof -
  let ?g = "example_header (replicate 32 0) 1"
  let ?a = "CBlockHeader_GetHash example_sph ?g"
  let ?c = "example_header ?a 2"
  let ?b = "CBlockHeader_GetHash example_sph ?c"
  have len: "length ?a = 32" by (simp add: example_hash)
  have le: "WriteLE32 1 = [1, 0, 0, 0]" "WriteLE32 2 = [2, 0, 0, 0]" by code_simp+
  then have "?a ! 3 = 1" by (simp add: example_hash)
  then have na: "hashPrevBlock ?g \<noteq> ?a" by (metis CBlockHeader.select_convs(2) nth_replicate numeral_less_iff semiring_norm(76) semiring_norm(81) zero_neq_one)
  have nb: "?a \<noteq> ?b" using len le by (simp add: example_hash)
  obtain s1 where s1: "AddToBlockIndex example_sph ?g \<lparr>mapBlockIndex = Map.empty, pindexBestHeader = None, setDirtyBlockIndex = {}\<rparr> =
      Some (?a, s1)" "block_index_ok s1" "mapBlockIndex s1 ?a \<noteq> None"
    by (rule AddToBlockIndex_ok [OF conjunct1 [OF index_reachable_ok [OF index_empty]] na])
  have r1: "index_reachable example_sph s1 []" by (rule index_header [OF index_empty na s1(1)])
  have prev: "hashPrevBlock ?c \<noteq> ?b" using nb by simp
  show thesis
  proof (cases "mapBlockIndex s1 ?b")
    case None
    obtain x where x: "AddToBlockIndex example_sph ?c s1 = Some (?b, insert_entry s1 ?b x)"
        "pprev x = (if mapBlockIndex s1 (hashPrevBlock ?c) = None then None else Some (hashPrevBlock ?c))"
      by (rule AddToBlockIndex_new [OF s1(2) None prev])
    let ?s = "insert_entry s1 ?b x"
    have r2: "index_reachable example_sph ?s []" by (rule index_header [OF r1 prev x(1)])
    obtain y where y: "mapBlockIndex ?s ?a = Some y" using s1(3) nb by (auto simp: insert_entry_def)
    have "SetTip (mapBlockIndex ?s) (Some ?a) [] = Some (branch (mapBlockIndex ?s) ?a)"
      using index_reachable_ok [OF r2] y by (intro SetTip_spec) (auto simp: block_index_ok_def)
    then have "index_reachable example_sph ?s (branch (mapBlockIndex ?s) ?a)"
      using y by (intro index_tip [OF r2]) auto
    then show thesis using y x(2) s1(3) nb by (intro that [of ?s ?a y ?b x]) (simp_all add: insert_entry_def)
  next
    case (Some z)
    then show thesis using s1(1) nb by (auto simp: AddToBlockIndex_def Let_def split: option.splits)
  qed
qed

section \<open>Properties\<close>

text \<open>
  C11: in every state that adding headers and moving the tip can lead to, the block index is a tree. A block is one
  higher than its parent, its skip pointer leads to the ancestor at the height computed for it, its work is that of its
  parent plus what its target stands for (modulo 2^256), its greatest time is that of the path from the root, and it
  has passed the tree check. The best header is a block of the tree and no block has more work. The active chain is the
  path from the root to its tip. A further header with a hash of its own can be added without a failure.
\<close>

theorem block_index_invariant:
  assumes "index_reachable sph s v"
  shows "tree_ok (mapBlockIndex s) \<and> best_header_ok s \<and> chain_ok (mapBlockIndex s) v \<and>
    (\<forall>p x. mapBlockIndex s p = Some x \<longrightarrow> entry_fields_ok (mapBlockIndex s) x) \<and>
    (\<forall>block :: CBlockHeader. hashPrevBlock block \<noteq> CBlockHeader_GetHash sph block \<longrightarrow>
       (\<exists>s'. AddToBlockIndex sph block s = Some (CBlockHeader_GetHash sph block, s') \<and> index_reachable sph s' v))"
proof -
  have ok: "block_index_ok s" "chain_ok (mapBlockIndex s) v" using index_reachable_ok [OF assms] by simp_all
  have "\<exists>s'. AddToBlockIndex sph block s = Some (CBlockHeader_GetHash sph block, s') \<and> index_reachable sph s' v"
    if "hashPrevBlock block \<noteq> CBlockHeader_GetHash sph block" for block :: CBlockHeader
    using AddToBlockIndex_ok [OF ok(1) that] index_header [OF assms that] by metis
  with ok show ?thesis by (simp add: block_index_ok_def)
qed

theorem block_index_invariant_witness:
  "\<exists>(s :: block_index_state) a. mapBlockIndex s a \<noteq> None \<and> tree_ok (mapBlockIndex s) \<and> best_header_ok s \<and>
     chain_ok (mapBlockIndex s) (branch (mapBlockIndex s) a)"
proof -
  obtain s a x where e: "index_reachable example_sph s (branch (mapBlockIndex s) a)" "mapBlockIndex s a = Some x"
    by (rule example_reachable)
  show ?thesis by (intro exI [of _ s] exI [of _ a]) (use block_index_invariant [OF e(1)] e(2) in simp)
qed

text \<open>
  C28: the search for an ancestor that follows the skip pointers returns the block that walking from parent to parent
  reaches, at every height; above the block and below zero it returns no block. It does not fail.
\<close>

theorem GetAncestor_walks_parents:
  assumes "index_reachable sph s v" "mapBlockIndex s p = Some x"
  shows "GetAncestor (mapBlockIndex s) p height =
    (if 0 \<le> height \<and> height \<le> int (bi_nHeight x)
     then Some (nth_pprev (mapBlockIndex s) (bi_nHeight x - nat height) p) else Some None) \<and>
    (\<forall>n\<le>bi_nHeight x. nth_pprev (mapBlockIndex s) n p \<noteq> None)"
proof -
  have t: "tree_ok (mapBlockIndex s)" using index_reachable_ok [OF assms(1)] by (simp add: block_index_ok_def)
  show ?thesis using GetAncestor_spec [OF t assms(2)] nth_pprev_total [OF t assms(2)] by auto
qed

theorem GetAncestor_walks_parents_witness:
  "\<exists>(s :: block_index_state) b x. mapBlockIndex s b = Some x \<and>
     GetAncestor (mapBlockIndex s) b (int (bi_nHeight x)) = Some (Some b)"
proof -
  obtain s a b y where e: "index_reachable example_sph s (branch (mapBlockIndex s) a)" "mapBlockIndex s b = Some y"
    by (rule example_reachable)
  show ?thesis
    by (intro exI [of _ s] exI [of _ b] exI [of _ y]) (use GetAncestor_walks_parents [OF e, of "int (bi_nHeight y)"] e(2) in simp)
qed

text \<open>
  C29: moving the tip to a block of the tree makes the active chain the path from the root to it, whatever chain was
  active before, although only the entries that differ are written. The fork point that is then found for another block
  is the common ancestor of the two that is an ancestor of the new tip and a descendant of every other common ancestor,
  and it is the block that the search on the two blocks themselves finds.
\<close>

theorem SetTip_FindFork_correct:
  assumes "index_reachable sph s v" "mapBlockIndex s t \<noteq> None" "mapBlockIndex s p \<noteq> None"
  shows "\<exists>v' r. SetTip (mapBlockIndex s) (Some t) v = Some v' \<and> v' = branch (mapBlockIndex s) t \<and>
    CChain_Tip v' = Some t \<and>
    FindFork (mapBlockIndex s) v' (Some p) = Some r \<and> highest_common (mapBlockIndex s) p t r \<and>
    LastCommonAncestor (mapBlockIndex s) p t = Some r"
proof -
  have ok: "tree_ok (mapBlockIndex s)" "chain_ok (mapBlockIndex s) v"
    using index_reachable_ok [OF assms(1)] by (simp_all add: block_index_ok_def)
  obtain xt x where x: "mapBlockIndex s t = Some xt" "mapBlockIndex s p = Some x" using assms(2, 3) by auto
  obtain r where r: "FindFork (mapBlockIndex s) (branch (mapBlockIndex s) t) (Some p) = Some r" "highest_common (mapBlockIndex s) p t r"
    by (rule FindFork_spec [OF ok(1) x])
  obtain r' where r': "LastCommonAncestor (mapBlockIndex s) p t = Some r'" "highest_common (mapBlockIndex s) p t r'"
    by (rule LastCommonAncestor_spec [OF ok(1) x(2, 1)])
  have "r' = r" by (rule highest_common_unique [OF ok(1) x(2) r'(2) r(2)])
  with r r' SetTip_spec [OF ok x(1)] Tip_branch [of "mapBlockIndex s", OF x(1)] show ?thesis by simp
qed

theorem SetTip_FindFork_correct_witness:
  "\<exists>(s :: block_index_state) a b v'. a \<noteq> b \<and> SetTip (mapBlockIndex s) (Some b) (branch (mapBlockIndex s) a) = Some v' \<and> CChain_Tip v' = Some b \<and>
     (\<exists>r. FindFork (mapBlockIndex s) v' (Some a) = Some r)"
proof -
  obtain s a b x y where e: "index_reachable example_sph s (branch (mapBlockIndex s) a)" "mapBlockIndex s a = Some x"
      "mapBlockIndex s b = Some y" "a \<noteq> b"
    by (rule example_reachable)
  show ?thesis
    by (intro exI [of _ s] exI [of _ a] exI [of _ b] exI [of _ "branch (mapBlockIndex s) b"])
      (use SetTip_FindFork_correct [OF e(1), of b a] e(2-4) in auto)
qed

text \<open>
  C30: a block locator starts with the block it is made for and ends with the root of its branch, and its blocks are
  ancestors at strictly decreasing heights. For a block at a height below 10 + 2^i it has at most 11 + i entries, so
  that it has no more than 43 for any height of 32 bits.
\<close>

theorem GetLocator_short:
  assumes "index_reachable sph s v" "mapBlockIndex s p = Some x" "bi_nHeight x < 10 + 2 ^ i"
  shows "\<exists>hs. GetLocator (mapBlockIndex s) v (Some p) = Some (map (\<lambda>h. the (nth_pprev (mapBlockIndex s) (bi_nHeight x - h) p)) hs) \<and>
    hd hs = bi_nHeight x \<and> last hs = 0 \<and> sorted_wrt (>) hs \<and> length hs \<le> 11 + i"
proof -
  have ok: "tree_ok (mapBlockIndex s)" "chain_ok (mapBlockIndex s) v"
    using index_reachable_ok [OF assms(1)] by (simp_all add: block_index_ok_def)
  have "hd (locator_heights 1 0 (bi_nHeight x)) = bi_nHeight x" by (subst locator_heights.simps) simp
  moreover have "length (locator_heights 1 0 (bi_nHeight x)) \<le> 10 + i + 1"
    using assms(3) by (intro locator_heights_single) simp_all
  ultimately show ?thesis
    using GetLocator_spec [OF ok assms(2)] locator_heights_last [of 1] locator_heights_decreasing [of 1]
    by (intro exI [of _ "locator_heights 1 0 (bi_nHeight x)"]) simp
qed

theorem GetLocator_short_witness:
  "\<exists>(s :: block_index_state) a b y ls. mapBlockIndex s b = Some y \<and>
     GetLocator (mapBlockIndex s) (branch (mapBlockIndex s) a) (Some b) = Some ls \<and> length ls \<le> 11 + bi_nHeight y"
proof -
  obtain s a b y where e: "index_reachable example_sph s (branch (mapBlockIndex s) a)" "mapBlockIndex s b = Some y"
    by (rule example_reachable)
  have "bi_nHeight y < 10 + 2 ^ bi_nHeight y" by (simp add: trans_less_add2)
  with GetLocator_short [OF e] show ?thesis
    by (intro exI [of _ s] exI [of _ a] exI [of _ b] exI [of _ y]) (use e(2) in fastforce)
qed

end
