(* ===== verification/Pow.thy ===== *)
theory Pow
  imports Chain
begin

text \<open>
  Proof of work and difficulty: the parameters \<^verbatim>\<open>Consensus::Params\<close> of \<^verbatim>\<open>src/src/consensus/params.h\<close> and all of
  \<^verbatim>\<open>src/src/pow.cpp\<close>.

  \<^verbatim>\<open>bnNew *= nActualTimespan\<close> takes an \<^verbatim>\<open>int64_t\<close>; of the two overloads the one for \<^verbatim>\<open>uint32_t\<close> is chosen, so the
  timespan is reduced modulo 2^32, whereas \<^verbatim>\<open>/=\<close> converts its argument through \<^verbatim>\<open>uint64_t\<close>.  \<^const>\<open>None\<close> is a failed
  assertion, a null pointer that is followed or a division by zero.  The timespans are positive in every parameter set, so
  that the division of the source and that of HOL agree.
\<close>

section \<open>Consensus parameters\<close>

record BIP9Deployment =
  deployment_bit :: int
  deployment_nStartTime :: int
  deployment_nTimeout :: int

record ConsensusParams =
  hashGenesisBlock :: bytes
  nSubsidyHalvingInterval :: int
  nBIP34Enabled :: bool
  nBIP65Enabled :: bool
  nBIP66Enabled :: bool
  nRuleChangeActivationThreshold :: u32
  nMinerConfirmationWindow :: u32
  vDeployments :: "BIP9Deployment list"
  powLimit :: bytes
  fPowAllowMinDifficultyBlocks :: bool
  fPowNoRetargeting :: bool
  nPowTargetSpacing :: int
  nPowTargetTimespan :: int
  nMinimumChainWork :: bytes
  defaultAssumeValid :: bytes
  nSegwitEnabled :: bool
  nCSVEnabled :: bool

definition DifficultyAdjustmentInterval :: "ConsensusParams \<Rightarrow> int" where
  "DifficultyAdjustmentInterval params = nPowTargetTimespan params div nPowTargetSpacing params"

text \<open>
  The parameters of the main network.  The hash of the genesis block is computed with the X16R functions and is a
  parameter here.
\<close>

definition CMainParams_consensus :: "bytes \<Rightarrow> ConsensusParams" where
  "CMainParams_consensus genesis_hash =
     \<lparr>hashGenesisBlock = genesis_hash, nSubsidyHalvingInterval = 1314000, nBIP34Enabled = True, nBIP65Enabled = True, nBIP66Enabled = True,
      nRuleChangeActivationThreshold = 1080, nMinerConfirmationWindow = 720,
      vDeployments = [\<lparr>deployment_bit = 28, deployment_nStartTime = 1199145601, deployment_nTimeout = 1230767999\<rparr>],
      powLimit = replicate 29 0xff @ [0x0f, 0, 0], fPowAllowMinDifficultyBlocks = False, fPowNoRetargeting = False,
      nPowTargetSpacing = 2 * 60, nPowTargetTimespan = 1440 * 60, nMinimumChainWork = null_uint256, defaultAssumeValid = null_uint256,
      nSegwitEnabled = True, nCSVEnabled = True\<rparr>"

section \<open>Difficulty\<close>

abbreviation (input) nPastBlocks :: nat where "nPastBlocks \<equiv> 24"

text \<open>The loop of \<^verbatim>\<open>DarkGravityWave\<close>, with \<open>n\<close> turns left: the average of the targets and the block reached.\<close>

fun dgw_loop :: "BlockMap \<Rightarrow> nat \<Rightarrow> nat \<Rightarrow> arith_uint256 \<Rightarrow> block_ptr \<Rightarrow> (arith_uint256 \<times> block_ptr) option" where
  "dgw_loop m 0 nCountBlocks bnPastTargetAvg pindex = Some (bnPastTargetAvg, pindex)"
| "dgw_loop m (Suc n) nCountBlocks bnPastTargetAvg pindex =
     (case m pindex of
        None \<Rightarrow> None
      | Some x \<Rightarrow>
          let bnTarget = fst (SetCompact (bi_nBits x)) in
          (case (if nCountBlocks = 1 then Some bnTarget
                 else arith_div (arith_add (arith_mul32 bnPastTargetAvg (of_nat nCountBlocks)) bnTarget) (arith_of_u64 (of_nat (nCountBlocks + 1)))) of
             None \<Rightarrow> None
           | Some avg \<Rightarrow>
               if nCountBlocks \<noteq> nPastBlocks then
                 (case pprev x of
                    None \<Rightarrow> None
                  | Some q \<Rightarrow> dgw_loop m n (nCountBlocks + 1) avg q)
               else dgw_loop m n (nCountBlocks + 1) avg pindex))"

text \<open>Scaling a target by the ratio of two timespans, limited by the easiest target.\<close>

definition retarget :: "arith_uint256 \<Rightarrow> int \<Rightarrow> int \<Rightarrow> arith_uint256 \<Rightarrow> u32 option" where
  "retarget bn nActualTimespan nTargetTimespan bnPowLimit =
     (case arith_div (arith_mul32 bn (word_of_int nActualTimespan)) (arith_of_u64 (word_of_int nTargetTimespan)) of
        None \<Rightarrow> None
      | Some bnNew \<Rightarrow> GetCompact (if CompareTo bnNew bnPowLimit > 0 then bnPowLimit else bnNew) False)"

definition DarkGravityWave :: "BlockMap \<Rightarrow> block_ptr option \<Rightarrow> ConsensusParams \<Rightarrow> u32 option" where
  "DarkGravityWave m pindexLast params =
     (let bnPowLimit = UintToArith256 (powLimit params) in
      case pindexLast of
        None \<Rightarrow> GetCompact bnPowLimit False
      | Some p \<Rightarrow>
          (case m p of
             None \<Rightarrow> None
           | Some tip \<Rightarrow>
               if bi_nHeight tip < nPastBlocks then GetCompact bnPowLimit False
               else
                 (case dgw_loop m nPastBlocks 1 (arith_of_u64 0) p of
                    None \<Rightarrow> None
                  | Some (bnPastTargetAvg, q) \<Rightarrow>
                      (case m q of
                         None \<Rightarrow> None
                       | Some first \<Rightarrow>
                           let nActualTimespan = CBlockIndex_GetBlockTime tip - CBlockIndex_GetBlockTime first;
                               nTargetTimespan = int nPastBlocks * nPowTargetSpacing params;
                               span1 = (if nActualTimespan < nTargetTimespan div 3 then nTargetTimespan div 3 else nActualTimespan);
                               span2 = (if span1 > nTargetTimespan * 3 then nTargetTimespan * 3 else span1)
                           in retarget bnPastTargetAvg span2 nTargetTimespan bnPowLimit))))"

definition CalculateNextWorkRequired :: "CBlockIndex \<Rightarrow> int \<Rightarrow> ConsensusParams \<Rightarrow> u32 option" where
  "CalculateNextWorkRequired tip nFirstBlockTime params =
     (if fPowNoRetargeting params then Some (bi_nBits tip)
      else
        let nActualTimespan = CBlockIndex_GetBlockTime tip - nFirstBlockTime;
            span1 = (if nActualTimespan < nPowTargetTimespan params div 4 then nPowTargetTimespan params div 4 else nActualTimespan);
            span2 = (if span1 > nPowTargetTimespan params * 4 then nPowTargetTimespan params * 4 else span1)
        in retarget (fst (SetCompact (bi_nBits tip))) span2 (nPowTargetTimespan params) (UintToArith256 (powLimit params)))"

text \<open>The last block that was not mined under the special rule of the test network.\<close>

partial_function (option) last_regular_block :: "BlockMap \<Rightarrow> int \<Rightarrow> u32 \<Rightarrow> block_ptr \<Rightarrow> u32 option" where
  "last_regular_block m interval nProofOfWorkLimit pindex =
     (case m pindex of
        None \<Rightarrow> None
      | Some x \<Rightarrow>
          (case pprev x of
             None \<Rightarrow> Some (bi_nBits x)
           | Some q \<Rightarrow>
               if int (bi_nHeight x) mod interval \<noteq> 0 \<and> bi_nBits x = nProofOfWorkLimit
               then last_regular_block m interval nProofOfWorkLimit q
               else Some (bi_nBits x)))"

definition GetNextWorkRequired :: "BlockMap \<Rightarrow> block_ptr option \<Rightarrow> 'a CBlockHeader_scheme \<Rightarrow> ConsensusParams \<Rightarrow> u32 option" where
  "GetNextWorkRequired m pindexLast pblock params =
     (case pindexLast of
        None \<Rightarrow> None
      | Some p \<Rightarrow>
          (case m p of
             None \<Rightarrow> None
           | Some tip \<Rightarrow>
               if bi_nHeight tip \<ge> 92000 then DarkGravityWave m (Some p) params
               else
                 (case GetCompact (UintToArith256 (powLimit params)) False of
                    None \<Rightarrow> None
                  | Some nProofOfWorkLimit \<Rightarrow>
                      if (int (bi_nHeight tip) + 1) mod DifficultyAdjustmentInterval params \<noteq> 0 then
                        (if fPowAllowMinDifficultyBlocks params then
                           (if int (unat (nTime pblock)) > CBlockIndex_GetBlockTime tip + nPowTargetSpacing params * 2
                            then Some nProofOfWorkLimit
                            else last_regular_block m (DifficultyAdjustmentInterval params) nProofOfWorkLimit p)
                         else Some (bi_nBits tip))
                      else
                        let nHeightFirst = int (bi_nHeight tip) - (DifficultyAdjustmentInterval params - 1) in
                        if nHeightFirst < 0 then None
                        else
                          (case GetAncestor m p nHeightFirst of
                             Some (Some q) \<Rightarrow>
                               (case m q of
                                  None \<Rightarrow> None
                                | Some first \<Rightarrow> CalculateNextWorkRequired tip (CBlockIndex_GetBlockTime first) params)
                           | _ \<Rightarrow> None))))"

section \<open>Checking the proof of work\<close>

definition CheckProofOfWork :: "bytes \<Rightarrow> u32 \<Rightarrow> ConsensusParams \<Rightarrow> bool" where
  "CheckProofOfWork hash bits params =
     (case SetCompact bits of
        (bnTarget, fNegative, fOverflow) \<Rightarrow>
          if fNegative \<or> EqualTo bnTarget 0 \<or> fOverflow \<or> CompareTo bnTarget (UintToArith256 (powLimit params)) > 0 then False
          else if CompareTo (UintToArith256 hash) bnTarget > 0 then False
          else True)"

section \<open>Specifications of targets\<close>

text \<open>The bits that a header may carry: a positive target without sign, not above the limit.\<close>

definition target_ok :: "ConsensusParams \<Rightarrow> u32 \<Rightarrow> bool" where
  "target_ok params bits \<longleftrightarrow> \<not> bit bits 23 \<and> 0 < compact_value bits \<and> compact_value bits \<le> le_nat (powLimit params)"

text \<open>The parameter sets: the timespans are positive and no product of a retarget exceeds 256 bits.\<close>

definition params_ok :: "ConsensusParams \<Rightarrow> bool" where
  "params_ok params \<longleftrightarrow>
     length (powLimit params) = 32 \<and> 0 < le_nat (powLimit params) \<and> 0 < nPowTargetSpacing params \<and>
     nPowTargetSpacing params \<le> nPowTargetTimespan params \<and> 4 \<le> nPowTargetTimespan params \<and>
     4 * nPowTargetTimespan params < 2 ^ 32 \<and> 72 * nPowTargetSpacing params < 2 ^ 32 \<and>
     le_nat (powLimit params) * nat (4 * nPowTargetTimespan params) < 2 ^ 256 \<and>
     le_nat (powLimit params) * nat (72 * nPowTargetSpacing params) < 2 ^ 256 \<and> le_nat (powLimit params) * 32 < 2 ^ 256"

text \<open>The targets of the blocks in the index are in the range allowed, and large enough that scaling them does not give zero.\<close>

definition targets_ok :: "ConsensusParams \<Rightarrow> BlockMap \<Rightarrow> bool" where
  "targets_ok params m \<longleftrightarrow> (\<forall>p x. m p = Some x \<longrightarrow> target_ok params (bi_nBits x) \<and> 8 \<le> compact_value (bi_nBits x))"

abbreviation main_params :: ConsensusParams where
  "main_params \<equiv> CMainParams_consensus null_uint256"

section \<open>Proof of work\<close>

lemma le_nat_256: "length h = 32 \<Longrightarrow> le_nat h < 2 ^ 256"
  using le_nat_less [of h] by simp

lemma val_limit: "length h = 32 \<Longrightarrow> val (UintToArith256 h) = le_nat h" "length (UintToArith256 h) = 8"
  by (simp_all add: UintToArith256_val)

lemma CheckProofOfWork_iff:
  assumes "length hash = 32" "length (powLimit params) = 32"
  shows "CheckProofOfWork hash bits params \<longleftrightarrow> target_ok params bits \<and> le_nat hash \<le> compact_value bits"
proof -
  obtain a neg where s: "SetCompact bits = (a, neg, 2 ^ 256 \<le> compact_value bits)" "length a = 8"
      "val a = compact_value bits mod 2 ^ 256" "neg \<longleftrightarrow> 0 < compact_value bits \<and> bit bits 23"
    by (rule SetCompact_spec)
  show ?thesis
  proof (cases "2 ^ 256 \<le> compact_value bits")
    case True
    then have "\<not> target_ok params bits" using le_nat_256 [OF assms(2)] by (simp add: target_ok_def)
    then show ?thesis using s(1) True by (simp add: CheckProofOfWork_def)
  next
    case False
    then have v: "val a = compact_value bits" using s(3) by simp
    have "EqualTo a 0 \<longleftrightarrow> compact_value bits = 0" using EqualTo_val [of a 0] s(2) v by simp
    moreover have "CompareTo a (UintToArith256 (powLimit params)) > 0 \<longleftrightarrow> le_nat (powLimit params) < compact_value bits"
      using CompareTo_val [of a "UintToArith256 (powLimit params)"] s(2) v assms(2) by (simp add: val_limit)
    moreover have "CompareTo (UintToArith256 hash) a > 0 \<longleftrightarrow> compact_value bits < le_nat hash"
      using CompareTo_val [of "UintToArith256 hash" a] s(2) v assms(1) by (simp add: val_limit)
    ultimately show ?thesis using s(1, 4) False by (auto simp: CheckProofOfWork_def target_ok_def)
  qed
qed

lemma retarget_spec:
  assumes "length a = 8" "length limit = 8" "0 < span" "span < 2 ^ 32" "0 < target" "target < 2 ^ 64" "val a * nat span < 2 ^ 256"
  obtains c t where "retarget a span target limit = Some c" "compact_canonical c" "\<not> bit c 23"
    "t = min (val limit) (val a * nat span div nat target)" "compact_value c \<le> t" "2 ^ 15 * (t - compact_value c) \<le> compact_value c"
proof -
  have m: "val (arith_mul32 a (word_of_int span)) = val a * nat span" "length (arith_mul32 a (word_of_int span)) = 8"
  proof -
    have "unat (word_of_int span :: u32) = nat span" using assms(3, 4) by (simp add: unsigned_of_int take_bit_int_eq_self)
    then show "val (arith_mul32 a (word_of_int span)) = val a * nat span"
      using assms(1, 7) by (simp add: val_mul32)
    show "length (arith_mul32 a (word_of_int span)) = 8" using assms(1) by (simp add: arith_mul32_def)
  qed
  have d: "val (arith_of_u64 (word_of_int target)) = nat target"
    using assms(5, 6) by (simp add: val_of_u64 unsigned_of_int take_bit_int_eq_self)
  obtain q where q: "arith_div (arith_mul32 a (word_of_int span)) (arith_of_u64 (word_of_int target)) = Some q"
      "val q = val a * nat span div nat target" "length q = 8"
    using arith_div_val [of "arith_mul32 a (word_of_int span)" "arith_of_u64 (word_of_int target)"] m d assms(5)
    by (simp add: length_of_u64) metis
  let ?n = "if CompareTo q limit > 0 then limit else q"
  have n: "val ?n = min (val limit) (val q)" "length ?n = 8"
    using CompareTo_val [of q limit] q(3) assms(2) by auto
  obtain c a' where c: "GetCompact ?n False = Some c" "compact_canonical c" "SetCompact c = (a', False, False)" "length a' = 8"
      "val a' \<le> val ?n" "2 ^ 15 * (val ?n - val a') \<le> val a'"
    using SetCompact_GetCompact [OF n(2)] by metis
  obtain b neg where b: "SetCompact c = (b, neg, 2 ^ 256 \<le> compact_value c)" "val b = compact_value c mod 2 ^ 256"
      "neg \<longleftrightarrow> 0 < compact_value c \<and> bit c 23"
    by (rule SetCompact_spec)
  have v: "val a' = compact_value c" using b c(3) by auto
  have "\<not> bit c 23" using c(2) by (auto simp: compact_canonical_def)
  then show thesis using q n c v by (intro that [of c "val ?n"]) (simp_all add: retarget_def)
qed

section \<open>The required difficulty\<close>

lemma SetCompact_target:
  assumes "target_ok params bits" "length (powLimit params) = 32"
  shows "length (fst (SetCompact bits)) = 8" "val (fst (SetCompact bits)) = compact_value bits"
proof -
  obtain a neg where s: "SetCompact bits = (a, neg, 2 ^ 256 \<le> compact_value bits)" "length a = 8"
      "val a = compact_value bits mod 2 ^ 256"
    by (rule SetCompact_spec)
  moreover have "compact_value bits < 2 ^ 256" using assms le_nat_256 [OF assms(2)] by (simp add: target_ok_def)
  ultimately show "length (fst (SetCompact bits)) = 8" "val (fst (SetCompact bits)) = compact_value bits" by simp_all
qed

lemma average_bounds:
  fixes a t n :: nat
  assumes "L \<le> a" "L \<le> t" "a \<le> U" "t \<le> U"
  shows "L \<le> (a * n + t) div (n + 1)" "(a * n + t) div (n + 1) \<le> U"
proof -
  have "L * (n + 1) \<le> a * n + t" using assms(1, 2) by (simp add: add_mono algebra_simps)
  then show "L \<le> (a * n + t) div (n + 1)" by (simp add: less_eq_div_iff_mult_less_eq)
  have "a * n + t \<le> U * (n + 1)" using assms(3, 4) by (simp add: add_mono algebra_simps)
  then have "(a * n + t) div (n + 1) \<le> U * (n + 1) div (n + 1)" by (rule div_le_mono)
  also have "\<dots> = U" by (rule nonzero_mult_div_cancel_right) simp
  finally show "(a * n + t) div (n + 1) \<le> U" .
qed

lemma dgw_average:
  assumes "params_ok params" "length avg = 8" "length t = 8" "8 \<le> val avg" "val avg \<le> le_nat (powLimit params)"
    "8 \<le> val t" "val t \<le> le_nat (powLimit params)" "n \<le> 24"
  obtains a where "arith_div (arith_add (arith_mul32 avg (of_nat n)) t) (arith_of_u64 (of_nat (n + 1))) = Some a"
    "length a = 8" "8 \<le> val a" "val a \<le> le_nat (powLimit params)"
proof -
  let ?L = "le_nat (powLimit params)"
  have small: "?L * 32 < 2 ^ 256" using assms(1) by (simp add: params_ok_def)
  have mul: "val avg * n \<le> ?L * 24" using assms(5, 8) by (intro mult_mono) simp_all
  have n32: "unat (of_nat n :: u32) = n" using assms(8) by (simp add: unat_of_nat)
  have n64: "unat (of_nat (n + 1) :: u64) = n + 1"
    using assms(8) by (simp only: unsigned_of_nat) (simp add: take_bit_nat_eq_self)
  have m: "val (arith_mul32 avg (of_nat n)) = val avg * n" "length (arith_mul32 avg (of_nat n)) = 8"
  proof -
    show "val (arith_mul32 avg (of_nat n)) = val avg * n" using mul small assms(2) by (simp add: val_mul32 n32)
    show "length (arith_mul32 avg (of_nat n)) = 8" using assms(2) by (simp add: arith_mul32_def)
  qed
  have s: "val (arith_add (arith_mul32 avg (of_nat n)) t) = val avg * n + val t" "length (arith_add (arith_mul32 avg (of_nat n)) t) = 8"
    using mul small assms(3, 7) m by (simp_all add: val_add)
  obtain a where a: "arith_div (arith_add (arith_mul32 avg (of_nat n)) t) (arith_of_u64 (of_nat (n + 1))) = Some a"
      "val a = (val avg * n + val t) div (n + 1)" "length a = 8"
    using arith_div_val [of "arith_add (arith_mul32 avg (of_nat n)) t" "arith_of_u64 (of_nat (n + 1))"] s n64
    by (simp add: val_of_u64 length_of_u64 del: of_nat_Suc of_nat_add) metis
  show thesis using a average_bounds [OF assms(4, 6, 5, 7), of n] by (intro that [of a]) simp_all
qed

lemma dgw_loop_spec:
  assumes params: "params_ok params" and tree: "tree_ok m" and ok: "targets_ok params m"
  shows "m p = Some x \<Longrightarrow> n \<le> bi_nHeight x + 1 \<Longrightarrow> c + n = 25 \<Longrightarrow> 1 \<le> c \<Longrightarrow>
    (1 < c \<Longrightarrow> length avg = 8 \<and> 8 \<le> val avg \<and> val avg \<le> le_nat (powLimit params)) \<Longrightarrow> (c = 1 \<Longrightarrow> 0 < n) \<Longrightarrow>
    \<exists>a q. dgw_loop m n c avg p = Some (a, q) \<and> m q \<noteq> None \<and> length a = 8 \<and> 8 \<le> val a \<and> val a \<le> le_nat (powLimit params)"
proof (induction n arbitrary: p x c avg)
  case 0
  then show ?case by auto
next
  case (Suc n)
  have len: "length (powLimit params) = 32" using params by (simp add: params_ok_def)
  let ?t = "fst (SetCompact (bi_nBits x))"
  have tx: "target_ok params (bi_nBits x)" "8 \<le> compact_value (bi_nBits x)" using ok Suc.prems(1) by (auto simp: targets_ok_def)
  then have t: "length ?t = 8" "8 \<le> val ?t" "val ?t \<le> le_nat (powLimit params)"
    using SetCompact_target [OF tx(1) len] by (simp_all add: target_ok_def)
  have "\<exists>a. (if c = 1 then Some ?t else arith_div (arith_add (arith_mul32 avg (of_nat c)) ?t) (arith_of_u64 (of_nat (c + 1)))) = Some a \<and>
      length a = 8 \<and> 8 \<le> val a \<and> val a \<le> le_nat (powLimit params)"
  proof (cases "c = 1")
    case False
    with Suc.prems(3-5) dgw_average [OF params, of avg ?t c] t show ?thesis by auto
  qed (use t in simp)
  then obtain a where a: "(if c = 1 then Some ?t else arith_div (arith_add (arith_mul32 avg (of_nat c)) ?t) (arith_of_u64 (of_nat (c + 1)))) = Some a"
      "length a = 8" "8 \<le> val a" "val a \<le> le_nat (powLimit params)" by blast
  show ?case
  proof (cases "c = 24")
    case True
    then have "n = 0" using Suc.prems(3) by simp
    then show ?thesis using a Suc.prems(1) True by (simp add: Let_def)
  next
    case False
    then have "n \<noteq> 0" using Suc.prems(3) by simp
    then have "bi_nHeight x \<noteq> 0" using Suc.prems(2) by simp
    then obtain q where q: "pprev x = Some q" using tree_ok_parent(1) [OF tree Suc.prems(1)] by auto
    obtain y where y: "m q = Some y" "bi_nHeight x = bi_nHeight y + 1" using tree_ok_parent(2) [OF tree Suc.prems(1) q] by blast
    have "dgw_loop m (Suc n) c avg p = dgw_loop m n (c + 1) a q"
      using Suc.prems(1) a(1) q False by (simp add: Let_def del: of_nat_add of_nat_Suc)
    with Suc.IH [OF y(1), of "c + 1" a] Suc.prems(2-4) y(2) a show ?thesis by simp
  qed
qed

lemma last_regular_block_spec:
  assumes "tree_ok m"
  shows "m p = Some x \<Longrightarrow> bi_nHeight x = n \<Longrightarrow> \<exists>q y. last_regular_block m i limit p = Some (bi_nBits y) \<and> m q = Some y"
proof (induction n arbitrary: p x)
  case 0
  then have "pprev x = None" using tree_ok_parent(1) [OF assms 0(1)] by simp
  with 0 show ?case by (auto simp: last_regular_block.simps [of m i limit p])
next
  case (Suc n)
  then have "pprev x \<noteq> None" using tree_ok_parent(1) [OF assms Suc.prems(1)] by simp
  then obtain q where q: "pprev x = Some q" by auto
  then obtain y where y: "m q = Some y" "bi_nHeight y = n" using tree_ok_parent(2) [OF assms Suc.prems(1) q] Suc.prems(2) by auto
  from Suc.IH [OF y] Suc.prems(1) q show ?case by (auto simp: last_regular_block.simps [of m i limit p])
qed

text \<open>A retarget from a target in range stays in range.\<close>

lemma retarget_ok:
  assumes params: "params_ok params" and a: "length a = 8" "8 \<le> val a" "val a \<le> le_nat (powLimit params)"
    and span: "0 < target" "target \<le> 8 * span" "span \<le> K" "target \<le> K" "K < 2 ^ 32" "le_nat (powLimit params) * nat K < 2 ^ 256"
  shows "\<exists>c. retarget a span target (UintToArith256 (powLimit params)) = Some c \<and> target_ok params c"
proof -
  let ?L = "le_nat (powLimit params)"
  have L: "length (powLimit params) = 32" "0 < ?L" using params by (simp_all add: params_ok_def)
  have "val a * nat span \<le> ?L * nat K" using a(3) span(3) by (intro mult_mono) simp_all
  then have "val a * nat span < 2 ^ 256" using span(6) by simp
  moreover have "0 < span" "span < 2 ^ 32" "target < 2 ^ 64" using span by simp_all
  ultimately obtain c t where c: "retarget a span target (UintToArith256 (powLimit params)) = Some c" "\<not> bit c 23"
      "t = min (val (UintToArith256 (powLimit params))) (val a * nat span div nat target)" "compact_value c \<le> t"
      "2 ^ 15 * (t - compact_value c) \<le> compact_value c"
    using retarget_spec [OF a(1) val_limit(2), of span target "powLimit params"] span(1) by metis
  have "nat target \<le> val a * nat span"
  proof -
    have "nat target \<le> 8 * nat span" using span(1, 2) by (simp add: nat_le_iff)
    also have "\<dots> \<le> val a * nat span" using a(2) by (intro mult_right_mono) simp_all
    finally show ?thesis .
  qed
  then have "0 < val a * nat span div nat target" using span(1) by (simp add: div_greater_zero_iff)
  then have "0 < t" "t \<le> ?L" using c(3) L by (simp_all add: val_limit)
  then have "0 < compact_value c" "compact_value c \<le> ?L" using c(4, 5) by (auto intro: gr0I)
  with c(1, 2) show ?thesis by (auto simp: target_ok_def)
qed

lemma clamp_bounds:
  fixes lo hi t :: int
  assumes "lo \<le> hi"
  shows "lo \<le> (if (if t < lo then lo else t) > hi then hi else (if t < lo then lo else t))"
    "(if (if t < lo then lo else t) > hi then hi else (if t < lo then lo else t)) \<le> hi"
  using assms by auto

lemma limit_compact:
  assumes "params_ok params"
  obtains c where "GetCompact (UintToArith256 (powLimit params)) False = Some c" "target_ok params c"
proof -
  let ?a = "UintToArith256 (powLimit params)"
  have L: "length (powLimit params) = 32" "0 < le_nat (powLimit params)" using assms by (simp_all add: params_ok_def)
  obtain c a' where c: "GetCompact ?a False = Some c" "compact_canonical c" "SetCompact c = (a', False, False)"
      "val a' \<le> val ?a" "2 ^ 15 * (val ?a - val a') \<le> val a'"
    using SetCompact_GetCompact [OF val_limit(2)] by metis
  obtain b neg where b: "SetCompact c = (b, neg, 2 ^ 256 \<le> compact_value c)" "val b = compact_value c mod 2 ^ 256"
    by (rule SetCompact_spec)
  have v: "val a' = compact_value c" using b c(3) by auto
  have "\<not> bit c 23" using c(2) by (auto simp: compact_canonical_def)
  moreover have "0 < compact_value c" using c(4, 5) v L by (intro gr0I) (simp add: val_limit)
  ultimately show thesis using c v L by (intro that [of c]) (simp_all add: target_ok_def val_limit)
qed

lemma CalculateNextWorkRequired_ok:
  assumes params: "params_ok params" and x: "target_ok params (bi_nBits x)" "8 \<le> compact_value (bi_nBits x)"
  shows "\<exists>c. CalculateNextWorkRequired x t0 params = Some c \<and> target_ok params c"
proof (cases "fPowNoRetargeting params")
  case False
  let ?T = "nPowTargetTimespan params"
  let ?s = "if (if CBlockIndex_GetBlockTime x - t0 < ?T div 4 then ?T div 4 else CBlockIndex_GetBlockTime x - t0) > ?T * 4 then ?T * 4
      else (if CBlockIndex_GetBlockTime x - t0 < ?T div 4 then ?T div 4 else CBlockIndex_GetBlockTime x - t0)"
  have T: "4 \<le> ?T" "4 * ?T < 2 ^ 32" "le_nat (powLimit params) * nat (4 * ?T) < 2 ^ 256" "length (powLimit params) = 32"
    using params by (simp_all add: params_ok_def)
  have b: "?T div 4 \<le> ?s" "?s \<le> 4 * ?T"
    using clamp_bounds [of "?T div 4" "?T * 4" "CBlockIndex_GetBlockTime x - t0"] T(1) by (simp_all only: mult.commute)
  have "?T \<le> 8 * r" if "?T div 4 \<le> r" for r
    using that T(1) mult_div_mod_eq [of 4 ?T] pos_mod_bound [of 4 ?T] zdiv_mono1 [OF T(1), of 4] by simp
  then have "?T \<le> 8 * ?s" using b(1) by blast
  then have "\<exists>c. retarget (fst (SetCompact (bi_nBits x))) ?s ?T (UintToArith256 (powLimit params)) = Some c \<and> target_ok params c"
    using SetCompact_target [OF x(1) T(4)] x T b(2) by (intro retarget_ok [OF params, where K = "4 * ?T"]) (simp_all add: target_ok_def)
  then show ?thesis using False by (simp add: CalculateNextWorkRequired_def Let_def)
qed (use x in \<open>simp add: CalculateNextWorkRequired_def\<close>)

lemma DarkGravityWave_ok:
  assumes params: "params_ok params" and tree: "tree_ok m" and ok: "targets_ok params m" and x: "m p = Some x"
  shows "\<exists>c. DarkGravityWave m (Some p) params = Some c \<and> target_ok params c"
proof (cases "bi_nHeight x < 24")
  case True
  then show ?thesis using limit_compact [OF params] x by (auto simp: DarkGravityWave_def Let_def)
next
  case False
  let ?T = "24 * nPowTargetSpacing params"
  obtain a q y where a: "dgw_loop m 24 1 (arith_of_u64 0) p = Some (a, q)" "m q = Some y" "length a = 8" "8 \<le> val a"
      "val a \<le> le_nat (powLimit params)"
    using dgw_loop_spec [OF params tree ok x, of 24 1 "arith_of_u64 0"] False by auto
  let ?d = "CBlockIndex_GetBlockTime x - CBlockIndex_GetBlockTime y"
  let ?s = "if (if ?d < ?T div 3 then ?T div 3 else ?d) > ?T * 3 then ?T * 3 else (if ?d < ?T div 3 then ?T div 3 else ?d)"
  have T: "24 \<le> ?T" "3 * ?T < 2 ^ 32" "le_nat (powLimit params) * nat (3 * ?T) < 2 ^ 256"
    using params by (simp_all add: params_ok_def)
  have b: "?T div 3 \<le> ?s" "?s \<le> 3 * ?T"
    using clamp_bounds [of "?T div 3" "?T * 3" ?d] T(1) by (simp_all only: mult.commute)
  have "?T \<le> 8 * r" if "?T div 3 \<le> r" for r
    using that T(1) mult_div_mod_eq [of 3 ?T] pos_mod_bound [of 3 ?T] zdiv_mono1 [OF T(1), of 3] by linarith
  then have "?T \<le> 8 * ?s" using b(1) by blast
  then have "\<exists>c. retarget a ?s ?T (UintToArith256 (powLimit params)) = Some c \<and> target_ok params c"
    using a T b(2) by (intro retarget_ok [OF params, where K = "3 * ?T"]) simp_all
  then show ?thesis using False x a(1, 2) by (simp add: DarkGravityWave_def Let_def)
qed

lemma GetNextWorkRequired_ok:
  assumes params: "params_ok params" and tree: "tree_ok m" and ok: "targets_ok params m" and x: "m p = Some x"
  shows "\<exists>c. GetNextWorkRequired m (Some p) block params = Some c \<and> target_ok params c"
proof -
  have tx: "target_ok params (bi_nBits x)" "8 \<le> compact_value (bi_nBits x)" using ok x by (auto simp: targets_ok_def)
  obtain l where l: "GetCompact (UintToArith256 (powLimit params)) False = Some l" "target_ok params l" by (rule limit_compact [OF params])
  let ?i = "DifficultyAdjustmentInterval params"
  have i: "0 < ?i" using params by (simp add: params_ok_def DifficultyAdjustmentInterval_def pos_imp_zdiv_pos_iff)
  show ?thesis
  proof (cases "92000 \<le> bi_nHeight x")
    case True
    then show ?thesis using DarkGravityWave_ok [OF params tree ok x] x by (simp add: GetNextWorkRequired_def)
  next
    case early: False
    show ?thesis
    proof (cases "(int (bi_nHeight x) + 1) mod ?i = 0")
      case False
      obtain q y where "last_regular_block m ?i l p = Some (bi_nBits y)" "m q = Some y"
        using last_regular_block_spec [OF tree x refl] by metis
      then show ?thesis using early False x l tx ok by (auto simp: GetNextWorkRequired_def targets_ok_def)
    next
      case True
      then have "?i \<le> int (bi_nHeight x) + 1" using i by (intro zdvd_imp_le) (auto simp: dvd_eq_mod_eq_0)
      then have h: "0 \<le> int (bi_nHeight x) - (?i - 1)" "int (bi_nHeight x) - (?i - 1) \<le> int (bi_nHeight x)" using i by simp_all
      obtain q y where q: "nth_pprev m (bi_nHeight x - nat (int (bi_nHeight x) - (?i - 1))) p = Some q" "m q = Some y"
        using nth_pprev_total [OF tree x, of "bi_nHeight x - nat (int (bi_nHeight x) - (?i - 1))"] by auto
      have anc: "GetAncestor m p (int (bi_nHeight x) - (?i - 1)) = Some (Some q)"
        using h q(1) by (subst GetAncestor_spec [OF tree x]) simp
      show ?thesis using early True x l anc q(2) h CalculateNextWorkRequired_ok [OF params tx]
        by (simp add: GetNextWorkRequired_def Let_def)
    qed
  qed
qed

section \<open>The main network\<close>

lemma le_nat_ff: "le_nat (replicate n 0xff @ xs) + 1 = 256 ^ n * (le_nat xs + 1)"
  by (induction n) simp_all

lemma le_nat_zeros: "le_nat (replicate n 0) = 0"
  by (induction n) simp_all

lemma main_limit: "le_nat (powLimit main_params) + 1 = 2 ^ 236"
  using le_nat_ff [of 29 "[0x0f, 0, 0]"] by (simp add: CMainParams_consensus_def)

lemma main_params_ok: "params_ok main_params"
proof -
  have "le_nat (powLimit main_params) = 2 ^ 236 - 1" using main_limit by simp
  then show ?thesis by (simp add: params_ok_def CMainParams_consensus_def)
qed

section \<open>Properties\<close>

text \<open>
  C34: a hash passes the check of the proof of work exactly when the compact bits stand for a positive target, without the
  sign and not above the limit of the network, and the hash as a number is not above the target.
\<close>

theorem CheckProofOfWork_exact:
  assumes "length hash = 32" "length (powLimit params) = 32"
  shows "CheckProofOfWork hash bits params \<longleftrightarrow>
    \<not> bit bits 23 \<and> 0 < compact_value bits \<and> compact_value bits \<le> le_nat (powLimit params) \<and> le_nat hash \<le> compact_value bits"
  using CheckProofOfWork_iff [OF assms] by (auto simp: target_ok_def)

theorem CheckProofOfWork_exact_witness:
  "CheckProofOfWork (replicate 32 0) 0x1e0ffff0 main_params"
proof -
  have c: "compact_value 0x1e0ffff0 = 0xffff0 * 256 ^ 27" "\<not> bit (0x1e0ffff0 :: u32) 23"
    by (simp_all add: compact_value_def compact_mantissa_def compact_size_def)
  have "0xffff0 * 256 ^ 27 \<le> le_nat (powLimit main_params)" using main_limit by simp
  then show ?thesis
    using CheckProofOfWork_exact [of "replicate 32 0" main_params "0x1e0ffff0"] c by (simp add: le_nat_zeros CMainParams_consensus_def)
qed



end
