(* ===== verification/SigHash.thy ===== *)
theory SigHash
  imports ScriptLimits Transaction "HOL-Library.Sublist"
begin

text \<open>
  What a signature commits to (\<^verbatim>\<open>src/script/interpreter.cpp\<close> from \<^verbatim>\<open>CTransactionSignatureSerializer\<close> to
  \<^verbatim>\<open>CheckSequence\<close>, and the key container of \<^verbatim>\<open>src/pubkey.h\<close>): the two signature hash algorithms, the
  cached intermediate hashes, and the signature checker of a transaction input, which the interpreter
  takes as its checker.

  The hash type is the 32-bit image of the C++ \<^verbatim>\<open>int\<close>.  Elliptic curve verification,
  \<^verbatim>\<open>CPubKey::Verify\<close>, is a parameter \<open>Verify\<close> of the checker.  The pre-optimisation algorithm that the
  unit tests keep as an oracle (\<^verbatim>\<open>SignatureHashOld\<close> in \<^verbatim>\<open>src/test/sighash_tests.cpp\<close>) is modelled as well;
  the serializer that edits on the fly is proved to agree with it.
\<close>

unbundle bit_operations_syntax

section \<open>Public keys\<close>

text \<open>A key is its serialized data; the invalid key is the single header byte \<^verbatim>\<open>0xFF\<close>.\<close>

definition GetLen :: "byte \<Rightarrow> nat" where
  "GetLen chHeader =
     (if chHeader = 2 \<or> chHeader = 3 then 33
      else if chHeader = 4 \<or> chHeader = 6 \<or> chHeader = 7 then 65
      else 0)"

definition CPubKey :: "bytes \<Rightarrow> bytes" where
  "CPubKey vch =
     (let len = (if vch = [] then 0 else GetLen (hd vch))
      in if len \<noteq> 0 \<and> len = length vch then vch else [0xFF])"

definition CPubKey_size :: "bytes \<Rightarrow> nat" where
  "CPubKey_size key = GetLen (hd key)"

definition CPubKey_IsValid :: "bytes \<Rightarrow> bool" where
  "CPubKey_IsValid key \<longleftrightarrow> CPubKey_size key > 0"

definition CPubKey_IsCompressed :: "bytes \<Rightarrow> bool" where
  "CPubKey_IsCompressed key \<longleftrightarrow> CPubKey_size key = 33"

section \<open>The in-place serializer\<close>

abbreviation (input) SIGHASH_ALL :: u32 where "SIGHASH_ALL \<equiv> 1"
abbreviation (input) SIGHASH_NONE :: u32 where "SIGHASH_NONE \<equiv> 2"
abbreviation (input) SIGHASH_SINGLE :: u32 where "SIGHASH_SINGLE \<equiv> 3"
abbreviation (input) SIGHASH_ANYONECANPAY :: u32 where "SIGHASH_ANYONECANPAY \<equiv> 0x80"

definition fAnyoneCanPay :: "u32 \<Rightarrow> bool" where
  "fAnyoneCanPay nHashType \<longleftrightarrow> nHashType AND SIGHASH_ANYONECANPAY \<noteq> 0"

definition fHashSingle :: "u32 \<Rightarrow> bool" where
  "fHashSingle nHashType \<longleftrightarrow> nHashType AND 0x1f = SIGHASH_SINGLE"

definition fHashNone :: "u32 \<Rightarrow> bool" where
  "fHashNone nHashType \<longleftrightarrow> nHashType AND 0x1f = SIGHASH_NONE"

function nCodeSeparators :: "bytes \<Rightarrow> nat" where
  "nCodeSeparators it =
     (case GetOp it of
        None \<Rightarrow> 0
      | Some (it', opcode, _) \<Rightarrow> (if opcode = OP_CODESEPARATOR then 1 else 0) + nCodeSeparators it')"
  by pat_completeness auto
termination by (relation "measure length") (auto dest: GetOp_shorter)

text \<open>
  The second loop writes the pieces between separators.  When \<^verbatim>\<open>GetOp\<close> fails, the iterator stays where
  the failed read left it, and the last piece ends there.
\<close>

function write_script_code :: "bytes \<Rightarrow> bytes \<Rightarrow> bytes" where
  "write_script_code it itBegin =
     (case GetOp2 it of
        (True, it', opcode, _) \<Rightarrow>
          if opcode = OP_CODESEPARATOR
          then take (length itBegin - length it' - 1) itBegin @ write_script_code it' it'
          else write_script_code it' itBegin
      | (False, it', _) \<Rightarrow> if itBegin \<noteq> [] then take (length itBegin - length it') itBegin else [])"
  by pat_completeness auto
termination by (relation "measure (\<lambda>(it, itBegin). length it)") (auto dest!: GetOp2_length [OF sym])

definition SerializeScriptCode :: "bytes \<Rightarrow> bytes" where
  "SerializeScriptCode scriptCode =
     WriteCompactSize (of_nat (length scriptCode - nCodeSeparators scriptCode)) @ write_script_code scriptCode scriptCode"

definition SerializeInput :: "CTransaction \<Rightarrow> bytes \<Rightarrow> nat \<Rightarrow> u32 \<Rightarrow> nat \<Rightarrow> bytes" where
  "SerializeInput txTo scriptCode nIn nHashType nInput =
     (let nInput = (if fAnyoneCanPay nHashType then nIn else nInput)
      in Serialize_COutPoint (prevout (vin txTo ! nInput))
         @ (if nInput \<noteq> nIn then Serialize_bytes [] else SerializeScriptCode scriptCode)
         @ (if nInput \<noteq> nIn \<and> (fHashSingle nHashType \<or> fHashNone nHashType) then Serialize_int32 0
            else ser_writedata32 (nSequence (vin txTo ! nInput))))"

definition SerializeOutput :: "CTransaction \<Rightarrow> nat \<Rightarrow> u32 \<Rightarrow> nat \<Rightarrow> bytes" where
  "SerializeOutput txTo nIn nHashType nOutput =
     (if fHashSingle nHashType \<and> nOutput \<noteq> nIn then Serialize_CTxOut CTxOut_SetNull
      else Serialize_CTxOut (vout txTo ! nOutput))"

definition SignatureSerializer_Serialize :: "CTransaction \<Rightarrow> bytes \<Rightarrow> nat \<Rightarrow> u32 \<Rightarrow> bytes" where
  "SignatureSerializer_Serialize txTo scriptCode nIn nHashType =
     (let nInputs = (if fAnyoneCanPay nHashType then 1 else length (vin txTo));
          nOutputs = (if fHashNone nHashType then 0 else if fHashSingle nHashType then nIn + 1 else length (vout txTo))
      in Serialize_int32 (nVersion txTo)
         @ WriteCompactSize (of_nat nInputs)
         @ concat (map (SerializeInput txTo scriptCode nIn nHashType) [0..<nInputs])
         @ WriteCompactSize (of_nat nOutputs)
         @ concat (map (SerializeOutput txTo nIn nHashType) [0..<nOutputs])
         @ ser_writedata32 (nLockTime txTo))"

section \<open>Signature hashes\<close>

definition GetPrevoutHash :: "CTransaction \<Rightarrow> bytes" where
  "GetPrevoutHash txTo = SerializeHash (map (\<lambda>txin. Serialize_COutPoint (prevout txin)) (vin txTo))"

definition GetSequenceHash :: "CTransaction \<Rightarrow> bytes" where
  "GetSequenceHash txTo = SerializeHash (map (\<lambda>txin. ser_writedata32 (nSequence txin)) (vin txTo))"

definition GetOutputsHash :: "CTransaction \<Rightarrow> bytes" where
  "GetOutputsHash txTo = SerializeHash (map Serialize_CTxOut (vout txTo))"

record PrecomputedData =
  cache_hashPrevouts :: bytes
  cache_hashSequence :: bytes
  cache_hashOutputs :: bytes
  cache_ready :: bool

definition PrecomputedTransactionData :: "CTransaction \<Rightarrow> PrecomputedData" where
  "PrecomputedTransactionData txTo =
     (if HasWitness txTo
      then \<lparr>cache_hashPrevouts = GetPrevoutHash txTo, cache_hashSequence = GetSequenceHash txTo,
            cache_hashOutputs = GetOutputsHash txTo, cache_ready = True\<rparr>
      else \<lparr>cache_hashPrevouts = null_uint256, cache_hashSequence = null_uint256,
            cache_hashOutputs = null_uint256, cache_ready = False\<rparr>)"

definition uint256_one :: bytes where
  "uint256_one = 1 # replicate 31 0"

definition SignatureHash_witness_v0 ::
  "bytes \<Rightarrow> CTransaction \<Rightarrow> nat \<Rightarrow> u32 \<Rightarrow> int \<Rightarrow> PrecomputedData option \<Rightarrow> bytes" where
  "SignatureHash_witness_v0 scriptCode txTo nIn nHashType amount cache =
     (let cached = (\<lambda>f x. case cache of Some c \<Rightarrow> if cache_ready c then f c else x | None \<Rightarrow> x);
          hashPrevouts = (if \<not> fAnyoneCanPay nHashType then cached cache_hashPrevouts (GetPrevoutHash txTo)
                          else null_uint256);
          hashSequence = (if \<not> fAnyoneCanPay nHashType \<and> \<not> fHashSingle nHashType \<and> \<not> fHashNone nHashType
                          then cached cache_hashSequence (GetSequenceHash txTo) else null_uint256);
          hashOutputs = (if \<not> fHashSingle nHashType \<and> \<not> fHashNone nHashType
                         then cached cache_hashOutputs (GetOutputsHash txTo)
                         else if fHashSingle nHashType \<and> nIn < length (vout txTo)
                         then SerializeHash [Serialize_CTxOut (vout txTo ! nIn)] else null_uint256)
      in SerializeHash
          [Serialize_int32 (nVersion txTo), Serialize_uint256 hashPrevouts, Serialize_uint256 hashSequence,
           Serialize_COutPoint (prevout (vin txTo ! nIn)), Serialize_bytes scriptCode, Serialize_int64 amount,
           ser_writedata32 (nSequence (vin txTo ! nIn)), Serialize_uint256 hashOutputs,
           ser_writedata32 (nLockTime txTo), ser_writedata32 nHashType])"

text \<open>\<^const>\<open>None\<close> is the failed assertion that the input exists.\<close>

definition SignatureHash ::
  "bytes \<Rightarrow> CTransaction \<Rightarrow> nat \<Rightarrow> u32 \<Rightarrow> int \<Rightarrow> SigVersion \<Rightarrow> PrecomputedData option \<Rightarrow> bytes option" where
  "SignatureHash scriptCode txTo nIn nHashType amount sv cache =
     (if \<not> nIn < length (vin txTo) then None
      else if sv = SIGVERSION_WITNESS_V0 then Some (SignatureHash_witness_v0 scriptCode txTo nIn nHashType amount cache)
      else if fHashSingle nHashType \<and> nIn \<ge> length (vout txTo) then Some uint256_one
      else Some (SerializeHash [SignatureSerializer_Serialize txTo scriptCode nIn nHashType, ser_writedata32 nHashType]))"

section \<open>The checker of a transaction input\<close>

definition TransactionSignatureChecker_CheckSig ::
  "(bytes \<Rightarrow> bytes \<Rightarrow> bytes \<Rightarrow> bool) \<Rightarrow> CTransaction \<Rightarrow> nat \<Rightarrow> int \<Rightarrow> PrecomputedData option
   \<Rightarrow> bytes \<Rightarrow> bytes \<Rightarrow> bytes \<Rightarrow> SigVersion \<Rightarrow> bool option" where
  "TransactionSignatureChecker_CheckSig Verify txTo nIn amount txdata vchSigIn vchPubKey scriptCode sv =
     (let pubkey = CPubKey vchPubKey
      in if \<not> CPubKey_IsValid pubkey then Some False
      else if vchSigIn = [] then Some False
      else let nHashType = ucast (last vchSigIn); vchSig = butlast vchSigIn
      in case SignatureHash scriptCode txTo nIn nHashType amount sv txdata of
           None \<Rightarrow> None
         | Some sighash \<Rightarrow> if \<not> Verify pubkey sighash vchSig then Some False else Some True)"

definition TransactionSignatureChecker_CheckLockTime :: "CTransaction \<Rightarrow> nat \<Rightarrow> int \<Rightarrow> bool" where
  "TransactionSignatureChecker_CheckLockTime txTo nIn lock =
     (let txLock = int (unat (nLockTime txTo))
      in if \<not> ((txLock < LOCKTIME_THRESHOLD \<and> lock < LOCKTIME_THRESHOLD) \<or>
               (txLock \<ge> LOCKTIME_THRESHOLD \<and> lock \<ge> LOCKTIME_THRESHOLD)) then False
      else if lock > txLock then False
      else if SEQUENCE_FINAL = nSequence (vin txTo ! nIn) then False
      else True)"

definition TransactionSignatureChecker_CheckSequence :: "CTransaction \<Rightarrow> nat \<Rightarrow> int \<Rightarrow> bool" where
  "TransactionSignatureChecker_CheckSequence txTo nIn seq =
     (let txToSequence = int (unat (nSequence (vin txTo ! nIn)));
          typeFlag = int (unat SEQUENCE_LOCKTIME_TYPE_FLAG);
          nLockTimeMask = int (unat (SEQUENCE_LOCKTIME_TYPE_FLAG OR SEQUENCE_LOCKTIME_MASK));
          txToSequenceMasked = txToSequence AND nLockTimeMask;
          nSequenceMasked = seq AND nLockTimeMask
      in if (word_of_int (nVersion txTo) :: u32) < 2 then False
      else if txToSequence AND int (unat SEQUENCE_DISABLE_FLAG) \<noteq> 0 then False
      else if \<not> ((txToSequenceMasked < typeFlag \<and> nSequenceMasked < typeFlag) \<or>
               (txToSequenceMasked \<ge> typeFlag \<and> nSequenceMasked \<ge> typeFlag)) then False
      else if nSequenceMasked > txToSequenceMasked then False
      else True)"

definition TransactionSignatureChecker ::
  "(bytes \<Rightarrow> bytes \<Rightarrow> bytes \<Rightarrow> bool) \<Rightarrow> CTransaction \<Rightarrow> nat \<Rightarrow> int \<Rightarrow> PrecomputedData option \<Rightarrow> checker" where
  "TransactionSignatureChecker Verify txTo nIn amount txdata =
     \<lparr>CheckSig = TransactionSignatureChecker_CheckSig Verify txTo nIn amount txdata,
      CheckLockTime = TransactionSignatureChecker_CheckLockTime txTo nIn,
      CheckSequence = TransactionSignatureChecker_CheckSequence txTo nIn\<rparr>"

section \<open>The reference algorithm\<close>

definition SignatureHashOld :: "bytes \<Rightarrow> CTransaction \<Rightarrow> nat \<Rightarrow> u32 \<Rightarrow> bytes" where
  "SignatureHashOld scriptCode txTo nIn nHashType =
     (if nIn \<ge> length (vin txTo) then uint256_one
      else let
        code = fst (FindAndDelete scriptCode [of_nat OP_CODESEPARATOR]);
        ins = map (\<lambda>txin. txin\<lparr>scriptSig := []\<rparr>) (vin txTo);
        ins = ins[nIn := (ins ! nIn)\<lparr>scriptSig := code\<rparr>];
        relax = map (\<lambda>i. if i \<noteq> nIn then (ins ! i)\<lparr>nSequence := 0\<rparr> else ins ! i) [0..<length ins];
        finish = (\<lambda>ins outs.
          let ins = (if nHashType AND SIGHASH_ANYONECANPAY \<noteq> 0 then take 1 (ins[0 := ins ! nIn]) else ins)
          in SerializeHash [SerializeTransaction False (txTo\<lparr>vin := ins, vout := outs\<rparr>), ser_writedata32 nHashType])
      in if nHashType AND 0x1f = SIGHASH_NONE then finish relax []
      else if nHashType AND 0x1f = SIGHASH_SINGLE then
        (if nIn \<ge> length (vout txTo) then uint256_one
         else finish relax (map (\<lambda>i. if i < nIn then CTxOut_SetNull else vout txTo ! i) [0..<nIn + 1]))
      else finish ins (vout txTo))"

section \<open>Specification vocabulary\<close>

text \<open>The inputs of the edited copy, before it is cut down to the one being signed.\<close>

definition edited_input :: "CTransaction \<Rightarrow> bytes \<Rightarrow> nat \<Rightarrow> bool \<Rightarrow> nat \<Rightarrow> CTxIn" where
  "edited_input tx code k relax i =
     (vin tx ! i)\<lparr>scriptSig := (if i = k then code else []),
        nSequence := (if i \<noteq> k \<and> relax then 0 else nSequence (vin tx ! i))\<rparr>"

definition edited_inputs :: "CTransaction \<Rightarrow> bytes \<Rightarrow> nat \<Rightarrow> bool \<Rightarrow> bool \<Rightarrow> CTxIn list" where
  "edited_inputs tx code k relax anyone =
     (if anyone then [edited_input tx code k relax k] else map (edited_input tx code k relax) [0..<length (vin tx)])"

text \<open>Two transactions that agree on everything a signature of type \<open>t\<close> for input \<open>k\<close> covers.\<close>

definition sighash_agree :: "u32 \<Rightarrow> nat \<Rightarrow> CTransaction \<Rightarrow> CTransaction \<Rightarrow> bool" where
  "sighash_agree t k tx tx' \<longleftrightarrow>
     nVersion tx = nVersion tx' \<and> nLockTime tx = nLockTime tx' \<and> k < length (vin tx) \<and> k < length (vin tx') \<and>
     prevout (vin tx ! k) = prevout (vin tx' ! k) \<and> nSequence (vin tx ! k) = nSequence (vin tx' ! k) \<and>
     (\<not> fAnyoneCanPay t \<longrightarrow> map prevout (vin tx) = map prevout (vin tx')) \<and>
     (\<not> fAnyoneCanPay t \<and> \<not> fHashSingle t \<and> \<not> fHashNone t \<longrightarrow> map nSequence (vin tx) = map nSequence (vin tx')) \<and>
     (\<not> fHashSingle t \<and> \<not> fHashNone t \<longrightarrow> vout tx = vout tx') \<and>
     (fHashSingle t \<longrightarrow> (k < length (vout tx) \<longleftrightarrow> k < length (vout tx')) \<and>
        (k < length (vout tx) \<longrightarrow> vout tx ! k = vout tx' ! k))"

declare nCodeSeparators.simps [simp del] write_script_code.simps [simp del]

section \<open>Removing code separators\<close>

function parses :: "bytes \<Rightarrow> bool" where
  "parses it = (it = [] \<or> (case GetOp it of None \<Rightarrow> False | Some (it', _, _) \<Rightarrow> parses it'))"
  by pat_completeness auto
termination by (relation "measure length") (auto dest: GetOp_shorter)

function without_separators :: "bytes \<Rightarrow> bytes" where
  "without_separators it =
     (case GetOp it of
        None \<Rightarrow> it
      | Some (it', opcode, _) \<Rightarrow>
          (if opcode = OP_CODESEPARATOR then [] else take (length it - length it') it) @ without_separators it')"
  by pat_completeness auto
termination by (relation "measure length") (auto dest: GetOp_shorter)

declare parses.simps [simp del] without_separators.simps [simp del]

lemma GetOp2_GetOp: "GetOp2 it = (True, it', opcode, v) \<longleftrightarrow> GetOp it = Some (it', opcode, v)"
  by (auto simp: GetOp_def split: prod.splits if_splits)

lemma GetOp_suffix: "GetOp it = Some (it', opcode, v) \<Longrightarrow> it = take (length it - length it') it @ it'"
proof -
  assume a: "GetOp it = Some (it', opcode, v)"
  have "suffix it' it"
    using a by (cases it) (auto simp: GetOp2_GetOp [symmetric] GetOp2.simps(2) Let_def split: option.splits if_splits
      intro!: suffix_ConsI intro: suffix_drop suffix_order.trans [OF suffix_drop suffix_drop]
        suffix_order.trans [OF suffix_drop suffix_tl])
  then show ?thesis by (auto simp: suffix_def)
qed

lemma GetOp_separator: "GetOp it = Some (it', OP_CODESEPARATOR, v) \<longleftrightarrow> it = 0xab # it' \<and> v = []"
  by (cases it) (auto simp: GetOp2_GetOp [symmetric] GetOp2.simps(2) Let_def word_unat_eq_iff split: option.splits if_splits)

lemma without_separators_Nil [simp]: "without_separators [] = []" "nCodeSeparators [] = 0"
  by (simp_all add: without_separators.simps nCodeSeparators.simps)

lemma separator_step:
  "without_separators (0xab # it) = without_separators it" "nCodeSeparators (0xab # it) = Suc (nCodeSeparators it)"
  using GetOp_separator [of "0xab # it" it "[]"]
  by (simp_all add: without_separators.simps [of "0xab # it"] nCodeSeparators.simps [of "0xab # it"])

lemma other_step:
  assumes "GetOp it = Some (it', opcode, v)" "opcode \<noteq> OP_CODESEPARATOR"
  shows "without_separators it = take (length it - length it') it @ without_separators it'"
    "nCodeSeparators it = nCodeSeparators it'"
  using assms by (simp_all add: without_separators.simps [of it] nCodeSeparators.simps [of it])

lemma length_without_separators: "length (without_separators it) + nCodeSeparators it = length it"
proof (induction it rule: without_separators.induct)
  case (1 it)
  show ?case
  proof (cases "GetOp it")
    case None
    then show ?thesis by (simp add: without_separators.simps [of it] nCodeSeparators.simps [of it])
  next
    case (Some p)
    obtain it' opcode v where p: "p = (it', opcode, v)" by (cases p)
    note g = Some [unfolded p]
    have ih: "length (without_separators it') + nCodeSeparators it' = length it'" using 1 [OF g] by blast
    show ?thesis
    proof (cases "opcode = OP_CODESEPARATOR")
      case True
      then have "it = 0xab # it'" using g GetOp_separator by blast
      then show ?thesis using ih separator_step [of it'] by simp
    next
      case False
      have "length (take (length it - length it') it) = length it - length it'" by simp
      then show ?thesis using ih other_step [OF g False] GetOp_shorter [OF g] by simp
    qed
  qed
qed

lemma write_script_code_eq:
  "parses it \<Longrightarrow> write_script_code it (a @ it) = a @ without_separators it"
proof (induction it arbitrary: a rule: without_separators.induct)
  case (1 it)
  show ?case
  proof (cases "GetOp it")
    case None
    then have "it = []" using "1.prems" by (simp add: parses.simps [of it])
    then show ?thesis by (simp add: write_script_code.simps)
  next
    case (Some p)
    obtain it' opcode v where p: "p = (it', opcode, v)" by (cases p)
    note g = Some [unfolded p]
    have "it \<noteq> []" using g by auto
    then have pr: "parses it'" using "1.prems" g by (simp add: parses.simps [of it])
    have g2: "GetOp2 it = (True, it', opcode, v)" using g by (simp add: GetOp2_GetOp)
    show ?thesis
    proof (cases "opcode = OP_CODESEPARATOR")
      case True
      then have "it = 0xab # it'" using g GetOp_separator by blast
      then show ?thesis using "1.IH" [OF g refl refl pr, of "[]"] g2 True
        by (simp add: write_script_code.simps [of "0xab # it'"] separator_step)
    next
      case False
      let ?t = "take (length it - length it') it"
      have it: "?t @ it' = it" using GetOp_suffix [OF g] by simp
      have "write_script_code it (a @ it) = write_script_code it' ((a @ ?t) @ it')"
        using g2 False it by (simp add: write_script_code.simps [of it])
      also have "\<dots> = (a @ ?t) @ without_separators it'" by (rule "1.IH" [OF g refl refl pr])
      finally show ?thesis using other_step [OF g False] by simp
    qed
  qed
qed

lemma skip_matches_separators:
  "skip_matches [0xab] pc k = (pc', k') \<Longrightarrow>
     without_separators pc' = without_separators pc \<and> k' + nCodeSeparators pc' = k + nCodeSeparators pc \<and>
     (\<forall>t. pc' \<noteq> 0xab # t)"
proof (induction "[0xab :: byte]" pc k rule: skip_matches.induct)
  case (1 pc k)
  show ?case
  proof (cases "length pc \<ge> 1 \<and> take 1 pc = [0xab]")
    case True
    then obtain t where pc: "pc = 0xab # t" by (cases pc) auto
    have "skip_matches [0xab] (0xab # t) k = skip_matches [0xab] t (Suc k)"
      by (simp add: skip_matches.simps [of _ "0xab # t"])
    with 1 pc show ?thesis by (simp add: separator_step)
  next
    case False
    with 1 show ?thesis by (auto simp: skip_matches.simps [of _ pc k])
  qed
qed

lemma FindAndDelete_loop_separators:
  "FindAndDelete_loop [0xab] (a @ pc) pc result k = (result', k', pc') \<Longrightarrow>
     result' @ pc' = result @ a @ without_separators pc \<and> k' = k + nCodeSeparators pc"
proof (induction "[0xab :: byte]" "a @ pc" pc result k arbitrary: a rule: FindAndDelete_loop.induct)
  case (1 pc result k a)
  obtain pc1 k1 where s: "skip_matches [0xab] pc k = (pc1, k1)" by (cases "skip_matches [0xab] pc k")
  note sk = skip_matches_separators [OF s]
  show ?case
  proof (cases "GetOp pc1")
    case None
    then have "without_separators pc1 = pc1" "nCodeSeparators pc1 = 0"
      by (simp_all add: without_separators.simps [of pc1] nCodeSeparators.simps [of pc1])
    then show ?thesis using 1(2) sk None s by (auto simp: FindAndDelete_loop.simps [of _ _ pc])
  next
    case (Some p)
    obtain it' opcode v where p: "p = (it', opcode, v)" by (cases p)
    note g = Some [unfolded p]
    have no: "opcode \<noteq> OP_CODESEPARATOR" using g sk GetOp_separator [of pc1 it' v] by blast
    let ?t = "take (length pc1 - length it') pc1"
    have it: "pc1 = ?t @ it'" using GetOp_suffix [OF g] .
    have s': "(?t @ it', k1) = skip_matches [0xab] pc k" and g': "GetOp (?t @ it') = Some (it', opcode, v)"
      by (simp_all only: it [symmetric] s g)
    have l: "FindAndDelete_loop [0xab] (?t @ it') it' (result @ take (length (a @ pc) - length pc) (a @ pc)) k1 = (result', k', pc')"
      using 1(2) g' unfolding FindAndDelete_loop.simps [of _ _ pc] s' [symmetric] by simp
    have "result' @ pc' = (result @ a) @ ?t @ without_separators it' \<and> k' = k1 + nCodeSeparators it'"
      using 1(1) [OF s' g' refl refl l] by simp
    then show ?thesis using sk other_step [OF g no] by simp
  qed
qed

lemma no_separators: "nCodeSeparators it = 0 \<Longrightarrow> without_separators it = it"
proof (induction it rule: without_separators.induct)
  case (1 it)
  show ?case
  proof (cases "GetOp it")
    case None
    then show ?thesis by (simp add: without_separators.simps [of it])
  next
    case (Some p)
    obtain it' opcode v where p: "p = (it', opcode, v)" by (cases p)
    note g = Some [unfolded p]
    have no: "opcode \<noteq> OP_CODESEPARATOR" using "1.prems" g by (auto simp: nCodeSeparators.simps [of it])
    have "without_separators it' = it'" using 1(1) [OF g refl refl] "1.prems" other_step(2) [OF g no] by simp
    then show ?thesis using other_step(1) [OF g no] GetOp_suffix [OF g] by simp
  qed
qed

lemma FindAndDelete_separators: "fst (FindAndDelete code [0xab]) = without_separators code"
proof -
  obtain r k pc where l: "FindAndDelete_loop [0xab] code code [] 0 = (r, k, pc)"
    by (cases "FindAndDelete_loop [0xab] code code [] 0")
  then have "r @ pc = without_separators code" "k = nCodeSeparators code"
    using FindAndDelete_loop_separators [of "[]" code "[]" 0 r k pc] by simp_all
  moreover note no_separators [of code]
  ultimately show ?thesis using l by (auto simp: FindAndDelete_def)
qed

lemma SerializeScriptCode_eq:
  assumes "parses code"
  shows "SerializeScriptCode code = Serialize_bytes (without_separators code)"
proof -
  have "length code - nCodeSeparators code = length (without_separators code)"
    using length_without_separators [of code] by linarith
  then show ?thesis using write_script_code_eq [OF assms, of "[]"]
    by (simp only: SerializeScriptCode_def Serialize_bytes_def append_Nil)
qed

section \<open>The serializer agrees with the edited copy\<close>

lemma Serialize_vector_map_upt:
  "Serialize_vector ser (map f [0..<k]) = WriteCompactSize (of_nat k) @ concat (map (\<lambda>i. ser (f i)) [0..<k])"
  by (simp add: Serialize_vector_def comp_def)

lemma Serialize_vector_upt:
  "Serialize_vector ser xs = WriteCompactSize (of_nat (length xs)) @ concat (map (\<lambda>i. ser (xs ! i)) [0..<length xs])"
  using Serialize_vector_map_upt [of ser "(!) xs" "length xs"] by (simp add: map_nth)

lemma SerializeInput_eq:
  assumes "parses code" "i < length (vin tx)"
  shows "SerializeInput tx code k t i = Serialize_CTxIn
    (let j = (if fAnyoneCanPay t then k else i); x = vin tx ! j
     in x\<lparr>scriptSig := (if j \<noteq> k then [] else without_separators code),
          nSequence := (if j \<noteq> k \<and> (fHashSingle t \<or> fHashNone t) then 0 else nSequence x)\<rparr>)"
  using assms by (simp add: SerializeInput_def Serialize_CTxIn_def SerializeScriptCode_eq Let_def Serialize_int32_def)

lemma fHash_exclusive: "fHashSingle t \<Longrightarrow> \<not> fHashNone t"
  by (simp add: fHashSingle_def fHashNone_def)

lemma serialize_inputs:
  assumes "parses code" "k < length (vin tx)"
  shows "WriteCompactSize (of_nat (if fAnyoneCanPay t then 1 else length (vin tx)))
      @ concat (map (SerializeInput tx code k t) [0..<(if fAnyoneCanPay t then 1 else length (vin tx))]) =
    Serialize_vector Serialize_CTxIn
      (edited_inputs tx (without_separators code) k (fHashSingle t \<or> fHashNone t) (fAnyoneCanPay t))"
proof (cases "fAnyoneCanPay t")
  case True
  have "SerializeInput tx code k t 0 = Serialize_CTxIn (edited_input tx (without_separators code) k (fHashSingle t \<or> fHashNone t) k)"
    using True assms SerializeInput_eq [of code k tx k t]
    by (simp add: SerializeInput_def edited_input_def Let_def)
  then show ?thesis using True by (simp add: edited_inputs_def Serialize_vector_def)
next
  case False
  have "map (SerializeInput tx code k t) [0..<length (vin tx)] =
    map (\<lambda>i. Serialize_CTxIn (edited_input tx (without_separators code) k (fHashSingle t \<or> fHashNone t) i)) [0..<length (vin tx)]"
    using False assms(1) by (intro map_cong refl) (auto simp: SerializeInput_eq edited_input_def Let_def)
  then show ?thesis using False by (simp only: if_False edited_inputs_def Serialize_vector_map_upt)
qed

lemma SignatureHashOld_inputs:
  assumes "k < length (vin tx)"
  shows "(map (\<lambda>i. i\<lparr>scriptSig := []\<rparr>) (vin tx))[k := (map (\<lambda>i. i\<lparr>scriptSig := []\<rparr>) (vin tx) ! k)\<lparr>scriptSig := code\<rparr>] =
      map (edited_input tx code k False) [0..<length (vin tx)]"
    "map (\<lambda>i. if i \<noteq> k then (map (edited_input tx code k False) [0..<length (vin tx)] ! i)\<lparr>nSequence := 0\<rparr>
        else map (edited_input tx code k False) [0..<length (vin tx)] ! i)
       [0..<length (map (edited_input tx code k False) [0..<length (vin tx)])] =
      map (edited_input tx code k True) [0..<length (vin tx)]"
  using assms by (auto intro!: nth_equalityI simp: edited_input_def nth_list_update)

lemma take_1_map_upt: "k < n \<Longrightarrow> take 1 ((map f [0..<n])[0 := (map f [0..<n]) ! k]) = [f k]"
proof -
  assume k: "k < n"
  then have "take 1 ((map f [0..<n])[0 := y]) = [y]" for y by (cases "map f [0..<n]") auto
  then show ?thesis using k by simp
qed

lemma SignatureHash_eq_Old:
  assumes p: "parses code" and k: "k < length (vin tx)"
  shows "SignatureHash code tx k t amount SIGVERSION_BASE cache = Some (SignatureHashOld code tx k t)"
proof -
  let ?code = "without_separators code"
  let ?R = "fHashSingle t \<or> fHashNone t"
  let ?ins = "edited_inputs tx ?code k ?R (fAnyoneCanPay t)"
  have cut: "(if t AND SIGHASH_ANYONECANPAY \<noteq> 0
      then take 1 ((map (edited_input tx ?code k r) [0..<length (vin tx)])[0 := map (edited_input tx ?code k r) [0..<length (vin tx)] ! k])
      else map (edited_input tx ?code k r) [0..<length (vin tx)]) = edited_inputs tx ?code k r (fAnyoneCanPay t)" for r
    unfolding edited_inputs_def fAnyoneCanPay_def take_1_map_upt [OF k] ..
  have code: "fst (FindAndDelete code [of_nat OP_CODESEPARATOR]) = ?code"
    using FindAndDelete_separators [of code] by simp
  define outs where "outs = (if fHashNone t then [] else if fHashSingle t
    then map (\<lambda>i. if i < k then CTxOut_SetNull else vout tx ! i) [0..<k + 1] else vout tx)"
  have old: "SignatureHashOld code tx k t = SerializeHash [SerializeTransaction False (tx\<lparr>vin := ?ins, vout := outs\<rparr>), ser_writedata32 t]"
    if s: "\<not> (fHashSingle t \<and> k \<ge> length (vout tx))"
  proof -
    have k': "\<not> k \<ge> length (vin tx)" using k by simp
    consider "fHashNone t" "\<not> fHashSingle t" | "fHashSingle t" "\<not> fHashNone t" "\<not> k \<ge> length (vout tx)"
      | "\<not> fHashSingle t" "\<not> fHashNone t" using s fHash_exclusive by blast
    then show ?thesis
      unfolding SignatureHashOld_def Let_def code SignatureHashOld_inputs [OF k] cut
        fHashNone_def [symmetric] fHashSingle_def [symmetric] outs_def
      by cases (use k' in \<open>simp_all only: if_True if_False simp_thms\<close>)
  qed
  have "WriteCompactSize (of_nat (if fHashNone t then 0 else if fHashSingle t then k + 1 else length (vout tx)))
      @ concat (map (SerializeOutput tx k t) [0..<(if fHashNone t then 0 else if fHashSingle t then k + 1 else length (vout tx))]) =
    Serialize_vector Serialize_CTxOut outs"
  proof -
    consider "fHashNone t" | "fHashSingle t" "\<not> fHashNone t" | "\<not> fHashSingle t" "\<not> fHashNone t" by blast
    then show ?thesis
    proof cases
      case 2
      have "map (SerializeOutput tx k t) [0..<k + 1] =
        map (\<lambda>i. Serialize_CTxOut (if i < k then CTxOut_SetNull else vout tx ! i)) [0..<k + 1]"
        using 2 by (auto simp: SerializeOutput_def)
      with 2 show ?thesis by (simp only: outs_def Serialize_vector_map_upt if_True if_False)
    next
      case 3
      have "SerializeOutput tx k t = (\<lambda>i. Serialize_CTxOut (vout tx ! i))"
        using 3 by (intro ext) (simp add: SerializeOutput_def)
      with 3 show ?thesis by (simp only: outs_def Serialize_vector_upt [of _ "vout tx"] if_False)
    qed (simp add: outs_def Serialize_vector_def)
  qed
  then have new: "SignatureSerializer_Serialize tx code k t = SerializeTransaction False (tx\<lparr>vin := ?ins, vout := outs\<rparr>)"
    using serialize_inputs [OF p k, of t]
    by (simp add: SignatureSerializer_Serialize_def SerializeTransaction_def Let_def)
  show ?thesis
  proof (cases "fHashSingle t \<and> k \<ge> length (vout tx)")
    case True
    then have "SignatureHashOld code tx k t = uint256_one"
      using k fHash_exclusive [of t] by (simp add: SignatureHashOld_def Let_def fHashSingle_def fHashNone_def)
    then show ?thesis using True k by (simp add: SignatureHash_def)
  next
    case False
    then show ?thesis using k old [OF False] new by (auto simp: SignatureHash_def)
  qed
qed

section \<open>Caching and totality\<close>

lemma SignatureHash_cache:
  "SignatureHash code tx k t amount sv (Some (PrecomputedTransactionData tx)) = SignatureHash code tx k t amount sv None"
  by (simp add: SignatureHash_def SignatureHash_witness_v0_def PrecomputedTransactionData_def Let_def)

lemma SignatureHash_defined: "k < length (vin tx) \<Longrightarrow> SignatureHash code tx k t amount sv cache \<noteq> None"
  by (simp add: SignatureHash_def)

lemma TransactionSignatureChecker_total:
  "k < length (vin tx) \<Longrightarrow> total_checker (TransactionSignatureChecker Verify tx k amount txdata)"
  using SignatureHash_defined
  by (auto simp: total_checker_def TransactionSignatureChecker_def TransactionSignatureChecker_CheckSig_def Let_def
    split: option.splits if_splits)

section \<open>What a hash type leaves open\<close>

lemma map_eq_nth: "map f xs = map f ys \<Longrightarrow> i < length xs \<Longrightarrow> f (xs ! i) = f (ys ! i)"
  by (metis length_map nth_map)

lemma agree_SerializeInput:
  assumes "sighash_agree t k tx tx'" "\<not> fAnyoneCanPay t \<Longrightarrow> i < length (vin tx)"
  shows "SerializeInput tx code k t i = SerializeInput tx' code k t i"
proof (cases "fAnyoneCanPay t \<or> i = k")
  case True
  then show ?thesis using assms by (auto simp: SerializeInput_def sighash_agree_def Let_def)
next
  case False
  then have "prevout (vin tx ! i) = prevout (vin tx' ! i)"
    "\<not> fHashSingle t \<Longrightarrow> \<not> fHashNone t \<Longrightarrow> nSequence (vin tx ! i) = nSequence (vin tx' ! i)"
    using assms by (auto simp: sighash_agree_def intro: map_eq_nth)
  then show ?thesis using False by (auto simp: SerializeInput_def Let_def)
qed

lemma agree_serializer:
  assumes a: "sighash_agree t k tx tx'" and s: "fHashSingle t \<longrightarrow> k < length (vout tx)"
  shows "SignatureSerializer_Serialize tx code k t = SignatureSerializer_Serialize tx' code k t"
proof -
  have len: "\<not> fAnyoneCanPay t \<Longrightarrow> length (vin tx) = length (vin tx')"
    using a by (auto simp: sighash_agree_def dest: map_eq_imp_length_eq)
  have n1: "(if fAnyoneCanPay t then 1 else length (vin tx)) = (if fAnyoneCanPay t then 1 else length (vin tx'))"
    using len by simp
  have n2: "map (SerializeInput tx code k t) [0..<(if fAnyoneCanPay t then 1 else length (vin tx'))] =
    map (SerializeInput tx' code k t) [0..<(if fAnyoneCanPay t then 1 else length (vin tx'))]"
    using len by (auto intro!: agree_SerializeInput [OF a])
  let ?n = "\<lambda>tx. if fHashNone t then 0 else if fHashSingle t then k + 1 else length (vout tx)"
  have o1: "?n tx = ?n tx'" using a by (auto simp: sighash_agree_def)
  have o2: "map (SerializeOutput tx k t) [0..<?n tx'] = map (SerializeOutput tx' k t) [0..<?n tx']"
    using a s by (auto simp: SerializeOutput_def sighash_agree_def)
  have f: "nVersion tx = nVersion tx'" "nLockTime tx = nLockTime tx'" using a by (simp_all add: sighash_agree_def)
  show ?thesis unfolding SignatureSerializer_Serialize_def Let_def n1 n2 o1 o2 f ..
qed

lemma map_comp_eq: "map g xs = map g ys \<Longrightarrow> map (\<lambda>i. f (g i)) xs = map (\<lambda>i. f (g i)) ys"
proof -
  assume "map g xs = map g ys"
  then have "map f (map g xs) = map f (map g ys)" by (rule arg_cong)
  then show ?thesis by (simp add: comp_def)
qed

lemma agree_SignatureHash:
  assumes a: "sighash_agree t k tx tx'"
  shows "SignatureHash code tx k t amount sv None = SignatureHash code tx' k t amount sv None"
proof -
  have k: "k < length (vin tx)" "k < length (vin tx')" using a by (simp_all add: sighash_agree_def)
  have p: "\<not> fAnyoneCanPay t \<Longrightarrow> GetPrevoutHash tx = GetPrevoutHash tx'"
    using a by (simp add: sighash_agree_def GetPrevoutHash_def map_comp_eq [of prevout "vin tx" "vin tx'"])
  have q: "\<not> fAnyoneCanPay t \<Longrightarrow> \<not> fHashSingle t \<Longrightarrow> \<not> fHashNone t \<Longrightarrow> GetSequenceHash tx = GetSequenceHash tx'"
    using a by (simp add: sighash_agree_def GetSequenceHash_def map_comp_eq [of nSequence "vin tx" "vin tx'"])
  have oh: "\<not> fHashSingle t \<Longrightarrow> \<not> fHashNone t \<Longrightarrow> GetOutputsHash tx = GetOutputsHash tx'"
    using a by (simp add: sighash_agree_def GetOutputsHash_def)
  have w: "SignatureHash_witness_v0 code tx k t amount None = SignatureHash_witness_v0 code tx' k t amount None"
  proof (cases "fHashSingle t")
    case True
    then show ?thesis using a p by (auto simp: SignatureHash_witness_v0_def sighash_agree_def Let_def)
  next
    case False
    then show ?thesis using a p q oh by (simp add: SignatureHash_witness_v0_def sighash_agree_def Let_def)
  qed
  show ?thesis
  proof (cases "fHashSingle t \<and> k \<ge> length (vout tx)")
    case True
    then have "k \<ge> length (vout tx')" using a by (auto simp: sighash_agree_def)
    then show ?thesis using True k w by (simp add: SignatureHash_def)
  next
    case False
    then have "\<not> (fHashSingle t \<and> k \<ge> length (vout tx'))" using a by (auto simp: sighash_agree_def)
    moreover have "SignatureSerializer_Serialize tx code k t = SignatureSerializer_Serialize tx' code k t"
      using False by (intro agree_serializer [OF a]) auto
    ultimately show ?thesis using False k w by (auto simp: SignatureHash_def)
  qed
qed

section \<open>Properties\<close>

text \<open>
  C9: The optimised signature hash is the original one.  For scripts that parse, the serializer that
  applies the hash type on the fly hashes exactly the bytes that the reference algorithm gets by
  copying and editing the transaction, for every hash type, the out-of-range \<^verbatim>\<open>SIGHASH_SINGLE\<close>
  included.
\<close>
theorem SignatureHash_matches_reference:
  assumes "parses scriptCode" "nIn < length (vin txTo)"
  shows "SignatureHash scriptCode txTo nIn nHashType amount SIGVERSION_BASE cache =
    Some (SignatureHashOld scriptCode txTo nIn nHashType)"
  using SignatureHash_eq_Old [OF assms] .

theorem SignatureHash_matches_reference_witness:
  "\<exists>tx. length (vin tx) = 2 \<and>
     SignatureHash [0x51, 0xab, 0xac] tx 1 0x83 0 SIGVERSION_BASE None = Some (SignatureHashOld [0x51, 0xab, 0xac] tx 1 0x83)"
proof -
  let ?in = "\<lparr>prevout = COutPoint_SetNull, scriptSig = [1], nSequence = 7, scriptWitness = []\<rparr>"
  let ?tx = "\<lparr>vin = [?in, ?in], vout = [CTxOut_SetNull], nVersion = 1, nLockTime = 0\<rparr>"
  have "parses [0x51, 0xab, 0xac]" by code_simp
  moreover have "1 < length (vin ?tx)" by simp
  ultimately have "SignatureHash [0x51, 0xab, 0xac] ?tx 1 0x83 0 SIGVERSION_BASE None = Some (SignatureHashOld [0x51, 0xab, 0xac] ?tx 1 0x83)"
    by (rule SignatureHash_matches_reference)
  moreover have "length (vin ?tx) = 2" by simp
  ultimately show ?thesis by (intro exI conjI)
qed

text \<open>
  C23: A signature covers only what its hash type says.  Two transactions that agree on the parts the
  hash type selects (with \<^verbatim>\<open>SIGHASH_ANYONECANPAY\<close> no other input, with \<^verbatim>\<open>SIGHASH_NONE\<close> no output and no
  other sequence number, with \<^verbatim>\<open>SIGHASH_SINGLE\<close> only the output of the same index) have the same
  signature hash, for legacy and for witness scripts.
\<close>
theorem SignatureHash_covers_only:
  assumes "sighash_agree nHashType nIn txTo txTo'"
  shows "SignatureHash scriptCode txTo nIn nHashType amount sv None = SignatureHash scriptCode txTo' nIn nHashType amount sv None"
  using agree_SignatureHash [OF assms] .

theorem SignatureHash_covers_only_witness:
  "\<exists>tx tx'. length (vin tx) = 1 \<and> length (vin tx') = 2 \<and> vout tx \<noteq> vout tx' \<and>
     SignatureHash [0xac] tx 0 0x82 5 SIGVERSION_WITNESS_V0 None = SignatureHash [0xac] tx' 0 0x82 5 SIGVERSION_WITNESS_V0 None"
proof -
  let ?in = "\<lparr>prevout = COutPoint_SetNull, scriptSig = [1], nSequence = 7, scriptWitness = []\<rparr>"
  let ?tx = "\<lparr>vin = [?in], vout = [], nVersion = 1, nLockTime = 0\<rparr>"
  let ?tx' = "\<lparr>vin = [?in, ?in], vout = [CTxOut_SetNull], nVersion = 1, nLockTime = 0\<rparr>"
  have "sighash_agree 0x82 0 ?tx ?tx'"
    by (simp add: sighash_agree_def fAnyoneCanPay_def fHashNone_def fHashSingle_def)
  then have "SignatureHash [0xac] ?tx 0 0x82 5 SIGVERSION_WITNESS_V0 None = SignatureHash [0xac] ?tx' 0 0x82 5 SIGVERSION_WITNESS_V0 None"
    by (rule SignatureHash_covers_only)
  moreover have "length (vin ?tx) = 1" "length (vin ?tx') = 2" "vout ?tx \<noteq> vout ?tx'" by simp_all
  ultimately show ?thesis by (intro exI conjI)
qed

text \<open>
  The hashes that \<^verbatim>\<open>PrecomputedTransactionData\<close> caches never change a signature hash: with the data
  computed from the same transaction the result is that without a cache.
\<close>
theorem SignatureHash_cache_transparent:
  "SignatureHash scriptCode txTo nIn nHashType amount sv (Some (PrecomputedTransactionData txTo)) =
   SignatureHash scriptCode txTo nIn nHashType amount sv None"
  by (rule SignatureHash_cache)



end
