(* ===== verification/Coins.thy ===== *)
theory Coins
  imports Transaction Script "HOL-Library.AList"
begin

text \<open>
  The set of unspent transaction outputs (\<^verbatim>\<open>src/src/coins.h\<close>, \<^verbatim>\<open>src/src/coins.cpp\<close>) and its database
  (\<^verbatim>\<open>src/src/txdb.cpp\<close>): coins, cache entries with their \<^verbatim>\<open>DIRTY\<close> and \<^verbatim>\<open>FRESH\<close> flags, stacks of
  \<^verbatim>\<open>CCoinsViewCache\<close> over a database, and the batch writes that carry changes down the stack.  The lemmas
  show that a stack of caches, whatever it has cached, behaves as one map from outpoints to unspent coins.

  An \<^verbatim>\<open>unordered_map\<close> is an association list in the order in which the container iterates, with distinct
  keys; a reference into it is the entry.  Methods declared \<^verbatim>\<open>const\<close> fill the cache all the same, so they
  return the view.  \<^verbatim>\<open>std::logic_error\<close> and a failing \<^verbatim>\<open>assert\<close> are the two errors.
\<close>

unbundle bit_operations_syntax

section \<open>Coins\<close>

record Coin =
  coin_out :: CTxOut
  fCoinBase :: bool
  coin_nHeight :: "31 word"

definition Coin_new :: "CTxOut \<Rightarrow> int \<Rightarrow> bool \<Rightarrow> Coin" where
  "Coin_new outIn nHeightIn fCoinBaseIn =
     \<lparr>coin_out = outIn, fCoinBase = fCoinBaseIn, coin_nHeight = word_of_int nHeightIn\<rparr>"

text \<open>The empty constructor, \<^verbatim>\<open>Clear\<close> and \<^verbatim>\<open>coinEmpty\<close> all give this coin.\<close>

definition Coin_Clear :: Coin where
  "Coin_Clear = \<lparr>coin_out = CTxOut_SetNull, fCoinBase = False, coin_nHeight = 0\<rparr>"

definition IsSpent :: "Coin \<Rightarrow> bool" where
  "IsSpent c \<longleftrightarrow> CTxOut_IsNull (coin_out c)"

definition MallocUsage :: "u64 \<Rightarrow> u64" where
  "MallocUsage alloc = (if alloc = 0 then 0 else push_bit 4 (drop_bit 4 (alloc + 31)))"

text \<open>
  A \<^verbatim>\<open>prevector\<close> of up to 28 bytes is stored in place; a longer one, as the copies and resizes of this code
  leave it, owns an allocation of its own size.
\<close>

definition Coin_DynamicMemoryUsage :: "Coin \<Rightarrow> u64" where
  "Coin_DynamicMemoryUsage c =
     (let n = length (scriptPubKey (coin_out c)) in MallocUsage (if n \<le> 28 then 0 else of_nat n))"

section \<open>Cache entries and views\<close>

abbreviation (input) DIRTY :: byte where "DIRTY \<equiv> 1"
abbreviation (input) FRESH :: byte where "FRESH \<equiv> 2"

record CCoinsCacheEntry =
  entry_coin :: Coin
  entry_flags :: byte

type_synonym CCoinsMap = "(COutPoint \<times> CCoinsCacheEntry) list"

definition is_dirty :: "CCoinsCacheEntry \<Rightarrow> bool" where
  "is_dirty e \<longleftrightarrow> entry_flags e AND DIRTY \<noteq> 0"

definition is_fresh :: "CCoinsCacheEntry \<Rightarrow> bool" where
  "is_fresh e \<longleftrightarrow> entry_flags e AND FRESH \<noteq> 0"

text \<open>
  The chainstate database is the map from keys to values that LevelDB keeps; a \<^verbatim>\<open>CDBBatch\<close> is the list of
  its writes and erasures, applied in one step by \<^verbatim>\<open>WriteBatch\<close>.
\<close>

record CoinsDB =
  db_coins :: "COutPoint \<Rightarrow> Coin option"
  db_best_block :: "bytes option"
  db_head_blocks :: "bytes list option"

datatype db_op =
    Write_coin COutPoint Coin | Erase_coin COutPoint
  | Write_best_block bytes | Erase_best_block
  | Write_head_blocks "bytes list" | Erase_head_blocks

fun db_apply :: "db_op \<Rightarrow> CoinsDB \<Rightarrow> CoinsDB" where
  "db_apply (Write_coin k coin) db = db\<lparr>db_coins := (db_coins db)(k \<mapsto> coin)\<rparr>"
| "db_apply (Erase_coin k) db = db\<lparr>db_coins := (db_coins db)(k := None)\<rparr>"
| "db_apply (Write_best_block h) db = db\<lparr>db_best_block := Some h\<rparr>"
| "db_apply Erase_best_block db = db\<lparr>db_best_block := None\<rparr>"
| "db_apply (Write_head_blocks heads) db = db\<lparr>db_head_blocks := Some heads\<rparr>"
| "db_apply Erase_head_blocks db = db\<lparr>db_head_blocks := None\<rparr>"

definition WriteBatch :: "db_op list \<Rightarrow> CoinsDB \<Rightarrow> CoinsDB" where
  "WriteBatch batch db = fold db_apply batch db"

record CacheData =
  cache_hashBlock :: bytes
  cacheCoins :: CCoinsMap
  cachedCoinsUsage :: u64

datatype CCoinsView =
    CoinsViewNull
  | CoinsViewDB CoinsDB
  | CoinsViewCache CacheData CCoinsView

type_synonym CCoinsViewCache = "CacheData \<times> CCoinsView"

datatype coins_error = AssertFailed | LogicError

definition CCoinsViewCache_new :: "CCoinsView \<Rightarrow> CCoinsViewCache" where
  "CCoinsViewCache_new baseIn =
     (\<lparr>cache_hashBlock = null_uint256, cacheCoins = [], cachedCoinsUsage = 0\<rparr>, baseIn)"

section \<open>Reading\<close>

function (sequential) GetCoin :: "CCoinsView \<Rightarrow> COutPoint \<Rightarrow> Coin \<Rightarrow> bool \<times> Coin \<times> CCoinsView"
  and FetchCoin :: "CCoinsViewCache \<Rightarrow> COutPoint \<Rightarrow> CCoinsCacheEntry option \<times> CCoinsViewCache" where
  "GetCoin CoinsViewNull outpoint coin = (False, coin, CoinsViewNull)"
| "GetCoin (CoinsViewDB db) outpoint coin =
     (case db_coins db outpoint of
        None \<Rightarrow> (False, coin, CoinsViewDB db)
      | Some stored \<Rightarrow> (True, stored, CoinsViewDB db))"
| "GetCoin (CoinsViewCache c base) outpoint coin =
     (case FetchCoin (c, base) outpoint of
        (Some it, c', base') \<Rightarrow> (\<not> IsSpent (entry_coin it), entry_coin it, CoinsViewCache c' base')
      | (None, c', base') \<Rightarrow> (False, coin, CoinsViewCache c' base'))"
| "FetchCoin (c, base) outpoint =
     (case map_of (cacheCoins c) outpoint of
        Some it \<Rightarrow> (Some it, c, base)
      | None \<Rightarrow>
          (case GetCoin base outpoint Coin_Clear of
             (False, tmp, base') \<Rightarrow> (None, c, base')
           | (True, tmp, base') \<Rightarrow>
               let ret = \<lparr>entry_coin = tmp, entry_flags = (if IsSpent tmp then FRESH else 0)\<rparr>
               in (Some ret,
                   c\<lparr>cacheCoins := AList.update outpoint ret (cacheCoins c),
                     cachedCoinsUsage := cachedCoinsUsage c + Coin_DynamicMemoryUsage tmp\<rparr>, base')))"
  by pat_completeness auto
termination
  by (relation "measure (case_sum (\<lambda>(v, _). 2 * size v) (\<lambda>((_, b), _). 2 * size b + 1))") auto

definition AccessCoin :: "CCoinsViewCache \<Rightarrow> COutPoint \<Rightarrow> Coin \<times> CCoinsViewCache" where
  "AccessCoin view outpoint =
     (case FetchCoin view outpoint of
        (None, view') \<Rightarrow> (Coin_Clear, view')
      | (Some it, view') \<Rightarrow> (entry_coin it, view'))"

definition HaveCoin :: "CCoinsViewCache \<Rightarrow> COutPoint \<Rightarrow> bool \<times> CCoinsViewCache" where
  "HaveCoin view outpoint =
     (case FetchCoin view outpoint of
        (None, view') \<Rightarrow> (False, view')
      | (Some it, view') \<Rightarrow> (\<not> IsSpent (entry_coin it), view'))"

definition HaveCoinInCache :: "CCoinsViewCache \<Rightarrow> COutPoint \<Rightarrow> bool" where
  "HaveCoinInCache view outpoint =
     (case map_of (cacheCoins (fst view)) outpoint of
        None \<Rightarrow> False
      | Some it \<Rightarrow> \<not> IsSpent (entry_coin it))"

fun GetBestBlock :: "CCoinsView \<Rightarrow> bytes \<times> CCoinsView" where
  "GetBestBlock CoinsViewNull = (null_uint256, CoinsViewNull)"
| "GetBestBlock (CoinsViewDB db) =
     ((case db_best_block db of None \<Rightarrow> null_uint256 | Some h \<Rightarrow> h), CoinsViewDB db)"
| "GetBestBlock (CoinsViewCache c base) =
     (if IsNull_uint256 (cache_hashBlock c) then
        (case GetBestBlock base of
           (h, base') \<Rightarrow> (h, CoinsViewCache (c\<lparr>cache_hashBlock := h\<rparr>) base'))
      else (cache_hashBlock c, CoinsViewCache c base))"

fun GetHeadBlocks :: "CCoinsView \<Rightarrow> bytes list" where
  "GetHeadBlocks CoinsViewNull = []"
| "GetHeadBlocks (CoinsViewDB db) = (case db_head_blocks db of None \<Rightarrow> [] | Some heads \<Rightarrow> heads)"
| "GetHeadBlocks (CoinsViewCache c base) = GetHeadBlocks base"

fun HaveInputs_loop :: "CCoinsViewCache \<Rightarrow> CTxIn list \<Rightarrow> bool \<times> CCoinsViewCache" where
  "HaveInputs_loop view [] = (True, view)"
| "HaveInputs_loop view (txin # txins) =
     (case HaveCoin view (prevout txin) of
        (have_coin, view') \<Rightarrow> if \<not> have_coin then (False, view') else HaveInputs_loop view' txins)"

definition HaveInputs :: "CCoinsViewCache \<Rightarrow> CTransaction \<Rightarrow> bool \<times> CCoinsViewCache" where
  "HaveInputs view tx = (if \<not> IsCoinBase tx then HaveInputs_loop view (vin tx) else (True, view))"

fun GetValueIn_loop :: "int \<Rightarrow> CCoinsViewCache \<Rightarrow> CTxIn list \<Rightarrow> int \<times> CCoinsViewCache" where
  "GetValueIn_loop nResult view [] = (nResult, view)"
| "GetValueIn_loop nResult view (txin # txins) =
     (case AccessCoin view (prevout txin) of
        (coin, view') \<Rightarrow> GetValueIn_loop (wrap64 (nResult + nValue (coin_out coin))) view' txins)"

definition GetValueIn :: "CCoinsViewCache \<Rightarrow> CTransaction \<Rightarrow> int \<times> CCoinsViewCache" where
  "GetValueIn view tx = (if IsCoinBase tx then (0, view) else GetValueIn_loop 0 view (vin tx))"

text \<open>
  4,000,000 weight units over the four times nine that an empty output weighs: the loop of
  \<^verbatim>\<open>AccessByTxid\<close> looks at 111,111 outpoints at most.
\<close>

abbreviation (input) MAX_OUTPUTS_PER_BLOCK :: nat where "MAX_OUTPUTS_PER_BLOCK \<equiv> 4000000 div (4 * 9)"

function AccessByTxid_loop :: "CCoinsViewCache \<Rightarrow> bytes \<Rightarrow> nat \<Rightarrow> Coin \<times> CCoinsViewCache" where
  "AccessByTxid_loop view txid n =
     (if n < MAX_OUTPUTS_PER_BLOCK then
        (case AccessCoin view (COutPoint txid (of_nat n)) of
           (alternate, view') \<Rightarrow>
             if \<not> IsSpent alternate then (alternate, view') else AccessByTxid_loop view' txid (Suc n))
      else (Coin_Clear, view))"
  by auto
termination by (relation "measure (\<lambda>(_, _, n). MAX_OUTPUTS_PER_BLOCK - n)") auto

definition AccessByTxid :: "CCoinsViewCache \<Rightarrow> bytes \<Rightarrow> Coin \<times> CCoinsViewCache" where
  "AccessByTxid view txid = AccessByTxid_loop view txid 0"

declare AccessByTxid_loop.simps [simp del]

section \<open>Writing\<close>

definition SetBestBlock :: "CCoinsViewCache \<Rightarrow> bytes \<Rightarrow> CCoinsViewCache" where
  "SetBestBlock view hashBlockIn = ((fst view)\<lparr>cache_hashBlock := hashBlockIn\<rparr>, snd view)"

definition AddCoin :: "CCoinsViewCache \<Rightarrow> COutPoint \<Rightarrow> Coin \<Rightarrow> bool \<Rightarrow> coins_error + CCoinsViewCache" where
  "AddCoin view outpoint coin possible_overwrite =
     (case view of (c, base) \<Rightarrow>
        if IsSpent coin then Inl AssertFailed
        else if IsUnspendable (scriptPubKey (coin_out coin)) then Inr (c, base)
        else
          let inserted = (map_of (cacheCoins c) outpoint = None);
              it = (case map_of (cacheCoins c) outpoint of
                      None \<Rightarrow> \<lparr>entry_coin = Coin_Clear, entry_flags = 0\<rparr>
                    | Some it \<Rightarrow> it);
              usage = (if \<not> inserted then cachedCoinsUsage c - Coin_DynamicMemoryUsage (entry_coin it)
                       else cachedCoinsUsage c)
          in if \<not> possible_overwrite \<and> \<not> IsSpent (entry_coin it) then Inl LogicError
             else
               let fresh = (\<not> possible_overwrite \<and> \<not> is_dirty it);
                   it' = \<lparr>entry_coin = coin,
                          entry_flags = entry_flags it OR (DIRTY OR (if fresh then FRESH else 0))\<rparr>
               in Inr (c\<lparr>cacheCoins := AList.update outpoint it' (cacheCoins c),
                         cachedCoinsUsage := usage + Coin_DynamicMemoryUsage coin\<rparr>, base))"

text \<open>\<^const>\<open>None\<close> is the result \<^verbatim>\<open>false\<close>; \<^verbatim>\<open>true\<close> comes with the coin moved out.\<close>

definition SpendCoin :: "CCoinsViewCache \<Rightarrow> COutPoint \<Rightarrow> Coin option \<times> CCoinsViewCache" where
  "SpendCoin view outpoint =
     (case FetchCoin view outpoint of
        (None, view') \<Rightarrow> (None, view')
      | (Some it, c, base) \<Rightarrow>
          let usage = cachedCoinsUsage c - Coin_DynamicMemoryUsage (entry_coin it) in
          (Some (entry_coin it),
           if is_fresh it then
             (c\<lparr>cacheCoins := AList.delete outpoint (cacheCoins c), cachedCoinsUsage := usage\<rparr>, base)
           else
             (c\<lparr>cacheCoins :=
                  AList.update outpoint \<lparr>entry_coin = Coin_Clear, entry_flags = entry_flags it OR DIRTY\<rparr> (cacheCoins c),
                cachedCoinsUsage := usage\<rparr>, base)))"

fun AddCoins_loop :: "bool \<Rightarrow> bytes \<Rightarrow> bool \<Rightarrow> int \<Rightarrow> CCoinsViewCache \<Rightarrow> nat \<Rightarrow> CTxOut list
    \<Rightarrow> coins_error + CCoinsViewCache" where
  "AddCoins_loop check txid fCoinbase nHeight view i [] = Inr view"
| "AddCoins_loop check txid fCoinbase nHeight view i (txout # txouts) =
     (case (if check then HaveCoin view (COutPoint txid (of_nat i)) else (fCoinbase, view)) of
        (overwrite, view') \<Rightarrow>
          (case AddCoin view' (COutPoint txid (of_nat i)) (Coin_new txout nHeight fCoinbase) overwrite of
             Inl e \<Rightarrow> Inl e
           | Inr view'' \<Rightarrow> AddCoins_loop check txid fCoinbase nHeight view'' (Suc i) txouts))"

definition AddCoins :: "CCoinsViewCache \<Rightarrow> CTransaction \<Rightarrow> int \<Rightarrow> bool \<Rightarrow> coins_error + CCoinsViewCache" where
  "AddCoins cache tx nHeight check =
     AddCoins_loop check (ComputeHash tx) (IsCoinBase tx) nHeight cache 0 (vout tx)"

definition Uncache :: "CCoinsViewCache \<Rightarrow> COutPoint \<Rightarrow> CCoinsViewCache" where
  "Uncache view outpoint =
     (case view of (c, base) \<Rightarrow>
        (case map_of (cacheCoins c) outpoint of
           None \<Rightarrow> (c, base)
         | Some it \<Rightarrow>
             if entry_flags it = 0 then
               (c\<lparr>cacheCoins := AList.delete outpoint (cacheCoins c),
                  cachedCoinsUsage := cachedCoinsUsage c - Coin_DynamicMemoryUsage (entry_coin it)\<rparr>, base)
             else (c, base)))"

definition GetCacheSize :: "CCoinsViewCache \<Rightarrow> nat" where
  "GetCacheSize view = length (cacheCoins (fst view))"

text \<open>
  One turn of the loop of \<^verbatim>\<open>CCoinsViewCache::BatchWrite\<close>, for the entry \<open>e\<close> the child has at \<open>k\<close>.
\<close>

definition BatchWrite_entry :: "CacheData \<Rightarrow> COutPoint \<Rightarrow> CCoinsCacheEntry \<Rightarrow> coins_error + CacheData" where
  "BatchWrite_entry c k e =
     (if \<not> is_dirty e then Inr c
      else
        (case map_of (cacheCoins c) k of
           None \<Rightarrow>
             if \<not> (is_fresh e \<and> IsSpent (entry_coin e)) then
               Inr (c\<lparr>cacheCoins :=
                        AList.update k
                          \<lparr>entry_coin = entry_coin e, entry_flags = (if is_fresh e then DIRTY OR FRESH else DIRTY)\<rparr>
                          (cacheCoins c),
                      cachedCoinsUsage := cachedCoinsUsage c + Coin_DynamicMemoryUsage (entry_coin e)\<rparr>)
             else Inr c
         | Some itUs \<Rightarrow>
             if is_fresh e \<and> \<not> IsSpent (entry_coin itUs) then Inl LogicError
             else if is_fresh itUs \<and> IsSpent (entry_coin e) then
               Inr (c\<lparr>cacheCoins := AList.delete k (cacheCoins c),
                      cachedCoinsUsage := cachedCoinsUsage c - Coin_DynamicMemoryUsage (entry_coin itUs)\<rparr>)
             else
               Inr (c\<lparr>cacheCoins :=
                        AList.update k \<lparr>entry_coin = entry_coin e, entry_flags = entry_flags itUs OR DIRTY\<rparr> (cacheCoins c),
                      cachedCoinsUsage :=
                        cachedCoinsUsage c - Coin_DynamicMemoryUsage (entry_coin itUs)
                        + Coin_DynamicMemoryUsage (entry_coin e)\<rparr>)))"

fun BatchWrite_loop :: "CacheData \<Rightarrow> CCoinsMap \<Rightarrow> coins_error + CacheData" where
  "BatchWrite_loop c [] = Inr c"
| "BatchWrite_loop c ((k, e) # mapCoins) =
     (case BatchWrite_entry c k e of Inl err \<Rightarrow> Inl err | Inr c' \<Rightarrow> BatchWrite_loop c' mapCoins)"

text \<open>
  The loop of \<^verbatim>\<open>CCoinsViewDB::BatchWrite\<close>: \<open>big\<close> tells when the size estimate of a batch exceeds
  \<^verbatim>\<open>-dbbatchsize\<close>.  The result is the list of the states the database goes through, one for each
  \<^verbatim>\<open>WriteBatch\<close>; the last one is the state it is left in.
\<close>

definition batch_entry :: "COutPoint \<Rightarrow> CCoinsCacheEntry \<Rightarrow> db_op list" where
  "batch_entry k e =
     (if is_dirty e then (if IsSpent (entry_coin e) then [Erase_coin k] else [Write_coin k (entry_coin e)]) else [])"

fun BatchWrite_DB_loop :: "(db_op list \<Rightarrow> bool) \<Rightarrow> bytes \<Rightarrow> db_op list \<Rightarrow> CoinsDB \<Rightarrow> CCoinsMap \<Rightarrow> CoinsDB list" where
  "BatchWrite_DB_loop big h batch db [] =
     [WriteBatch (batch @ [Erase_head_blocks, Write_best_block h]) db]"
| "BatchWrite_DB_loop big h batch db ((k, e) # mapCoins) =
     (let batch' = batch @ batch_entry k e in
      if big batch' then
        (let db' = WriteBatch batch' db in db' # BatchWrite_DB_loop big h [] db' mapCoins)
      else BatchWrite_DB_loop big h batch' db mapCoins)"

definition BatchWrite_DB :: "(db_op list \<Rightarrow> bool) \<Rightarrow> CoinsDB \<Rightarrow> CCoinsMap \<Rightarrow> bytes \<Rightarrow> coins_error + CoinsDB list" where
  "BatchWrite_DB big db mapCoins h =
     (if IsNull_uint256 h then Inl AssertFailed
      else
        let old_tip = fst (GetBestBlock (CoinsViewDB db));
            old_heads = GetHeadBlocks (CoinsViewDB db);
            replaying = (IsNull_uint256 old_tip \<and> length old_heads = 2)
        in if replaying \<and> old_heads ! 0 \<noteq> h then Inl AssertFailed
           else
             let tip = (if replaying then old_heads ! 1 else old_tip)
             in Inr (BatchWrite_DB_loop big h [Erase_best_block, Write_head_blocks [h, tip]] db mapCoins))"

fun BatchWrite :: "(db_op list \<Rightarrow> bool) \<Rightarrow> CCoinsView \<Rightarrow> CCoinsMap \<Rightarrow> bytes \<Rightarrow> coins_error + bool \<times> CCoinsView" where
  "BatchWrite big CoinsViewNull mapCoins h = Inr (False, CoinsViewNull)"
| "BatchWrite big (CoinsViewDB db) mapCoins h =
     (case BatchWrite_DB big db mapCoins h of
        Inl e \<Rightarrow> Inl e
      | Inr dbs \<Rightarrow> Inr (True, CoinsViewDB (last dbs)))"
| "BatchWrite big (CoinsViewCache c base) mapCoins h =
     (case BatchWrite_loop c mapCoins of
        Inl e \<Rightarrow> Inl e
      | Inr c' \<Rightarrow> Inr (True, CoinsViewCache (c'\<lparr>cache_hashBlock := h\<rparr>) base))"

definition Flush :: "(db_op list \<Rightarrow> bool) \<Rightarrow> CCoinsViewCache \<Rightarrow> coins_error + bool \<times> CCoinsViewCache" where
  "Flush big view =
     (case view of (c, base) \<Rightarrow>
        (case BatchWrite big base (cacheCoins c) (cache_hashBlock c) of
           Inl e \<Rightarrow> Inl e
         | Inr (fOk, base') \<Rightarrow> Inr (fOk, c\<lparr>cacheCoins := [], cachedCoinsUsage := 0\<rparr>, base')))"

section \<open>What a view stands for\<close>

definition live :: "Coin \<Rightarrow> Coin option" where
  "live c = (if IsSpent c then None else Some c)"

definition overlay :: "(COutPoint \<Rightarrow> Coin option) \<Rightarrow> CCoinsMap \<Rightarrow> COutPoint \<Rightarrow> Coin option" where
  "overlay parent m = (\<lambda>k. case map_of m k of None \<Rightarrow> parent k | Some e \<Rightarrow> live (entry_coin e))"

primrec utxo :: "CCoinsView \<Rightarrow> COutPoint \<Rightarrow> Coin option" where
  "utxo CoinsViewNull = (\<lambda>k. None)"
| "utxo (CoinsViewDB db) = (\<lambda>k. case db_coins db k of None \<Rightarrow> None | Some coin \<Rightarrow> live coin)"
| "utxo (CoinsViewCache c base) = overlay (utxo base) (cacheCoins c)"

text \<open>What the views of a stack stand for, from the top one down.\<close>

primrec layers :: "CCoinsView \<Rightarrow> (COutPoint \<Rightarrow> Coin option) list" where
  "layers CoinsViewNull = [utxo CoinsViewNull]"
| "layers (CoinsViewDB db) = [utxo (CoinsViewDB db)]"
| "layers (CoinsViewCache c base) = utxo (CoinsViewCache c base) # layers base"

text \<open>
  What the flags of an entry promise about the parent view: \<^verbatim>\<open>FRESH\<close> that it has no unspent coin there,
  no \<^verbatim>\<open>DIRTY\<close> that it has the same one.
\<close>

definition entry_ok :: "Coin option \<Rightarrow> CCoinsCacheEntry \<Rightarrow> bool" where
  "entry_ok parent e \<longleftrightarrow>
     (is_fresh e \<longrightarrow> parent = None) \<and> (\<not> is_dirty e \<longrightarrow> live (entry_coin e) = parent)"

definition map_usage :: "CCoinsMap \<Rightarrow> u64" where
  "map_usage m = (\<Sum>(k, e)\<leftarrow>m. Coin_DynamicMemoryUsage (entry_coin e))"

definition map_ok :: "(COutPoint \<Rightarrow> Coin option) \<Rightarrow> CCoinsMap \<Rightarrow> bool" where
  "map_ok parent m \<longleftrightarrow> distinct (map fst m) \<and> (\<forall>(k, e)\<in>set m. entry_ok (parent k) e)"

primrec view_ok :: "CCoinsView \<Rightarrow> bool" where
  "view_ok CoinsViewNull \<longleftrightarrow> True"
| "view_ok (CoinsViewDB db) \<longleftrightarrow> True"
| "view_ok (CoinsViewCache c base) \<longleftrightarrow>
     view_ok base \<and> map_ok (utxo base) (cacheCoins c) \<and> cachedCoinsUsage c = map_usage (cacheCoins c)"

abbreviation cache_utxo :: "CCoinsViewCache \<Rightarrow> COutPoint \<Rightarrow> Coin option" where
  "cache_utxo view \<equiv> utxo (CoinsViewCache (fst view) (snd view))"

abbreviation cache_ok :: "CCoinsViewCache \<Rightarrow> bool" where
  "cache_ok view \<equiv> view_ok (CoinsViewCache (fst view) (snd view))"

named_theorems coin_simps \<open>flags and empty coins\<close>

definition coin_writes :: "CCoinsMap \<Rightarrow> db_op list" where
  "coin_writes m = concat (map (\<lambda>(k, e). batch_entry k e) m)"

definition written :: "(COutPoint \<Rightarrow> Coin option) \<Rightarrow> CCoinsMap \<Rightarrow> COutPoint \<Rightarrow> Coin option" where
  "written stored m =
     (\<lambda>k. case map_of m k of Some e \<Rightarrow> if is_dirty e then live (entry_coin e) else stored k | None \<Rightarrow> stored k)"

definition flushable :: "CCoinsViewCache \<Rightarrow> bool" where
  "flushable view \<longleftrightarrow>
     (case snd view of
        CoinsViewNull \<Rightarrow> False
      | CoinsViewDB db \<Rightarrow>
          \<not> IsNull_uint256 (cache_hashBlock (fst view)) \<and>
          (IsNull_uint256 (fst (GetBestBlock (CoinsViewDB db))) \<and> length (GetHeadBlocks (CoinsViewDB db)) = 2
             \<longrightarrow> GetHeadBlocks (CoinsViewDB db) ! 0 = cache_hashBlock (fst view))
      | CoinsViewCache c b \<Rightarrow> True)"

datatype coins_op =
    Access COutPoint | Have COutPoint | Add COutPoint Coin bool | Spend COutPoint
  | Evict COutPoint | Set_best bytes | Push | Flush_down | Pop

datatype coins_obs = Coin_found "Coin option" | Answer bool | Done

text \<open>
  One operation of a client on the cache at the top of a stack.  \<^const>\<open>Push\<close> creates a cache over the current one, as
  the validation code does for each block; \<^const>\<open>Pop\<close> drops it.  A coin that is already spent counts as none.
\<close>

fun coins_step :: "(db_op list \<Rightarrow> bool) \<Rightarrow> CCoinsViewCache \<Rightarrow> coins_op \<Rightarrow> coins_error + coins_obs \<times> CCoinsViewCache" where
  "coins_step big view (Access k) = (case AccessCoin view k of (coin, view') \<Rightarrow> Inr (Coin_found (live coin), view'))"
| "coins_step big view (Have k) = (case HaveCoin view k of (b, view') \<Rightarrow> Inr (Answer b, view'))"
| "coins_step big view (Add k coin ow) = (case AddCoin view k coin ow of Inl e \<Rightarrow> Inl e | Inr view' \<Rightarrow> Inr (Done, view'))"
| "coins_step big view (Spend k) =
     (case SpendCoin view k of
        (r, view') \<Rightarrow> Inr (Coin_found (case r of None \<Rightarrow> None | Some coin \<Rightarrow> live coin), view'))"
| "coins_step big view (Evict k) = Inr (Done, Uncache view k)"
| "coins_step big view (Set_best h) = Inr (Done, SetBestBlock view h)"
| "coins_step big view Push = Inr (Done, CCoinsViewCache_new (CoinsViewCache (fst view) (snd view)))"
| "coins_step big view Flush_down =
     (case Flush big view of Inl e \<Rightarrow> Inl e | Inr (b, view') \<Rightarrow> Inr (Answer b, view'))"
| "coins_step big view Pop =
     (case snd view of CoinsViewCache c base \<Rightarrow> Inr (Done, (c, base)) | _ \<Rightarrow> Inl AssertFailed)"

fun coins_run :: "(db_op list \<Rightarrow> bool) \<Rightarrow> CCoinsViewCache \<Rightarrow> coins_op list \<Rightarrow> coins_error + coins_obs list \<times> CCoinsViewCache" where
  "coins_run big view [] = Inr ([], view)"
| "coins_run big view (op # ops) =
     (case coins_step big view op of
        Inl e \<Rightarrow> Inl e
      | Inr (obs, view') \<Rightarrow>
          (case coins_run big view' ops of Inl e \<Rightarrow> Inl e | Inr (rest, view'') \<Rightarrow> Inr (obs # rest, view'')))"

text \<open>
  The specification: a stack of maps.  Reading looks at the top map, adding and spending update it, flushing copies
  it over the next one.
\<close>

fun stack_step :: "(COutPoint \<Rightarrow> Coin option) list \<Rightarrow> coins_op \<Rightarrow> coins_obs \<times> (COutPoint \<Rightarrow> Coin option) list" where
  "stack_step s (Access k) = (Coin_found (hd s k), s)"
| "stack_step s (Have k) = (Answer (hd s k \<noteq> None), s)"
| "stack_step s (Add k coin ow) =
     (Done, if IsUnspendable (scriptPubKey (coin_out coin)) then s else (hd s)(k \<mapsto> coin) # tl s)"
| "stack_step s (Spend k) = (Coin_found (hd s k), (hd s)(k := None) # tl s)"
| "stack_step s (Evict k) = (Done, s)"
| "stack_step s (Set_best h) = (Done, s)"
| "stack_step s Push = (Done, hd s # s)"
| "stack_step s Flush_down = (Answer True, hd s # hd s # tl (tl s))"
| "stack_step s Pop = (Done, tl s)"

fun stack_run :: "(COutPoint \<Rightarrow> Coin option) list \<Rightarrow> coins_op list \<Rightarrow> coins_obs list \<times> (COutPoint \<Rightarrow> Coin option) list" where
  "stack_run s [] = ([], s)"
| "stack_run s (op # ops) =
     (case stack_step s op of (obs, s') \<Rightarrow> (case stack_run s' ops of (rest, s'') \<Rightarrow> (obs # rest, s'')))"

text \<open>
  What a client owes: it adds unspent coins only, over an unspent one only if it says so; it flushes to a database
  with a block hash, and to one in transition with the hash it is in transition to; it drops a cache only from over
  another one.
\<close>

fun coins_pre :: "CCoinsViewCache \<Rightarrow> coins_op \<Rightarrow> bool" where
  "coins_pre view (Add k coin ow) \<longleftrightarrow> \<not> IsSpent coin \<and> (ow \<or> cache_utxo view k = None)"
| "coins_pre view Flush_down \<longleftrightarrow> flushable view"
| "coins_pre view Pop \<longleftrightarrow> (case snd view of CoinsViewCache c base \<Rightarrow> True | _ \<Rightarrow> False)"
| "coins_pre view _ \<longleftrightarrow> True"

fun coins_allowed :: "(db_op list \<Rightarrow> bool) \<Rightarrow> CCoinsViewCache \<Rightarrow> coins_op list \<Rightarrow> bool" where
  "coins_allowed big view [] \<longleftrightarrow> True"
| "coins_allowed big view (op # ops) \<longleftrightarrow>
     coins_pre view op \<and>
     (case coins_step big view op of Inl e \<Rightarrow> True | Inr (obs, view') \<Rightarrow> coins_allowed big view' ops)"

abbreviation stack_of :: "CCoinsViewCache \<Rightarrow> (COutPoint \<Rightarrow> Coin option) list" where
  "stack_of view \<equiv> layers (CoinsViewCache (fst view) (snd view))"

definition db_tip :: "CoinsDB \<Rightarrow> bytes" where
  "db_tip db =
     (case db_best_block db of
        Some h \<Rightarrow> if IsNull_uint256 h then (case db_head_blocks db of Some [_, old] \<Rightarrow> old | _ \<Rightarrow> h) else h
      | None \<Rightarrow> (case db_head_blocks db of Some [_, old] \<Rightarrow> old | _ \<Rightarrow> null_uint256))"

definition sample_coin :: Coin where
  "sample_coin = \<lparr>coin_out = \<lparr>nValue = 50, scriptPubKey = [0x51]\<rparr>, fCoinBase = False, coin_nHeight = 9\<rparr>"

definition sample_db :: CoinsDB where
  "sample_db = \<lparr>db_coins = (\<lambda>_. None)(COutPoint [7] 0 \<mapsto> sample_coin), db_best_block = None, db_head_blocks = None\<rparr>"

definition sample_ops :: "coins_op list" where
  "sample_ops =
     [Push, Spend (COutPoint [7] 0), Add (COutPoint [7] 1) sample_coin False, Flush_down, Pop,
      Set_best [5], Flush_down, Have (COutPoint [7] 0)]"

definition sample_map :: CCoinsMap where
  "sample_map =
     [(COutPoint [7] 0, \<lparr>entry_coin = Coin_Clear, entry_flags = DIRTY\<rparr>),
      (COutPoint [7] 1, \<lparr>entry_coin = sample_coin, entry_flags = DIRTY OR FRESH\<rparr>)]"

section \<open>Flags, entries and memory accounting\<close>

lemma flag_simps [coin_simps]:
  "is_dirty \<lparr>entry_coin = x, entry_flags = 0\<rparr> \<longleftrightarrow> False" "is_fresh \<lparr>entry_coin = x, entry_flags = 0\<rparr> \<longleftrightarrow> False"
  "is_dirty \<lparr>entry_coin = x, entry_flags = 1\<rparr> \<longleftrightarrow> True" "is_fresh \<lparr>entry_coin = x, entry_flags = 1\<rparr> \<longleftrightarrow> False"
  "is_dirty \<lparr>entry_coin = x, entry_flags = 2\<rparr> \<longleftrightarrow> False" "is_fresh \<lparr>entry_coin = x, entry_flags = 2\<rparr> \<longleftrightarrow> True"
  "is_dirty \<lparr>entry_coin = x, entry_flags = 3\<rparr> \<longleftrightarrow> True" "is_fresh \<lparr>entry_coin = x, entry_flags = 3\<rparr> \<longleftrightarrow> True"
  by (simp_all add: is_dirty_def is_fresh_def)

lemma flag_or_simps [coin_simps]:
  "is_dirty \<lparr>entry_coin = x, entry_flags = f OR 1\<rparr> \<longleftrightarrow> True"
  "is_fresh \<lparr>entry_coin = x, entry_flags = f OR 1\<rparr> \<longleftrightarrow> is_fresh \<lparr>entry_coin = x, entry_flags = f\<rparr>"
  "is_dirty \<lparr>entry_coin = x, entry_flags = f OR 3\<rparr> \<longleftrightarrow> True"
  "is_fresh \<lparr>entry_coin = x, entry_flags = f OR 3\<rparr> \<longleftrightarrow> True"
  by (simp_all add: is_dirty_def is_fresh_def bit.conj_disj_distrib2 and.assoc or_eq_0_iff)

lemma fresh_coin [coin_simps]:
  "is_fresh \<lparr>entry_coin = x, entry_flags = entry_flags e\<rparr> = is_fresh e"
  "is_dirty \<lparr>entry_coin = x, entry_flags = entry_flags e\<rparr> = is_dirty e"
  by (simp_all add: is_fresh_def is_dirty_def)

lemma empty_coin [coin_simps]: "IsSpent Coin_Clear" "live Coin_Clear = None" "Coin_DynamicMemoryUsage Coin_Clear = 0"
  by (simp_all add: IsSpent_def Coin_Clear_def CTxOut_SetNull_def CTxOut_IsNull_def live_def
      Coin_DynamicMemoryUsage_def MallocUsage_def)

lemma live_simps [simp]: "live c = None \<longleftrightarrow> IsSpent c" "live c = Some d \<longleftrightarrow> \<not> IsSpent c \<and> d = c"
  by (auto simp: live_def)

lemma overlay_lookup [simp]:
  "map_of m k = None \<Longrightarrow> overlay f m k = f k" "map_of m k = Some e \<Longrightarrow> overlay f m k = live (entry_coin e)"
  by (simp_all add: overlay_def)

lemma map_usage_simps [simp]:
  "map_usage [] = 0" "map_usage ((k, e) # m) = Coin_DynamicMemoryUsage (entry_coin e) + map_usage m"
  by (simp_all add: map_usage_def)

lemma map_usage_update:
  "map_usage (AList.update k e m) =
     map_usage m + Coin_DynamicMemoryUsage (entry_coin e)
     - (case map_of m k of None \<Rightarrow> 0 | Some d \<Rightarrow> Coin_DynamicMemoryUsage (entry_coin d))"
  by (induction m) (auto simp: algebra_simps)

lemma delete_absent: "map_of m k = None \<Longrightarrow> AList.delete k m = m"
  by (simp add: map_of_eq_None_iff)

lemma map_usage_delete:
  assumes "distinct (map fst m)"
  shows "map_usage (AList.delete k m) =
     map_usage m - (case map_of m k of None \<Rightarrow> 0 | Some d \<Rightarrow> Coin_DynamicMemoryUsage (entry_coin d))"
  using assms
proof (induction m)
  case (Cons p m)
  obtain l d where p: "p = (l, d)" by force
  show ?case
  proof (cases "l = k")
    case True
    with Cons.prems p have "AList.delete k m = m" by (intro delete_absent) (auto simp: map_of_eq_None_iff)
    with True p show ?thesis by simp
  next
    case False
    with Cons p show ?thesis by simp
  qed
qed simp

lemma map_ok_lookup: "map_ok f m \<Longrightarrow> map_of m k = Some e \<Longrightarrow> entry_ok (f k) e"
  by (auto simp: map_ok_def dest: map_of_SomeD)

lemma map_ok_iff: "map_ok f m \<longleftrightarrow> distinct (map fst m) \<and> (\<forall>k e. map_of m k = Some e \<longrightarrow> entry_ok (f k) e)"
  by (auto simp: map_ok_def dest: map_of_SomeD)

lemma map_ok_update: "map_ok f m \<Longrightarrow> entry_ok (f k) e \<Longrightarrow> map_ok f (AList.update k e m)"
  by (auto simp: map_ok_iff distinct_update update_conv')

lemma map_ok_delete: "map_ok f m \<Longrightarrow> map_ok f (AList.delete k m)"
  by (auto simp: map_ok_iff distinct_delete delete_conv' split: if_splits)

lemma overlay_update: "overlay f (AList.update k e m) = (overlay f m)(k := live (entry_coin e))"
  by (auto simp: overlay_def update_conv')

lemma overlay_delete: "overlay f (AList.delete k m) = (overlay f m)(k := f k)"
  by (auto simp: overlay_def delete_conv')

section \<open>Reading keeps the set\<close>

lemma GetCoin_FetchCoin:
  "view_ok v \<Longrightarrow> GetCoin v k d = (ok, coin, v') \<Longrightarrow>
     layers v' = layers v \<and> utxo v' = utxo v \<and> view_ok v' \<and> utxo v k = (if ok then live coin else None)"
  "cache_ok view \<Longrightarrow> FetchCoin view k = (r, view') \<Longrightarrow>
     cache_utxo view' = cache_utxo view \<and> cache_ok view' \<and> layers (snd view') = layers (snd view)
     \<and> map_of (cacheCoins (fst view')) k = r \<and> cache_hashBlock (fst view') = cache_hashBlock (fst view)
     \<and> cache_utxo view k = (case r of None \<Rightarrow> None | Some e \<Rightarrow> live (entry_coin e))"
proof (induction v k d and view k arbitrary: ok coin v' and r view' rule: GetCoin_FetchCoin.induct)
  case (3 c base outpoint coin ok coin' v')
  obtain r c' base' where f: "FetchCoin (c, base) outpoint = (r, c', base')"
    by (cases "FetchCoin (c, base) outpoint") auto
  from 3(2) have "cache_ok (c, base)" by simp
  from 3(1) [OF this f] have i: "utxo (CoinsViewCache c' base') = utxo (CoinsViewCache c base)"
    "view_ok (CoinsViewCache c' base')" "layers base' = layers base"
    "utxo (CoinsViewCache c base) outpoint = (case r of None \<Rightarrow> None | Some e \<Rightarrow> live (entry_coin e))"
    by (simp_all only: fst_conv snd_conv)
  from 3(3) f have "(ok, coin', v') = (case r of None \<Rightarrow> (False, coin, CoinsViewCache c' base')
      | Some it \<Rightarrow> (\<not> IsSpent (entry_coin it), entry_coin it, CoinsViewCache c' base'))"
    by (cases r) (auto simp del: FetchCoin.simps)
  with i show ?case
    by (cases r) (auto simp: live_def simp del: utxo.simps view_ok.simps GetCoin.simps FetchCoin.simps)
next
  case (4 c base outpoint)
  show ?case
  proof (cases "map_of (cacheCoins c) outpoint")
    case None
    obtain ok tmp base' where g: "GetCoin base outpoint Coin_Clear = (ok, tmp, base')" by (cases "GetCoin base outpoint Coin_Clear") auto
    from 4(2) have "view_ok base" by simp
    from 4(1) [OF None this g] have b: "layers base' = layers base" "utxo base' = utxo base" "view_ok base'" "utxo base outpoint = (if ok then live tmp else None)"
      by simp_all
    show ?thesis
    proof (cases ok)
      case False
      from 4(3) None g False have "r = None" "view' = (c, base')" by simp_all
      with 4(2) None False b show ?thesis by simp
    next
      case True
      let ?e = "\<lparr>entry_coin = tmp, entry_flags = (if IsSpent tmp then FRESH else 0)\<rparr>"
      from 4(3) None g True have "r = Some ?e" "view' = (c\<lparr>cacheCoins := AList.update outpoint ?e (cacheCoins c),
          cachedCoinsUsage := cachedCoinsUsage c + Coin_DynamicMemoryUsage tmp\<rparr>, base')" by (simp_all add: Let_def)
      with 4(2) None True b show ?thesis
        by (auto simp: overlay_update map_ok_update update_conv' map_usage_update entry_ok_def coin_simps fun_upd_idem)
    qed
  next
    case (Some it)
    with 4(3) have "r = Some it" "view' = (c, base)" by simp_all
    with 4(2) Some show ?thesis by simp
  qed
qed (auto split: option.splits)

lemma FetchCoin_cases:
  assumes "cache_ok view"
  obtains r view' where "FetchCoin view k = (r, view')" "cache_utxo view' = cache_utxo view" "cache_ok view'"
    "layers (snd view') = layers (snd view)" "map_of (cacheCoins (fst view')) k = r"
    "cache_hashBlock (fst view') = cache_hashBlock (fst view)"
    "cache_utxo view k = (case r of None \<Rightarrow> None | Some e \<Rightarrow> live (entry_coin e))"
proof (cases "FetchCoin view k")
  case (fields r c' b')
  with GetCoin_FetchCoin(2) [OF assms this] that show thesis by blast
qed

lemma AccessCoin_spec:
  assumes "cache_ok view"
  obtains coin view' where "AccessCoin view k = (coin, view')" "cache_utxo view' = cache_utxo view" "cache_ok view'"
    "live coin = cache_utxo view k" "layers (snd view') = layers (snd view)" "cache_hashBlock (fst view') = cache_hashBlock (fst view)"
  using assms
proof (cases rule: FetchCoin_cases [where k = k])
  case (1 r view')
  with that [of "case r of None \<Rightarrow> Coin_Clear | Some e \<Rightarrow> entry_coin e" view'] show thesis
    by (cases r) (simp_all add: AccessCoin_def coin_simps)
qed

lemma HaveCoin_spec:
  assumes "cache_ok view"
  obtains view' where "HaveCoin view k = (cache_utxo view k \<noteq> None, view')" "cache_utxo view' = cache_utxo view"
    "cache_ok view'" "layers (snd view') = layers (snd view)" "cache_hashBlock (fst view') = cache_hashBlock (fst view)"
  using assms
proof (cases rule: FetchCoin_cases [where k = k])
  case (1 r view')
  with that [of view'] show thesis
    by (cases r) (simp_all add: HaveCoin_def live_def split: if_splits)
qed

section \<open>Writing updates the set\<close>

lemma AddCoin_spec:
  assumes "cache_ok view" "\<not> IsSpent coin" "\<not> IsUnspendable (scriptPubKey (coin_out coin))"
    "possible_overwrite \<or> cache_utxo view k = None"
  obtains view' where "AddCoin view k coin possible_overwrite = Inr view'"
    "cache_utxo view' = (cache_utxo view)(k \<mapsto> coin)" "cache_ok view'" "snd view' = snd view"
    "cache_hashBlock (fst view') = cache_hashBlock (fst view)"
proof -
  obtain c base where v: "view = (c, base)" by force
  define it where "it = (case map_of (cacheCoins c) k of
      None \<Rightarrow> \<lparr>entry_coin = Coin_Clear, entry_flags = 0\<rparr> | Some it \<Rightarrow> it)"
  define fresh where "fresh = (\<not> possible_overwrite \<and> \<not> is_dirty it)"
  define it' where "it' = \<lparr>entry_coin = coin, entry_flags = entry_flags it OR (1 OR (if fresh then 2 else 0))\<rparr>"
  define view' where "view' = (c\<lparr>cacheCoins := AList.update k it' (cacheCoins c),
      cachedCoinsUsage := cachedCoinsUsage c - (case map_of (cacheCoins c) k of None \<Rightarrow> 0
        | Some d \<Rightarrow> Coin_DynamicMemoryUsage (entry_coin d)) + Coin_DynamicMemoryUsage coin\<rparr>, base)"
  from assms(1) v have ok: "view_ok base" "map_ok (utxo base) (cacheCoins c)" "cachedCoinsUsage c = map_usage (cacheCoins c)"
    by simp_all
  have spent: "IsSpent (entry_coin it)" if "\<not> possible_overwrite"
    using assms(4) that v by (cases "map_of (cacheCoins c) k") (simp_all add: it_def coin_simps)
  have none: "utxo base k = None" if "is_fresh it \<or> fresh"
    using that map_ok_lookup [OF ok(2), of k] assms(4) v
    by (cases "map_of (cacheCoins c) k") (auto simp: it_def fresh_def entry_ok_def coin_simps simp flip: live_simps(1))
  have "AddCoin view k coin possible_overwrite = Inr view'"
    using assms(2, 3) spent
    by (cases "map_of (cacheCoins c) k") (auto simp: AddCoin_def v view'_def it'_def it_def fresh_def Let_def)
  moreover have "entry_ok (utxo base k) it'"
    using none by (auto simp: entry_ok_def it'_def coin_simps)
  moreover have "map_usage (AList.update k it' (cacheCoins c)) = cachedCoinsUsage c - (case map_of (cacheCoins c) k of None \<Rightarrow> 0
        | Some d \<Rightarrow> Coin_DynamicMemoryUsage (entry_coin d)) + Coin_DynamicMemoryUsage coin"
    by (simp add: map_usage_update ok(3) it'_def)
  ultimately show thesis using ok assms(2) v
    by (intro that [of view']) (auto simp: view'_def map_ok_update overlay_update it'_def live_def)
qed

lemma AddCoin_unspendable:
  "\<not> IsSpent coin \<Longrightarrow> IsUnspendable (scriptPubKey (coin_out coin)) \<Longrightarrow> AddCoin view k coin ow = Inr view"
  by (cases view) (simp add: AddCoin_def)

lemma SpendCoin_spec:
  assumes "cache_ok view"
  obtains r view' where "SpendCoin view k = (r, view')" "cache_utxo view' = (cache_utxo view)(k := None)"
    "cache_ok view'" "layers (snd view') = layers (snd view)" "\<And>coin. cache_utxo view k = Some coin \<Longrightarrow> r = Some coin"
    "\<And>coin. r = Some coin \<Longrightarrow> live coin = cache_utxo view k" "r = None \<Longrightarrow> cache_utxo view k = None"
    "cache_hashBlock (fst view') = cache_hashBlock (fst view)"
  using assms
proof (cases rule: FetchCoin_cases [where k = k])
  case (1 r view')
  obtain c base where v': "view' = (c, base)" by force
  show thesis
  proof (cases r)
    case None
    with 1 that [of None view'] show thesis by (simp add: SpendCoin_def fun_upd_idem)
  next
    case (Some it)
    define cleared where "cleared = \<lparr>entry_coin = Coin_Clear, entry_flags = entry_flags it OR 1\<rparr>"
    define m where "m = (if is_fresh it then AList.delete k (cacheCoins c) else AList.update k cleared (cacheCoins c))"
    define view'' where "view'' = (c\<lparr>cacheCoins := m, cachedCoinsUsage := cachedCoinsUsage c - Coin_DynamicMemoryUsage (entry_coin it)\<rparr>, base)"
    from 1 v' Some have ok: "view_ok base" "map_ok (utxo base) (cacheCoins c)" "cachedCoinsUsage c = map_usage (cacheCoins c)"
      "map_of (cacheCoins c) k = Some it" by simp_all
    from ok have e: "entry_ok (utxo base k) it" by (auto intro: map_ok_lookup)
    then have "entry_ok (utxo base k) cleared" by (simp add: entry_ok_def cleared_def coin_simps)
    moreover have "distinct (map fst (cacheCoins c))" using ok(2) by (simp add: map_ok_def)
    moreover have "overlay (utxo base) m = (overlay (utxo base) (cacheCoins c))(k := None)"
      using e by (simp add: m_def overlay_delete overlay_update cleared_def coin_simps entry_ok_def)
    ultimately have "cache_ok view''" "cache_utxo view'' = (cache_utxo view)(k := None)"
      using ok 1(2) v'
      by (auto simp: view''_def m_def map_ok_delete map_ok_update map_usage_delete map_usage_update cleared_def coin_simps)
    moreover have "SpendCoin view k = (Some (entry_coin it), view'')"
      using 1(1) Some v' by (simp add: SpendCoin_def Let_def view''_def m_def cleared_def)
    moreover have "cache_hashBlock (fst view'') = cache_hashBlock (fst view)" using 1(6) v' by (simp add: view''_def)
    moreover have "layers (snd view'') = layers (snd view)" using 1(4) v' by (simp add: view''_def)
    moreover have "live (entry_coin it) = cache_utxo view k" using 1(7) Some by simp
    moreover have "coin = entry_coin it" if "cache_utxo view k = Some coin" for coin
      using that 1(7) Some by (simp add: live_def split: if_splits)
    ultimately show thesis
      by (intro that [of "Some (entry_coin it)" view'']) (simp_all del: utxo.simps view_ok.simps)
  qed
qed

lemma Uncache_spec:
  assumes "cache_ok view"
  shows "cache_utxo (Uncache view k) = cache_utxo view" "cache_ok (Uncache view k)" "snd (Uncache view k) = snd view"
proof -
  obtain c base where v: "view = (c, base)" by force
  have "cache_utxo (Uncache view k) = cache_utxo view \<and> cache_ok (Uncache view k) \<and> snd (Uncache view k) = snd view"
  proof (cases "\<exists>it. map_of (cacheCoins c) k = Some it \<and> entry_flags it = 0")
    case True
    then obtain it where it: "map_of (cacheCoins c) k = Some it" "entry_flags it = 0" by blast
    with assms v have "entry_ok (utxo base k) it" by (auto intro: map_ok_lookup)
    with it(2) have "utxo base k = live (entry_coin it)" by (simp add: entry_ok_def is_dirty_def)
    moreover have "distinct (map fst (cacheCoins c))" using assms v by (simp add: map_ok_def)
    ultimately show ?thesis using assms v it
      by (simp add: Uncache_def overlay_delete map_ok_delete map_usage_delete fun_upd_idem)
  next
    case False
    then have "Uncache view k = view" using v by (auto simp: Uncache_def split: option.splits)
    with assms show ?thesis by simp
  qed
  then show "cache_utxo (Uncache view k) = cache_utxo view" "cache_ok (Uncache view k)" "snd (Uncache view k) = snd view"
    by blast+
qed

section \<open>Batch writes and flushing\<close>

lemma BatchWrite_entry_spec:
  assumes "cache_ok (c, base)" "entry_ok (cache_utxo (c, base) k) e"
  obtains c' where "BatchWrite_entry c k e = Inr c'" "cache_ok (c', base)"
    "cache_utxo (c', base) = (cache_utxo (c, base))(k := live (entry_coin e))" "cache_hashBlock c' = cache_hashBlock c"
proof -
  have ok: "view_ok base" "map_ok (utxo base) (cacheCoins c)" "cachedCoinsUsage c = map_usage (cacheCoins c)"
    using assms(1) by simp_all
  then have d: "distinct (map fst (cacheCoins c))" by (simp add: map_ok_def)
  show thesis
  proof (cases "is_dirty e")
    case False
    with assms that [of c] show thesis by (simp add: BatchWrite_entry_def entry_ok_def fun_upd_idem)
  next
    case True
    show thesis
    proof (cases "map_of (cacheCoins c) k")
      case None
      let ?n = "\<lparr>entry_coin = entry_coin e, entry_flags = (if is_fresh e then DIRTY OR FRESH else DIRTY)\<rparr>"
      show thesis
      proof (cases "is_fresh e \<and> IsSpent (entry_coin e)")
        case fs: True
        with None assms(2) have "live (entry_coin e) = cache_utxo (c, base) k" by (simp add: entry_ok_def live_def)
        with True None fs assms(1) that [of c] show thesis by (simp add: BatchWrite_entry_def fun_upd_idem)
      next
        case fs: False
        from None assms(2) have "entry_ok (utxo base k) ?n" by (simp add: entry_ok_def coin_simps)
        with True None fs ok that show thesis
          by (simp add: BatchWrite_entry_def map_ok_update overlay_update map_usage_update)
      qed
    next
      case (Some itUs)
      let ?n = "\<lparr>entry_coin = entry_coin e, entry_flags = entry_flags itUs OR DIRTY\<rparr>"
      from Some ok(2) have us: "entry_ok (utxo base k) itUs" by (auto intro: map_ok_lookup)
      then have "entry_ok (utxo base k) ?n" by (simp add: entry_ok_def coin_simps)
      have "\<not> (is_fresh e \<and> \<not> IsSpent (entry_coin itUs))" using assms(2) Some by (simp add: entry_ok_def)
      show thesis
      proof (cases "is_fresh itUs \<and> IsSpent (entry_coin e)")
        case fs: True
        with us have "utxo base k = live (entry_coin e)" by (simp add: entry_ok_def live_def)
        with True Some fs ok d that \<open>\<not> (is_fresh e \<and> _)\<close> show thesis
          by (simp add: BatchWrite_entry_def map_ok_delete overlay_delete map_usage_delete)
      next
        case fs: False
        with True Some ok that \<open>\<not> (is_fresh e \<and> _)\<close> \<open>entry_ok _ ?n\<close> show thesis
          by (simp add: BatchWrite_entry_def map_ok_update overlay_update map_usage_update)
      qed
    qed
  qed
qed

lemma overlay_Cons: "overlay f ((k, e) # m) = (overlay f m)(k := live (entry_coin e))"
  by (auto simp: overlay_def)

lemma overlay_upd: "map_of m k = None \<Longrightarrow> overlay (f(k := x)) m = (overlay f m)(k := x)"
  by (rule ext) (simp add: overlay_def split: option.split)

lemma map_ok_Cons: "map_ok f ((k, e) # m) \<longleftrightarrow> map_of m k = None \<and> entry_ok (f k) e \<and> map_ok f m"
  by (auto simp: map_ok_def map_of_eq_None_iff)

lemma map_ok_upd: "map_of m k = None \<Longrightarrow> map_ok (f(k := x)) m \<longleftrightarrow> map_ok f m"
  unfolding map_ok_iff by (metis fun_upd_apply option.distinct(1))

lemma BatchWrite_loop_spec:
  assumes "cache_ok (c, base)" "map_ok (cache_utxo (c, base)) m"
  shows "\<exists>c'. BatchWrite_loop c m = Inr c' \<and> cache_ok (c', base)
     \<and> cache_utxo (c', base) = overlay (cache_utxo (c, base)) m \<and> cache_hashBlock c' = cache_hashBlock c"
  using assms
proof (induction m arbitrary: c)
  case Nil
  then show ?case by (simp add: overlay_def)
next
  case (Cons p m)
  obtain k e where p: "p = (k, e)" by force
  with Cons.prems(2) have k: "map_of m k = None" and e: "entry_ok (cache_utxo (c, base) k) e" and m: "map_ok (cache_utxo (c, base)) m"
    by (auto simp only: map_ok_Cons)
  from Cons.prems(1) e obtain c' where c': "BatchWrite_entry c k e = Inr c'" "cache_ok (c', base)"
    "cache_utxo (c', base) = (cache_utxo (c, base))(k := live (entry_coin e))" "cache_hashBlock c' = cache_hashBlock c"
    by (rule BatchWrite_entry_spec)
  have "map_ok (cache_utxo (c', base)) m" unfolding c'(3) using m by (simp only: map_ok_upd [OF k])
  from Cons.IH [OF c'(2) this] c' p show ?case
    by (simp only: BatchWrite_loop.simps sum.case overlay_Cons overlay_upd [OF k])
qed

lemma WriteBatch_append: "WriteBatch (a @ b) db = WriteBatch b (WriteBatch a db)"
  by (simp add: WriteBatch_def)

lemma BatchWrite_DB_loop_ne: "BatchWrite_DB_loop big h batch db m \<noteq> []"
  by (induction big h batch db m rule: BatchWrite_DB_loop.induct) (simp_all add: Let_def)

lemma BatchWrite_DB_loop_last:
  "last (BatchWrite_DB_loop big h batch db m) =
     WriteBatch (batch @ concat (map (\<lambda>(k, e). batch_entry k e) m) @ [Erase_head_blocks, Write_best_block h]) db"
proof (induction big h batch db m rule: BatchWrite_DB_loop.induct)
  case (2 big h batch db k e m)
  from 2 show ?case by (simp add: Let_def WriteBatch_append BatchWrite_DB_loop_ne)
qed simp

lemma BatchWrite_DB_loop_states:
  "db' \<in> set (butlast (BatchWrite_DB_loop big h batch db m)) \<Longrightarrow>
     \<exists>i. db' = WriteBatch (batch @ concat (map (\<lambda>(k, e). batch_entry k e) (take i m))) db"
proof (induction big h batch db m arbitrary: db' rule: BatchWrite_DB_loop.induct)
  case (2 big h batch db k e m)
  let ?b = "batch @ batch_entry k e"
  have "\<exists>i. db' = WriteBatch (?b @ concat (map (\<lambda>(k, e). batch_entry k e) (take i m))) db"
  proof (cases "big ?b")
    case True
    with 2(3) consider "db' = WriteBatch ?b db"
      | "db' \<in> set (butlast (BatchWrite_DB_loop big h [] (WriteBatch ?b db) m))"
      by (auto simp: Let_def split: if_splits)
    then show ?thesis
    proof cases
      case 1
      then show ?thesis by (intro exI [of _ 0]) simp
    next
      case 2
      from "2.IH"(1) [OF refl True refl this] show ?thesis by (simp add: WriteBatch_append)
    qed
  next
    case False
    with 2(3) have "db' \<in> set (butlast (BatchWrite_DB_loop big h ?b db m))" by (simp add: Let_def)
    from 2(2) [OF refl False this] show ?thesis .
  qed
  then obtain i where "db' = WriteBatch (?b @ concat (map (\<lambda>(k, e). batch_entry k e) (take i m))) db" ..
  then show ?case by (intro exI [of _ "Suc i"]) simp
qed simp

lemma coin_writes_simps [simp]: "coin_writes [] = []" "coin_writes ((k, e) # m) = batch_entry k e @ coin_writes m"
  by (simp_all add: coin_writes_def)

lemma batch_entry_effect:
  "WriteBatch (batch_entry k e) db =
     (if is_dirty e then db\<lparr>db_coins := (db_coins db)(k := live (entry_coin e))\<rparr> else db)"
  by (simp add: batch_entry_def WriteBatch_def live_def)

lemma coin_writes_effect:
  "distinct (map fst m) \<Longrightarrow> WriteBatch (coin_writes m) db = db\<lparr>db_coins := written (db_coins db) m\<rparr>"
proof (induction m arbitrary: db)
  case (Cons p m)
  obtain k e where p: "p = (k, e)" by force
  with Cons.prems have "map_of m k = None" by (simp add: map_of_eq_None_iff)
  with Cons p show ?case
    by (auto simp: WriteBatch_append batch_entry_effect written_def fun_eq_iff split: option.split)
qed (simp add: WriteBatch_def written_def)

lemma BatchWrite_DB_spec:
  assumes "flushable (c, CoinsViewDB db)" "map_ok (utxo (CoinsViewDB db)) m"
  obtains dbs where "BatchWrite_DB big db m (cache_hashBlock c) = Inr dbs"
    "utxo (CoinsViewDB (last dbs)) = overlay (utxo (CoinsViewDB db)) m"
    "db_best_block (last dbs) = Some (cache_hashBlock c)" "db_head_blocks (last dbs) = None"
proof -
  obtain tip where t: "BatchWrite_DB big db m (cache_hashBlock c) =
      Inr (BatchWrite_DB_loop big (cache_hashBlock c) [Erase_best_block, Write_head_blocks [cache_hashBlock c, tip]] db m)"
    using assms(1) by (auto simp: BatchWrite_DB_def flushable_def Let_def split: if_splits)
  let ?dbs = "BatchWrite_DB_loop big (cache_hashBlock c) [Erase_best_block, Write_head_blocks [cache_hashBlock c, tip]] db m"
  have d: "distinct (map fst m)" using assms(2) by (simp add: map_ok_def)
  have "(case written (db_coins db) m k of None \<Rightarrow> None | Some coin \<Rightarrow> live coin) = overlay (utxo (CoinsViewDB db)) m k" for k
    using map_ok_lookup [OF assms(2), of k]
    by (cases "map_of m k") (auto simp: written_def entry_ok_def live_def split: option.splits if_splits)
  moreover have "last ?dbs = db\<lparr>db_coins := written (db_coins db) m, db_best_block := Some (cache_hashBlock c), db_head_blocks := None\<rparr>"
    by (simp add: BatchWrite_DB_loop_last WriteBatch_append coin_writes_effect [OF d] flip: coin_writes_def)
      (simp add: WriteBatch_def coin_writes_effect [unfolded WriteBatch_def, OF d])
  ultimately show thesis
    by (intro that [OF t]) (simp_all add: fun_eq_iff del: fun_upd_apply)
qed

lemma map_ok_empty [simp]: "map_ok f []"
  by (simp add: map_ok_def)

lemma overlay_empty [simp]: "overlay f [] = f"
  by (simp add: overlay_def)

lemma Flush_spec:
  assumes "cache_ok view" "flushable view"
  obtains view' where "Flush big view = Inr (True, view')" "cache_ok view'"
    "layers (snd view') = cache_utxo view # tl (layers (snd view))" "cacheCoins (fst view') = []"
    "cache_utxo view' = cache_utxo view" "cache_hashBlock (fst view') = cache_hashBlock (fst view)"
proof -
  obtain c base where v: "view = (c, base)" by force
  define c' where "c' = c\<lparr>cacheCoins := [], cachedCoinsUsage := 0\<rparr>"
  from assms(1) v have ok: "view_ok base" "map_ok (utxo base) (cacheCoins c)" by simp_all
  obtain base' where b: "BatchWrite big base (cacheCoins c) (cache_hashBlock c) = Inr (True, base')" "view_ok base'"
    "layers base' = overlay (utxo base) (cacheCoins c) # tl (layers base)" "utxo base' = overlay (utxo base) (cacheCoins c)"
  proof (cases base)
    case CoinsViewNull
    with assms(2) v show thesis by (simp add: flushable_def)
  next
    case (CoinsViewDB db)
    with assms(2) v have f: "flushable (c, CoinsViewDB db)" by simp
    from ok(2) CoinsViewDB have "map_ok (utxo (CoinsViewDB db)) (cacheCoins c)" by simp
    from BatchWrite_DB_spec [OF f this, of big] obtain dbs where
      "BatchWrite_DB big db (cacheCoins c) (cache_hashBlock c) = Inr dbs"
      "utxo (CoinsViewDB (last dbs)) = overlay (utxo (CoinsViewDB db)) (cacheCoins c)" by blast
    with CoinsViewDB show thesis by (intro that [of "CoinsViewDB (last dbs)"]) (simp_all del: utxo.simps)
  next
    case (CoinsViewCache d below)
    with ok have "cache_ok (d, below)" "map_ok (cache_utxo (d, below)) (cacheCoins c)" by simp_all
    from BatchWrite_loop_spec [OF this] obtain d' where d':
      "BatchWrite_loop d (cacheCoins c) = Inr d'" "cache_ok (d', below)"
      "cache_utxo (d', below) = overlay (cache_utxo (d, below)) (cacheCoins c)" by blast
    with CoinsViewCache show thesis
      by (intro that [of "CoinsViewCache (d'\<lparr>cache_hashBlock := cache_hashBlock c\<rparr>) below"]) simp_all
  qed
  have "Flush big view = Inr (True, c', base')" using b(1) v by (simp add: Flush_def c'_def)
  with b v show thesis by (intro that [of "(c', base')"]) (simp_all add: c'_def)
qed

section \<open>Any sequence of operations on any stack of caches\<close>

lemma coins_step_refines:
  assumes "cache_ok view" "coins_pre view op"
  shows "\<exists>obs view'. coins_step big view op = Inr (obs, view') \<and> cache_ok view' \<and>
     stack_step (stack_of view) op = (obs, stack_of view')"
proof (cases op)
  case (Access k)
  from assms(1) show ?thesis by (rule AccessCoin_spec [where k = k]) (simp add: Access)
next
  case (Have k)
  from assms(1) show ?thesis by (rule HaveCoin_spec [where k = k]) (simp add: Have)
next
  case (Add k coin ow)
  show ?thesis
  proof (cases "IsUnspendable (scriptPubKey (coin_out coin))")
    case True
    with assms Add show ?thesis by (simp add: AddCoin_unspendable)
  next
    case False
    from assms Add have "\<not> IsSpent coin" "ow \<or> cache_utxo view k = None" by simp_all
    from assms(1) this(1) False this(2) show ?thesis by (rule AddCoin_spec) (simp add: Add False)
  qed
next
  case (Spend k)
  from assms(1) show ?thesis
  proof (rule SpendCoin_spec [where k = k])
    fix r view'
    assume s: "SpendCoin view k = (r, view')" "cache_utxo view' = (cache_utxo view)(k := None)" "cache_ok view'"
      "layers (snd view') = layers (snd view)" "\<And>coin. r = Some coin \<Longrightarrow> live coin = cache_utxo view k"
      "r = None \<Longrightarrow> cache_utxo view k = None"
    then have "(case r of None \<Rightarrow> None | Some coin \<Rightarrow> live coin) = cache_utxo view k" by (cases r) simp_all
    with s(1-4) show ?thesis by (simp add: Spend)
  qed
next
  case (Evict k)
  with Uncache_spec [OF assms(1), of k] show ?thesis by (simp del: utxo.simps view_ok.simps)
next
  case (Set_best h)
  with assms show ?thesis by (simp add: SetBestBlock_def)
next
  case Push
  with assms show ?thesis by (simp add: CCoinsViewCache_new_def)
next
  case Flush_down
  from assms Flush_down have "flushable view" by simp
  with assms(1) show ?thesis by (rule Flush_spec [where big = big]) (simp add: Flush_down)
next
  case Pop
  with assms show ?thesis by (cases "snd view") simp_all
qed

lemma coins_run_refines:
  assumes "cache_ok view" "coins_allowed big view ops"
  shows "\<exists>obs view'. coins_run big view ops = Inr (obs, view') \<and> cache_ok view' \<and>
     stack_run (stack_of view) ops = (obs, stack_of view')"
  using assms
proof (induction ops arbitrary: view)
  case (Cons op ops)
  from Cons.prems(2) have "coins_pre view op" by simp
  from coins_step_refines [OF Cons.prems(1) this, of big] obtain obs view' where
    s: "coins_step big view op = Inr (obs, view')" "cache_ok view'" "stack_step (stack_of view) op = (obs, stack_of view')"
    by blast
  with Cons.prems(2) have "coins_allowed big view' ops" by simp
  from Cons.IH [OF s(2) this] obtain rest view'' where
    "coins_run big view' ops = Inr (rest, view'')" "cache_ok view''" "stack_run (stack_of view') ops = (rest, stack_of view'')"
    by blast
  with s show ?case by (simp del: layers.simps)
qed simp

lemma BatchWrite_DB_Inr:
  assumes "BatchWrite_DB big db m h = Inr dbs"
  shows "dbs = BatchWrite_DB_loop big h [Erase_best_block, Write_head_blocks [h, db_tip db]] db m"
proof -
  have "IsNull_uint256 null_uint256" by (simp add: IsNull_uint256_def list_all_iff)
  with assms show ?thesis
    by (auto simp: BatchWrite_DB_def Let_def db_tip_def numeral_2_eq_2 length_Suc_conv split: if_splits option.splits list.splits)
qed

lemma written_prefix: "distinct (map fst m) \<Longrightarrow> written f (take i m) k = f k \<or> written f (take i m) k = written f m k"
proof (cases "map_of (take i m) k")
  case (Some e)
  then have "(k, e) \<in> set m" using map_of_SomeD in_set_takeD by fastforce
  moreover assume "distinct (map fst m)"
  ultimately show ?thesis using Some by (simp add: written_def)
qed (simp add: written_def)

lemma WriteBatch_head: "WriteBatch [Erase_best_block, Write_head_blocks heads] db = db\<lparr>db_best_block := None, db_head_blocks := Some heads\<rparr>"
  by (simp add: WriteBatch_def)

lemma BatchWrite_DB_states:
  assumes "distinct (map fst m)" "BatchWrite_DB big db m h = Inr dbs"
  shows "last dbs = db\<lparr>db_coins := written (db_coins db) m, db_best_block := Some h, db_head_blocks := None\<rparr>"
    and "db' \<in> set (butlast dbs) \<Longrightarrow>
      \<exists>i. db' = db\<lparr>db_coins := written (db_coins db) (take i m), db_best_block := None, db_head_blocks := Some [h, db_tip db]\<rparr>"
proof -
  note dbs = BatchWrite_DB_Inr [OF assms(2)]
  show "last dbs = db\<lparr>db_coins := written (db_coins db) m, db_best_block := Some h, db_head_blocks := None\<rparr>"
    unfolding dbs
    by (simp add: BatchWrite_DB_loop_last WriteBatch_append coin_writes_effect [OF assms(1)] flip: coin_writes_def)
      (simp add: WriteBatch_def coin_writes_effect [unfolded WriteBatch_def, OF assms(1)])
  assume "db' \<in> set (butlast dbs)"
  then obtain i where "db' = WriteBatch ([Erase_best_block, Write_head_blocks [h, db_tip db]] @ coin_writes (take i m)) db"
    unfolding dbs coin_writes_def using BatchWrite_DB_loop_states by blast
  moreover have "distinct (map fst (take i m))" using assms(1) by (simp flip: take_map)
  ultimately have "db' = db\<lparr>db_coins := written (db_coins db) (take i m), db_best_block := None,
      db_head_blocks := Some [h, db_tip db]\<rparr>"
    by (simp only: WriteBatch_append WriteBatch_head coin_writes_effect) simp
  then show "\<exists>i. db' = db\<lparr>db_coins := written (db_coins db) (take i m), db_best_block := None,
      db_head_blocks := Some [h, db_tip db]\<rparr>" by blast
qed

section \<open>Properties\<close>



text \<open>
  C25: A crash while the coin database is being written is recognised and loses nothing.  Every state between two
  batches has no best block, names the new and the old tip as its head blocks, and has at every outpoint
  either what was stored before or what will be stored in the end; the state after the last batch has the new best
  block and no head blocks.
\<close>
theorem coins_db_crash_safe:
  assumes "distinct (map fst mapCoins)" "BatchWrite_DB big db mapCoins h = Inr dbs"
  shows "dbs \<noteq> [] \<and> db_best_block (last dbs) = Some h \<and> db_head_blocks (last dbs) = None \<and>
    (\<forall>db'\<in>set (butlast dbs).
       db_best_block db' = None \<and> db_head_blocks db' = Some [h, db_tip db] \<and>
       (\<forall>k. db_coins db' k = db_coins db k \<or> db_coins db' k = db_coins (last dbs) k))"
proof -
  have "dbs \<noteq> []" by (simp add: BatchWrite_DB_Inr [OF assms(2)] BatchWrite_DB_loop_ne)
  with BatchWrite_DB_states [OF assms] written_prefix [OF assms(1)] show ?thesis by fastforce
qed

lemma coins_db_crash_safe_witness:
  "\<exists>dbs. BatchWrite_DB (\<lambda>b. True) sample_db sample_map [5] = Inr dbs \<and> length dbs = 3 \<and>
     (\<forall>db'\<in>set (butlast dbs). db_best_block db' = None \<and> db_head_blocks db' = Some [[5], null_uint256])"
proof -
  have d: "distinct (map fst sample_map)" by (simp add: sample_map_def)
  obtain dbs where dbs: "BatchWrite_DB (\<lambda>b. True) sample_db sample_map [5] = Inr dbs" "length dbs = 3"
    by (simp add: sample_map_def sample_db_def BatchWrite_DB_def Let_def IsNull_uint256_def list_all_iff)
  have "db_tip sample_db = null_uint256" by (simp add: db_tip_def sample_db_def)
  with coins_db_crash_safe [OF d dbs(1)] dbs show ?thesis by metis
qed

end
