(* ===== verification/MoneyStr.thy ===== *)
theory MoneyStr
  imports Transaction
begin

text \<open>
  Amounts as text: \<^verbatim>\<open>FormatMoney\<close> and \<^verbatim>\<open>ParseMoney\<close> of \<^verbatim>\<open>src/src/utilmoneystr.cpp\<close>, with what they use of
  \<^verbatim>\<open>strprintf\<close>, \<^verbatim>\<open>isdigit\<close>, \<^verbatim>\<open>isspace\<close> (in the C locale) and \<^verbatim>\<open>strtoll\<close>.  A string is a list of characters;
  \<^verbatim>\<open>ParseMoney\<close> reads it up to the first NUL, since it works on \<^verbatim>\<open>c_str()\<close>.
\<close>

section \<open>Characters and decimal numbers\<close>

definition isdigit :: "char \<Rightarrow> bool" where
  "isdigit c \<longleftrightarrow> 48 \<le> (of_char c :: nat) \<and> (of_char c :: nat) \<le> 57"

definition isspace :: "char \<Rightarrow> bool" where
  "isspace c \<longleftrightarrow> (of_char c :: nat) = 32 \<or> (9 \<le> (of_char c :: nat) \<and> (of_char c :: nat) \<le> 13)"

definition digit_value :: "char \<Rightarrow> int" where
  "digit_value c = int (of_char c) - 48"

definition digit_char :: "nat \<Rightarrow> char" where
  "digit_char d = char_of (48 + d)"

text \<open>The conversions \<^verbatim>\<open>%d\<close> and \<^verbatim>\<open>%08d\<close>.\<close>

fun show_nat :: "nat \<Rightarrow> string" where
  "show_nat n = (if n < 10 then [digit_char n] else show_nat (n div 10) @ [digit_char (n mod 10)])"

definition show_int :: "int \<Rightarrow> string" where
  "show_int n = (if n < 0 then CHR ''-'' # show_nat (nat (- n)) else show_nat (nat n))"

definition show_08d :: "int \<Rightarrow> string" where
  "show_08d n = replicate (8 - length (show_int n)) (CHR ''0'') @ show_int n"

definition strtoll :: "string \<Rightarrow> int" where
  "strtoll s = foldl (\<lambda>a c. a * 10 + digit_value c) 0 (takeWhile isdigit s)"

section \<open>Formatting\<close>

text \<open>The loop that counts the zeros to trim, from index \<open>i\<close> down; it ends at the second digit after the point.\<close>

fun trim_count :: "string \<Rightarrow> nat \<Rightarrow> nat" where
  "trim_count str i =
     (if i = 0 then 0
      else if str ! i = CHR ''0'' \<and> isdigit (str ! (i - 2)) then Suc (trim_count str (i - 1)) else 0)"

definition FormatMoney :: "int \<Rightarrow> string" where
  "FormatMoney n =
     (let n_abs = (if n > 0 then n else wrap64 (- n));
          quotient = n_abs div COIN;
          remainder = n_abs mod COIN;
          str = show_int quotient @ CHR ''.'' # show_08d remainder;
          nTrim = trim_count str (length str - 1);
          str' = take (length str - nTrim) str
      in if n < 0 then CHR ''-'' # str' else str')"

section \<open>Parsing\<close>

abbreviation (input) CENT :: int where "CENT \<equiv> 1000000"

fun parse_fraction :: "int \<Rightarrow> int \<Rightarrow> string \<Rightarrow> int \<times> string" where
  "parse_fraction nMult nUnits [] = (nUnits, [])"
| "parse_fraction nMult nUnits (c # p) =
     (if isdigit c \<and> nMult > 0
      then parse_fraction (nMult div 10) (nUnits + nMult * digit_value c) p
      else (nUnits, c # p))"

text \<open>The digits before the point, the units after it and the rest; \<^const>\<open>None\<close> for any other character.\<close>

fun parse_whole :: "string \<Rightarrow> string \<Rightarrow> (string \<times> int \<times> string) option" where
  "parse_whole strWhole [] = Some (strWhole, 0, [])"
| "parse_whole strWhole (c # p) =
     (if c = CHR ''.'' then Some (strWhole, parse_fraction (CENT * 10) 0 p)
      else if isspace c then Some (strWhole, 0, c # p)
      else if \<not> isdigit c then None
      else parse_whole (strWhole @ [c]) p)"

definition ParseMoney :: "string \<Rightarrow> int option" where
  "ParseMoney pszIn =
     (case parse_whole [] (dropWhile isspace (takeWhile (\<lambda>c. of_char c \<noteq> (0 :: nat)) pszIn)) of
        None \<Rightarrow> None
      | Some (strWhole, nUnits, p) \<Rightarrow>
          if \<not> list_all isspace p then None
          else if length strWhole > 10 then None
          else if nUnits < 0 \<or> nUnits > COIN then None
          else Some (wrap64 (strtoll strWhole * COIN + nUnits)))"

section \<open>Values of digit strings\<close>

definition dec :: "string \<Rightarrow> int" where
  "dec s = foldl (\<lambda>a c. a * 10 + digit_value c) 0 s"

section \<open>Decimal digits\<close>

declare show_nat.simps [simp del] trim_count.simps [simp del]

lemma dec_foldl: "foldl (\<lambda>a c. a * 10 + digit_value c) a s = a * 10 ^ length s + dec s"
proof (induction s arbitrary: a)
  case (Cons c s)
  show ?case using Cons [of "a * 10 + digit_value c"] Cons [of "digit_value c"] by (simp add: dec_def algebra_simps)
qed (simp add: dec_def)

lemma dec_simps [simp]: "dec [] = 0" "dec (c # s) = digit_value c * 10 ^ length s + dec s" "dec (s @ t) = dec s * 10 ^ length t + dec t"
proof -
  show "dec [] = 0" by (simp add: dec_def)
  show "dec (c # s) = digit_value c * 10 ^ length s + dec s" using dec_foldl [of "digit_value c" s] by (simp add: dec_def)
  show "dec (s @ t) = dec s * 10 ^ length t + dec t" using dec_foldl [of "dec s" t] by (simp add: dec_def)
qed

lemma of_digit_char: "d < 10 \<Longrightarrow> of_char (digit_char d) = 48 + d"
  by (simp add: digit_char_def)

lemma digit_char_simps [simp]:
  "d < 10 \<Longrightarrow> isdigit (digit_char d)" "d < 10 \<Longrightarrow> digit_value (digit_char d) = int d"
  by (simp_all add: isdigit_def digit_value_def of_digit_char)

lemma zero_char [simp]: "isdigit (CHR ''0'')" "digit_value (CHR ''0'') = 0"
  by (simp_all add: isdigit_def digit_value_def)

lemma show_nat_digits: "list_all isdigit (show_nat n)" "show_nat n \<noteq> []"
proof -
  show "list_all isdigit (show_nat n)"
  proof (induction n rule: show_nat.induct)
    case (1 n)
    then show ?case by (subst show_nat.simps) simp
  qed
  show "show_nat n \<noteq> []" by (subst show_nat.simps) simp
qed

lemma dec_show_nat: "dec (show_nat n) = int n"
proof (induction n rule: show_nat.induct)
  case (1 n)
  show ?case
  proof (cases "n < 10")
    case False
    have "int n = int (n div 10) * 10 + int (n mod 10)" by (metis div_mult_mod_eq of_nat_add of_nat_mult of_nat_numeral)
    with 1 False show ?thesis by (subst show_nat.simps) simp
  qed (simp add: show_nat.simps [of n])
qed

lemma length_show_nat: "0 < k \<Longrightarrow> n < 10 ^ k \<Longrightarrow> length (show_nat n) \<le> k"
proof (induction k arbitrary: n)
  case (Suc k)
  show ?case
  proof (cases "n < 10")
    case False
    have "n div 10 < 10 ^ k" using Suc.prems(2) by (simp add: less_mult_imp_div_less mult.commute)
    moreover from False Suc.prems(2) have "0 < k" by (cases k) auto
    ultimately show ?thesis using Suc.IH [of "n div 10"] False by (subst show_nat.simps) simp
  qed (simp add: show_nat.simps [of n])
qed simp

lemma show_08d_spec:
  assumes "0 \<le> r" "r < COIN"
  shows "length (show_08d r) = 8" "list_all isdigit (show_08d r)" "dec (show_08d r) = r"
proof -
  have n: "length (show_nat (nat r)) \<le> 8" using assms by (intro length_show_nat) auto
  have z: "dec (replicate k (CHR ''0'')) = 0" for k by (induction k) simp_all
  show "length (show_08d r) = 8" "list_all isdigit (show_08d r)" "dec (show_08d r) = r"
    using n assms show_nat_digits(1) z by (auto simp: show_08d_def show_int_def dec_show_nat list_all_iff)
qed

section \<open>Reading what was written\<close>

lemma parse_fraction_digits:
  "list_all isdigit ds \<Longrightarrow> length ds \<le> n \<Longrightarrow> parse_fraction (10 ^ n div 10) u ds = (u + dec ds * 10 ^ (n - length ds), [])"
proof (induction ds arbitrary: n u)
  case (Cons d ds)
  then obtain k where k: "n = Suc k" "length ds \<le> k" by (cases n) auto
  have p: "(10 :: int) ^ k = 10 ^ length ds * 10 ^ (k - length ds)" using k(2) by (simp flip: power_add)
  have "parse_fraction (10 ^ n div 10) u (d # ds) = parse_fraction (10 ^ k div 10) (u + 10 ^ k * digit_value d) ds"
    using Cons.prems k by simp
  also have "\<dots> = (u + 10 ^ k * digit_value d + dec ds * 10 ^ (k - length ds), [])" using Cons k by simp
  also have "u + 10 ^ k * digit_value d + dec ds * 10 ^ (k - length ds) = u + dec (d # ds) * 10 ^ (n - length (d # ds))"
    unfolding p using k by (simp add: algebra_simps)
  finally show ?case .
qed simp

lemma parse_whole_digits:
  "list_all isdigit ds \<Longrightarrow> parse_whole w (ds @ CHR ''.'' # p) = Some (w @ ds, parse_fraction (CENT * 10) 0 p)"
proof (induction ds arbitrary: w)
  case (Cons d ds)
  have "d \<noteq> CHR ''.''" "\<not> isspace d" using Cons.prems by (auto simp: isdigit_def isspace_def)
  with Cons show ?case by simp
qed simp

lemma trim_count_spec:
  assumes "str ! p = CHR ''.''" "p + 2 \<le> i" "i < length str"
  shows "trim_count str i \<le> i - (p + 2) \<and> (\<forall>j. i - trim_count str i < j \<longrightarrow> j \<le> i \<longrightarrow> str ! j = CHR ''0'')"
  using assms(2, 3)
proof (induction i rule: less_induct)
  case (less i)
  show ?case
  proof (cases "str ! i = CHR ''0'' \<and> isdigit (str ! (i - 2))")
    case True
    then have "i \<noteq> p + 2" using assms(1) by (auto simp: isdigit_def)
    then have "p + 2 \<le> i - 1" "i - 1 < i" using less.prems by auto
    with less.IH [OF this(2, 1)] less.prems have IH: "trim_count str (i - 1) \<le> i - 1 - (p + 2)"
        "\<And>j. i - 1 - trim_count str (i - 1) < j \<Longrightarrow> j \<le> i - 1 \<Longrightarrow> str ! j = CHR ''0''" by auto
    have eq: "trim_count str i = Suc (trim_count str (i - 1))" using True less.prems by (subst trim_count.simps) simp
    have "str ! j = CHR ''0''" if "i - trim_count str i < j" "j \<le> i" for j
      using IH(2) [of j] that eq True by (cases "j = i") auto
    with eq IH(1) less.prems \<open>p + 2 \<le> i - 1\<close> show ?thesis by auto
  qed (subst trim_count.simps, auto)+
qed

lemma trim_zeros:
  assumes "list_all isdigit f" "length f = 8" "str = a @ CHR ''.'' # f"
  obtains k where "2 \<le> k" "k \<le> 8" "take (length str - trim_count str (length str - 1)) str = a @ CHR ''.'' # take k f"
    "dec f = dec (take k f) * 10 ^ (8 - k)"
proof -
  let ?t = "trim_count str (length str - 1)"
  have len: "length str = length a + 9" using assms by simp
  have s: "?t \<le> length str - 1 - (length a + 2)"
      "\<And>j. length str - 1 - ?t < j \<Longrightarrow> j \<le> length str - 1 \<Longrightarrow> str ! j = CHR ''0''"
    using trim_count_spec [of str "length a" "length str - 1"] assms len by (auto simp: nth_append)
  have t: "?t \<le> 6" using s(1) len by simp
  have z: "f ! j = CHR ''0''" if "8 - ?t \<le> j" "j < 8" for j
  proof -
    have "str ! (length a + 1 + j) = CHR ''0''" using that len t by (intro s(2)) auto
    then show ?thesis using assms(3) by (simp add: nth_append)
  qed
  have "drop (8 - ?t) f = replicate ?t (CHR ''0'')"
    using z t assms(2) by (intro nth_equalityI) auto
  then have f: "f = take (8 - ?t) f @ replicate ?t (CHR ''0'')" by (metis append_take_drop_id)
  have dz: "dec (replicate k (CHR ''0'')) = 0" for k by (induction k) simp_all
  have "dec f = dec (take (8 - ?t) f) * 10 ^ ?t" by (subst f) (simp add: dz)
  moreover have "take (length str - ?t) str = a @ CHR ''.'' # take (8 - ?t) f"
  proof -
    have "length str - ?t = length a + Suc (8 - ?t)" using t len by simp
    then show ?thesis by (simp only: assms(3)) simp
  qed
  ultimately show thesis using t by (intro that [of "8 - ?t"]) auto
qed

lemma ParseMoney_digits:
  assumes "list_all isdigit w" "w \<noteq> []" "length w \<le> 10" "list_all isdigit f" "length f \<le> 8"
  shows "ParseMoney (w @ CHR ''.'' # f) = Some (wrap64 (dec w * COIN + dec f * 10 ^ (8 - length f)))"
proof -
  have d: "of_char c \<noteq> (0 :: nat)" "\<not> isspace c" "of_char c \<ge> (48 :: nat)" if "isdigit c" for c
    using that by (auto simp: isdigit_def isspace_def)
  have t: "takeWhile (\<lambda>c. of_char c \<noteq> (0 :: nat)) (w @ CHR ''.'' # f) = w @ CHR ''.'' # f"
    using assms(1, 4) d(1) by (auto simp: takeWhile_eq_all_conv list_all_iff)
  have dw: "dropWhile isspace (w @ CHR ''.'' # f) = w @ CHR ''.'' # f"
    using assms(1, 2) d(2) by (cases w) auto
  have p: "parse_fraction (CENT * 10) 0 f = (dec f * 10 ^ (8 - length f), [])"
    using parse_fraction_digits [OF assms(4, 5), of 0] by simp
  have bound: "0 \<le> dec s \<and> dec s < 10 ^ length s" if "list_all isdigit s" for s
    using that
  proof (induction s)
    case (Cons c s)
    have "0 \<le> digit_value c" "digit_value c \<le> 9" using Cons.prems by (auto simp: isdigit_def digit_value_def)
    then have "digit_value c * 10 ^ length s \<le> 9 * 10 ^ length s" by (intro mult_right_mono) simp_all
    then have "digit_value c * 10 ^ length s + dec s < 9 * 10 ^ length s + 10 ^ length s"
      using Cons by (intro add_le_less_mono) simp_all
    with Cons \<open>0 \<le> digit_value c\<close> show ?case by simp
  qed simp
  have "dec f * 10 ^ (8 - length f) \<le> 10 ^ length f * 10 ^ (8 - length f)"
    using bound [OF assms(4)] by (intro mult_right_mono) auto
  also have "\<dots> = 10 ^ 8" using assms(5) by (simp flip: power_add)
  finally have u: "0 \<le> dec f * 10 ^ (8 - length f)" "dec f * 10 ^ (8 - length f) \<le> COIN" using bound [OF assms(4)] by simp_all
  have "takeWhile isdigit w = w" using assms(1) by (simp add: takeWhile_eq_all_conv list_all_iff)
  then have "strtoll w = dec w" by (simp only: strtoll_def dec_def)
  with u assms(3) show ?thesis unfolding ParseMoney_def t dw parse_whole_digits [OF assms(1)] p by simp
qed

lemma ParseMoney_FormatMoney:
  assumes "0 \<le> n" "n < 10000000000 * COIN"
  shows "ParseMoney (FormatMoney n) = Some n"
proof -
  have abs: "(if n > 0 then n else wrap64 (- n)) = n" using assms(1) by (auto simp: wrap64_def)
  let ?q = "show_nat (nat (n div COIN))" and ?f = "show_08d (n mod COIN)"
  have q: "show_int (n div COIN) = ?q" using assms(1) by (simp add: show_int_def)
  have f: "length ?f = 8" "list_all isdigit ?f" "dec ?f = n mod COIN" by (rule show_08d_spec; simp)+
  obtain k where k: "2 \<le> k" "k \<le> 8"
      "take (length (?q @ CHR ''.'' # ?f) - trim_count (?q @ CHR ''.'' # ?f) (length (?q @ CHR ''.'' # ?f) - 1)) (?q @ CHR ''.'' # ?f) = ?q @ CHR ''.'' # take k ?f"
      "dec ?f = dec (take k ?f) * 10 ^ (8 - k)"
    using trim_zeros [OF f(2, 1) refl] by metis
  have "FormatMoney n = ?q @ CHR ''.'' # take k ?f"
    unfolding FormatMoney_def Let_def abs q k(3) using assms(1) by simp
  moreover have "ParseMoney (?q @ CHR ''.'' # take k ?f) = Some (wrap64 (dec ?q * COIN + dec (take k ?f) * 10 ^ (8 - k)))"
  proof -
    have "n div COIN < 10000000000" using assms(2) by linarith
    then have "nat (n div COIN) < 10 ^ 10" by (simp add: nat_less_iff)
    then have "length ?q \<le> 10" by (intro length_show_nat) simp_all
    then show ?thesis using ParseMoney_digits [of ?q "take k ?f"] show_nat_digits k(2) f(1, 2)
      by (simp add: list_all_iff) (metis in_set_takeD)
  qed
  moreover have "dec ?q * COIN + dec (take k ?f) * 10 ^ (8 - k) = n"
    using pos_imp_zdiv_nonneg_iff [of COIN n] assms(1) k(4) f(3) by (simp add: dec_show_nat)
  moreover have "wrap64 n = n" using assms by (intro wrap64_id) (simp add: int64_range_def)
  ultimately show ?thesis by simp
qed

section \<open>Properties\<close>



end
