(* ===== verification/TxVerify.thy ===== *)
theory TxVerify
  imports SigHash Coins Chain MoneyStr
begin

text \<open>
  The checks of a single transaction: \<^verbatim>\<open>src/src/consensus/tx_verify.cpp\<close>, the validation state and the weights of
  \<^verbatim>\<open>src/src/consensus/validation.h\<close>.

  A \<^verbatim>\<open>CCoinsViewCache\<close> that is only read still fills its cache, so the functions return it.  A function that reports
  through a \<^verbatim>\<open>CValidationState\<close> returns the Boolean and the state; \<^const>\<open>Inl\<close> is what ends it otherwise: a failed
  assertion, an exception or a null pointer that is followed.
\<close>

unbundle bit_operations_syntax

section \<open>Validation state\<close>

datatype mode_state = MODE_VALID | MODE_INVALID | MODE_ERROR

record CValidationState =
  mode :: mode_state
  nDoS :: int
  strRejectReason :: string
  chRejectCode :: u32
  corruptionPossible :: bool
  strDebugMessage :: string

definition CValidationState_new :: CValidationState where
  "CValidationState_new =
     \<lparr>mode = MODE_VALID, nDoS = 0, strRejectReason = [], chRejectCode = 0, corruptionPossible = False, strDebugMessage = []\<rparr>"

text \<open>The result of \<^verbatim>\<open>DoS\<close> is its argument \<open>result\<close>, which is false in every call of the modelled code.\<close>

definition DoS :: "int \<Rightarrow> bool \<Rightarrow> u32 \<Rightarrow> string \<Rightarrow> bool \<Rightarrow> string \<Rightarrow> CValidationState \<Rightarrow> bool \<times> CValidationState" where
  "DoS level result code reason corruption debug state =
     (let state' = state\<lparr>chRejectCode := code, strRejectReason := reason, corruptionPossible := corruption, strDebugMessage := debug\<rparr>
      in if mode state = MODE_ERROR then (result, state')
         else (result, state'\<lparr>nDoS := nDoS state + level, mode := MODE_INVALID\<rparr>))"

definition Invalid :: "bool \<Rightarrow> u32 \<Rightarrow> string \<Rightarrow> string \<Rightarrow> CValidationState \<Rightarrow> bool \<times> CValidationState" where
  "Invalid result code reason debug state = DoS 0 result code reason False debug state"

definition CValidationState_Error :: "string \<Rightarrow> CValidationState \<Rightarrow> bool \<times> CValidationState" where
  "CValidationState_Error reason state =
     (False, (if mode state = MODE_VALID then state\<lparr>strRejectReason := reason\<rparr> else state)\<lparr>mode := MODE_ERROR\<rparr>)"

definition CValidationState_IsValid :: "CValidationState \<Rightarrow> bool" where
  "CValidationState_IsValid state \<longleftrightarrow> mode state = MODE_VALID"

definition CValidationState_IsInvalid :: "CValidationState \<Rightarrow> int option" where
  "CValidationState_IsInvalid state = (if mode state = MODE_INVALID then Some (nDoS state) else None)"

abbreviation (input) REJECT_INVALID :: u32 where "REJECT_INVALID \<equiv> 0x10"
abbreviation (input) REJECT_OBSOLETE :: u32 where "REJECT_OBSOLETE \<equiv> 0x11"
abbreviation (input) REJECT_NONSTANDARD :: u32 where "REJECT_NONSTANDARD \<equiv> 0x40"

text \<open>What ends a check other than its result.\<close>

datatype fault = Assertion | Logic_error | Runtime_error | Null_pointer | Script_abort

fun coins_fault :: "coins_error + 'a \<Rightarrow> fault + 'a" where
  "coins_fault (Inl AssertFailed) = Inl Assertion"
| "coins_fault (Inl LogicError) = Inl Logic_error"
| "coins_fault (Inr x) = Inr x"

section \<open>Weights\<close>

abbreviation (input) WITNESS_SCALE_FACTOR :: nat where "WITNESS_SCALE_FACTOR \<equiv> 4"
abbreviation (input) MAX_BLOCK_WEIGHT :: nat where "MAX_BLOCK_WEIGHT \<equiv> 4000000"
abbreviation (input) MAX_BLOCK_SIGOPS_COST :: int where "MAX_BLOCK_SIGOPS_COST \<equiv> 80000"
abbreviation (input) COINBASE_MATURITY :: int where "COINBASE_MATURITY \<equiv> 100"

definition GetTransactionWeight :: "CTransaction \<Rightarrow> nat" where
  "GetTransactionWeight tx =
     length (SerializeTransaction False tx) * (WITNESS_SCALE_FACTOR - 1) + length (SerializeTransaction True tx)"

section \<open>Lock times\<close>

fun IsFinalTx_loop :: "CTxIn list \<Rightarrow> bool" where
  "IsFinalTx_loop [] = True"
| "IsFinalTx_loop (txin # txins) = (if \<not> nSequence txin = SEQUENCE_FINAL then False else IsFinalTx_loop txins)"

definition IsFinalTx :: "CTransaction \<Rightarrow> int \<Rightarrow> int \<Rightarrow> bool" where
  "IsFinalTx tx nBlockHeight nBlockTime =
     (if nLockTime tx = 0 then True
      else if int (unat (nLockTime tx)) < (if int (unat (nLockTime tx)) < LOCKTIME_THRESHOLD then nBlockHeight else nBlockTime)
      then True
      else IsFinalTx_loop (vin tx))"

abbreviation (input) LOCKTIME_VERIFY_SEQUENCE :: u32 where "LOCKTIME_VERIFY_SEQUENCE \<equiv> 1"
abbreviation (input) LOCKTIME_MEDIAN_TIME_PAST :: u32 where "LOCKTIME_MEDIAN_TIME_PAST \<equiv> 2"

text \<open>
  The loop of \<^verbatim>\<open>CalculateSequenceLocks\<close>.  The block whose lock times are computed is \<open>p\<close> in the block index \<open>m\<close>; the heights
  of the inputs that are not relevant are set to zero.
\<close>

fun sequence_locks_loop :: "BlockMap \<Rightarrow> block_ptr \<Rightarrow> int \<Rightarrow> int \<Rightarrow> int list \<Rightarrow> CTxIn list \<Rightarrow> int list
    \<Rightarrow> fault + (int \<times> int) \<times> int list" where
  "sequence_locks_loop m p nMinHeight nMinTime done [] heights = Inr ((nMinHeight, nMinTime), done @ heights)"
| "sequence_locks_loop m p nMinHeight nMinTime done (txin # txins) [] = Inl Assertion"
| "sequence_locks_loop m p nMinHeight nMinTime done (txin # txins) (nCoinHeight # heights) =
     (if nSequence txin AND SEQUENCE_DISABLE_FLAG \<noteq> 0
      then sequence_locks_loop m p nMinHeight nMinTime (done @ [0]) txins heights
      else if nSequence txin AND SEQUENCE_LOCKTIME_TYPE_FLAG \<noteq> 0 then
        (case GetAncestor m p (max (nCoinHeight - 1) 0) of
           Some (Some q) \<Rightarrow>
             (case GetMedianTimePast m q of
                None \<Rightarrow> Inl Null_pointer
              | Some nCoinTime \<Rightarrow>
                  sequence_locks_loop m p nMinHeight
                    (max nMinTime (nCoinTime + int (unat (push_bit 9 (nSequence txin AND SEQUENCE_LOCKTIME_MASK))) - 1))
                    (done @ [nCoinHeight]) txins heights)
         | _ \<Rightarrow> Inl Null_pointer)
      else
        sequence_locks_loop m p (max nMinHeight (nCoinHeight + int (unat (nSequence txin AND SEQUENCE_LOCKTIME_MASK)) - 1)) nMinTime
          (done @ [nCoinHeight]) txins heights)"

definition CalculateSequenceLocks :: "CTransaction \<Rightarrow> u32 \<Rightarrow> int list \<Rightarrow> BlockMap \<Rightarrow> block_ptr
    \<Rightarrow> fault + (int \<times> int) \<times> int list" where
  "CalculateSequenceLocks tx lock_flags prevHeights m p =
     (if length prevHeights \<noteq> length (vin tx) then Inl Assertion
      else
        let fEnforceBIP68 = ((word_of_int (nVersion tx) :: u32) \<ge> 2 \<and> lock_flags AND LOCKTIME_VERIFY_SEQUENCE \<noteq> 0)
        in if \<not> fEnforceBIP68 then Inr ((- 1, - 1), prevHeights)
           else sequence_locks_loop m p (- 1) (- 1) [] (vin tx) prevHeights)"

definition EvaluateSequenceLocks :: "BlockMap \<Rightarrow> block_ptr \<Rightarrow> int \<times> int \<Rightarrow> fault + bool" where
  "EvaluateSequenceLocks m p lockPair =
     (case m p of
        None \<Rightarrow> Inl Null_pointer
      | Some block \<Rightarrow>
          (case pprev block of
             None \<Rightarrow> Inl Assertion
           | Some q \<Rightarrow>
               (case GetMedianTimePast m q of
                  None \<Rightarrow> Inl Null_pointer
                | Some nBlockTime \<Rightarrow>
                    Inr (\<not> (fst lockPair \<ge> int (bi_nHeight block) \<or> snd lockPair \<ge> nBlockTime)))))"

definition SequenceLocks :: "CTransaction \<Rightarrow> u32 \<Rightarrow> int list \<Rightarrow> BlockMap \<Rightarrow> block_ptr \<Rightarrow> fault + bool" where
  "SequenceLocks tx lock_flags prevHeights m p =
     and_then (CalculateSequenceLocks tx lock_flags prevHeights m p) (\<lambda>(lockPair, _). EvaluateSequenceLocks m p lockPair)"

section \<open>Signature operations\<close>

definition GetLegacySigOpCount :: "CTransaction \<Rightarrow> u32" where
  "GetLegacySigOpCount tx =
     foldl (\<lambda>nSigOps txout. nSigOps + of_nat (GetSigOpCount False (scriptPubKey txout)))
       (foldl (\<lambda>nSigOps txin. nSigOps + of_nat (GetSigOpCount False (scriptSig txin))) 0 (vin tx)) (vout tx)"

fun p2sh_sigops_loop :: "u32 \<Rightarrow> CCoinsViewCache \<Rightarrow> CTxIn list \<Rightarrow> fault + u32 \<times> CCoinsViewCache" where
  "p2sh_sigops_loop nSigOps inputs [] = Inr (nSigOps, inputs)"
| "p2sh_sigops_loop nSigOps inputs (txin # txins) =
     (case AccessCoin inputs (prevout txin) of
        (coin, inputs') \<Rightarrow>
          if IsSpent coin then Inl Assertion
          else p2sh_sigops_loop
            (if IsPayToScriptHash (scriptPubKey (coin_out coin))
             then nSigOps + of_nat (GetSigOpCount_sig (scriptPubKey (coin_out coin)) (scriptSig txin)) else nSigOps)
            inputs' txins)"

definition GetP2SHSigOpCount :: "CTransaction \<Rightarrow> CCoinsViewCache \<Rightarrow> fault + u32 \<times> CCoinsViewCache" where
  "GetP2SHSigOpCount tx inputs = (if IsCoinBase tx then Inr (0, inputs) else p2sh_sigops_loop 0 inputs (vin tx))"

fun witness_sigops_loop :: "script_flags \<Rightarrow> int \<Rightarrow> CCoinsViewCache \<Rightarrow> CTxIn list \<Rightarrow> fault + int \<times> CCoinsViewCache" where
  "witness_sigops_loop sflags nSigOps inputs [] = Inr (nSigOps, inputs)"
| "witness_sigops_loop sflags nSigOps inputs (txin # txins) =
     (case AccessCoin inputs (prevout txin) of
        (coin, inputs') \<Rightarrow>
          if IsSpent coin then Inl Assertion
          else
            (case CountWitnessSigOps (scriptSig txin) (scriptPubKey (coin_out coin)) (scriptWitness txin) sflags of
               None \<Rightarrow> Inl Assertion
             | Some n \<Rightarrow> witness_sigops_loop sflags (nSigOps + int n) inputs' txins))"

definition GetTransactionSigOpCost :: "CTransaction \<Rightarrow> CCoinsViewCache \<Rightarrow> script_flags \<Rightarrow> fault + int \<times> CCoinsViewCache" where
  "GetTransactionSigOpCost tx inputs sflags =
     (let nSigOps = int (unat (GetLegacySigOpCount tx * 4))
      in if IsCoinBase tx then Inr (nSigOps, inputs)
         else
           and_then
             (if flag sflags SCRIPT_VERIFY_P2SH then
                and_then (GetP2SHSigOpCount tx inputs) (\<lambda>(n, inputs'). Inr (nSigOps + int (unat (n * 4)), inputs'))
              else Inr (nSigOps, inputs))
             (\<lambda>(nSigOps', inputs'). witness_sigops_loop sflags nSigOps' inputs' (vin tx)))"

section \<open>Context-free checks\<close>

text \<open>The checks of the output values; the result is the reason to reject the transaction.\<close>

fun check_outputs_loop :: "int \<Rightarrow> CTxOut list \<Rightarrow> string option" where
  "check_outputs_loop nValueOut [] = None"
| "check_outputs_loop nValueOut (txout # txouts) =
     (if nValue txout < 0 then Some ''bad-txns-vout-negative''
      else if nValue txout > MAX_MONEY then Some ''bad-txns-vout-toolarge''
      else
        let nValueOut' = wrap64 (nValueOut + nValue txout)
        in if \<not> MoneyRange nValueOut' then Some ''bad-txns-txouttotal-toolarge''
           else check_outputs_loop nValueOut' txouts)"

fun duplicate_inputs_loop :: "COutPoint set \<Rightarrow> CTxIn list \<Rightarrow> bool" where
  "duplicate_inputs_loop vInOutPoints [] = False"
| "duplicate_inputs_loop vInOutPoints (txin # txins) =
     (if prevout txin \<in> vInOutPoints then True
      else duplicate_inputs_loop (insert (prevout txin) vInOutPoints) txins)"

definition CheckTransaction :: "CTransaction \<Rightarrow> CValidationState \<Rightarrow> bool \<Rightarrow> bool \<times> CValidationState" where
  "CheckTransaction tx state fCheckDuplicateInputs =
     (if vin tx = [] then DoS 10 False REJECT_INVALID ''bad-txns-vin-empty'' False [] state
      else if vout tx = [] then DoS 10 False REJECT_INVALID ''bad-txns-vout-empty'' False [] state
      else if length (SerializeTransaction False tx) * WITNESS_SCALE_FACTOR > MAX_BLOCK_WEIGHT
      then DoS 100 False REJECT_INVALID ''bad-txns-oversize'' False [] state
      else
        (case check_outputs_loop 0 (vout tx) of
           Some reason \<Rightarrow> DoS 100 False REJECT_INVALID reason False [] state
         | None \<Rightarrow>
             if fCheckDuplicateInputs \<and> duplicate_inputs_loop {} (vin tx)
             then DoS 100 False REJECT_INVALID ''bad-txns-inputs-duplicate'' False [] state
             else if IsCoinBase tx then
               (if length (scriptSig (vin tx ! 0)) < 2 \<or> length (scriptSig (vin tx ! 0)) > 100
                then DoS 100 False REJECT_INVALID ''bad-cb-length'' False [] state
                else (True, state))
             else if list_ex (\<lambda>txin. COutPoint_IsNull (prevout txin)) (vin tx)
             then DoS 10 False REJECT_INVALID ''bad-txns-prevout-null'' False [] state
             else (True, state)))"

section \<open>Checks against the coins\<close>

text \<open>The loop over the inputs: the total value, or the rejection.\<close>

fun check_inputs_loop :: "int \<Rightarrow> CValidationState \<Rightarrow> int \<Rightarrow> CCoinsViewCache \<Rightarrow> CTxIn list
    \<Rightarrow> fault + (CValidationState + int) \<times> CCoinsViewCache" where
  "check_inputs_loop nSpendHeight state nValueIn inputs [] = Inr (Inr nValueIn, inputs)"
| "check_inputs_loop nSpendHeight state nValueIn inputs (txin # txins) =
     (case AccessCoin inputs (prevout txin) of
        (coin, inputs') \<Rightarrow>
          if IsSpent coin then Inl Assertion
          else if fCoinBase coin \<and> nSpendHeight - int (unat (coin_nHeight coin)) < COINBASE_MATURITY then
            Inr (Inl (snd (Invalid False REJECT_INVALID ''bad-txns-premature-spend-of-coinbase''
                  (''tried to spend coinbase at depth '' @ show_int (nSpendHeight - int (unat (coin_nHeight coin)))) state)), inputs')
          else
            let nValueIn' = wrap64 (nValueIn + nValue (coin_out coin))
            in if \<not> MoneyRange (nValue (coin_out coin)) \<or> \<not> MoneyRange nValueIn' then
                 Inr (Inl (snd (DoS 100 False REJECT_INVALID ''bad-txns-inputvalues-outofrange'' False [] state)), inputs')
               else check_inputs_loop nSpendHeight state nValueIn' inputs' txins)"

text \<open>\<^const>\<open>Inr\<close> with the fee is the result true, \<^const>\<open>Inl\<close> with the changed state is the result false.\<close>

definition CheckTxInputs :: "CTransaction \<Rightarrow> CValidationState \<Rightarrow> CCoinsViewCache \<Rightarrow> int
    \<Rightarrow> fault + (CValidationState + int) \<times> CCoinsViewCache" where
  "CheckTxInputs tx state inputs nSpendHeight =
     (case HaveInputs inputs tx of
        (have_inputs, inputs') \<Rightarrow>
          if \<not> have_inputs then
            Inr (Inl (snd (DoS 100 False REJECT_INVALID ''bad-txns-inputs-missingorspent'' False
                  ''CheckTxInputs: inputs missing/spent'' state)), inputs')
          else
            and_then (check_inputs_loop nSpendHeight state 0 inputs' (vin tx)) (\<lambda>(r, inputs'').
              case r of
                Inl state' \<Rightarrow> Inr (Inl state', inputs'')
              | Inr nValueIn \<Rightarrow>
                  (case GetValueOut tx of
                     None \<Rightarrow> Inl Runtime_error
                   | Some value_out \<Rightarrow>
                       if nValueIn < value_out then
                         Inr (Inl (snd (DoS 100 False REJECT_INVALID ''bad-txns-in-belowout'' False
                               (''value in ('' @ FormatMoney nValueIn @ '') < value out ('' @ FormatMoney value_out @ '')'') state)), inputs'')
                       else
                         let txfee_aux = wrap64 (nValueIn - value_out)
                         in if \<not> MoneyRange txfee_aux then
                              Inr (Inl (snd (DoS 100 False REJECT_INVALID ''bad-txns-fee-outofrange'' False [] state)), inputs'')
                            else Inr (Inr txfee_aux, inputs''))))"

section \<open>Specifications of the checks\<close>

text \<open>The coins of a view, and its well-formedness, as constants.\<close>

definition coins_of :: "CCoinsViewCache \<Rightarrow> COutPoint \<Rightarrow> Coin option" where
  "coins_of view = cache_utxo view"

definition coins_ok :: "CCoinsViewCache \<Rightarrow> bool" where
  "coins_ok view \<longleftrightarrow> cache_ok view"

text \<open>A view after reads: the same coins in every layer and the same best block.\<close>

definition reads :: "CCoinsViewCache \<Rightarrow> CCoinsViewCache \<Rightarrow> bool" where
  "reads view view' \<longleftrightarrow> coins_ok view' \<and> coins_of view' = coins_of view \<and> layers (snd view') = layers (snd view) \<and>
     cache_hashBlock (fst view') = cache_hashBlock (fst view)"

definition mature :: "int \<Rightarrow> Coin \<Rightarrow> bool" where
  "mature nSpendHeight coin \<longleftrightarrow> (fCoinBase coin \<longrightarrow> COINBASE_MATURITY \<le> nSpendHeight - int (unat (coin_nHeight coin)))"

definition input_value :: "(COutPoint \<Rightarrow> Coin option) \<Rightarrow> CTxIn \<Rightarrow> int" where
  "input_value utxos txin = (case utxos (prevout txin) of None \<Rightarrow> 0 | Some coin \<Rightarrow> nValue (coin_out coin))"

definition spendable :: "(COutPoint \<Rightarrow> Coin option) \<Rightarrow> int \<Rightarrow> CTxIn \<Rightarrow> bool" where
  "spendable utxos nSpendHeight txin \<longleftrightarrow>
     (case utxos (prevout txin) of None \<Rightarrow> False | Some coin \<Rightarrow> mature nSpendHeight coin \<and> MoneyRange (nValue (coin_out coin)))"

text \<open>
  When the relative lock of an input, spending a coin of height \<open>h\<close>, is satisfied in the block \<open>p\<close>: in blocks, from the block
  of the coin to this one; in units of 512 seconds, from the median time past before the block of the coin to that before
  this block.
\<close>

definition relative_lock_met :: "BlockMap \<Rightarrow> block_ptr \<Rightarrow> CBlockIndex \<Rightarrow> CTxIn \<Rightarrow> int \<Rightarrow> bool" where
  "relative_lock_met m p x txin h \<longleftrightarrow>
     (let n = int (unat (nSequence txin AND SEQUENCE_LOCKTIME_MASK)) in
      if nSequence txin AND SEQUENCE_DISABLE_FLAG \<noteq> 0 then True
      else if nSequence txin AND SEQUENCE_LOCKTIME_TYPE_FLAG \<noteq> 0 then
        the (GetMedianTimePast m (the (nth_pprev m (bi_nHeight x - nat (h - 1)) p))) + 512 * n
          \<le> the (GetMedianTimePast m (the (pprev x)))
      else h + n \<le> int (bi_nHeight x))"

text \<open>A transaction that spends the sample coin of 50 and pays 30, with a relative lock of one block.\<close>

definition example_spend :: CTransaction where
  "example_spend =
     \<lparr>vin = [\<lparr>prevout = COutPoint [7] 0, scriptSig = [], nSequence = 1, scriptWitness = []\<rparr>],
      vout = [\<lparr>nValue = 30, scriptPubKey = [0x51]\<rparr>], nVersion = 2, nLockTime = 5\<rparr>"

abbreviation example_view :: CCoinsViewCache where
  "example_view \<equiv> CCoinsViewCache_new (CoinsViewDB sample_db)"

section \<open>Reading the inputs\<close>

declare split_paired_Ex [simp del] split_paired_All [simp del]

lemma spendable_None: "u (prevout txin) = None \<Longrightarrow> \<not> spendable u h txin"
  by (simp add: spendable_def)

lemma reads_refl: "coins_ok view \<Longrightarrow> reads view view"
  by (simp add: reads_def)

lemma reads_trans: "reads a b \<Longrightarrow> reads b c \<Longrightarrow> reads a c"
  by (simp add: reads_def)

lemma reads_ok: "reads a b \<Longrightarrow> coins_ok b" "reads a b \<Longrightarrow> coins_of b = coins_of a"
  by (simp_all add: reads_def)

lemma AccessCoin_reads:
  assumes "coins_ok view"
  obtains coin view' where "AccessCoin view k = (coin, view')" "reads view view'" "live coin = coins_of view k"
  using AccessCoin_spec [of view k] assms unfolding reads_def coins_of_def coins_ok_def by metis

lemma HaveCoin_reads:
  assumes "coins_ok view"
  obtains view' where "HaveCoin view k = (coins_of view k \<noteq> None, view')" "reads view view'"
  using HaveCoin_spec [of view k] assms unfolding reads_def coins_of_def coins_ok_def by metis

lemma HaveInputs_loop_spec:
  "coins_ok view \<Longrightarrow>
     \<exists>view'. HaveInputs_loop view txins = (\<forall>txin\<in>set txins. coins_of view (prevout txin) \<noteq> None, view') \<and> reads view view'"
proof (induction txins arbitrary: view)
  case Nil
  then show ?case by (simp add: reads_refl)
next
  case (Cons txin txins)
  obtain view1 where h: "HaveCoin view (prevout txin) = (coins_of view (prevout txin) \<noteq> None, view1)" "reads view view1"
    by (rule HaveCoin_reads [OF Cons.prems])
  obtain view2 where "HaveInputs_loop view1 txins = (\<forall>txin\<in>set txins. coins_of view1 (prevout txin) \<noteq> None, view2)" "reads view1 view2"
    using Cons.IH [OF reads_ok(1) [OF h(2)]] by blast
  with h reads_trans [OF h(2)] show ?case by (auto simp: reads_ok(2) [OF h(2)])
qed

lemma HaveInputs_spec:
  assumes "coins_ok view"
  obtains view' where "HaveInputs view tx = (IsCoinBase tx \<or> (\<forall>txin\<in>set (vin tx). coins_of view (prevout txin) \<noteq> None), view')"
    "reads view view'"
proof (cases "IsCoinBase tx")
  case True
  then show thesis by (intro that [of view]) (simp_all add: HaveInputs_def reads_refl [OF assms])
next
  case False
  obtain view' where "HaveInputs_loop view (vin tx) = (\<forall>txin\<in>set (vin tx). coins_of view (prevout txin) \<noteq> None, view')" "reads view view'"
    using HaveInputs_loop_spec [OF assms] by blast
  with False show thesis by (intro that [of view']) (simp_all add: HaveInputs_def)
qed

lemma input_value_nonneg: "\<forall>txin\<in>set txins. spendable u h txin \<Longrightarrow> 0 \<le> sum_list (map (input_value u) txins)"
  by (intro sum_list_nonneg) (auto simp: spendable_def input_value_def MoneyRange_def split: option.splits)

lemma check_inputs_loop_spec:
  "coins_ok view \<Longrightarrow> \<forall>txin\<in>set txins. coins_of view (prevout txin) \<noteq> None \<Longrightarrow> MoneyRange a \<Longrightarrow>
     \<exists>r view'. check_inputs_loop h state a view txins = Inr (r, view') \<and> reads view view' \<and>
       (\<forall>s. r = Inl s \<longrightarrow> mode s \<noteq> MODE_VALID) \<and>
       (\<forall>s. r = Inr s \<longleftrightarrow> (\<forall>txin\<in>set txins. spendable (coins_of view) h txin) \<and>
          a + sum_list (map (input_value (coins_of view)) txins) \<le> MAX_MONEY \<and>
          s = a + sum_list (map (input_value (coins_of view)) txins))"
proof (induction txins arbitrary: view a)
  case Nil
  then show ?case by (auto simp: reads_refl MoneyRange_def)
next
  case (Cons txin txins)
  obtain coin view1 where c: "AccessCoin view (prevout txin) = (coin, view1)" "reads view view1" "live coin = coins_of view (prevout txin)"
    by (rule AccessCoin_reads [OF Cons.prems(1)])
  have u: "coins_of view (prevout txin) = Some coin" "\<not> IsSpent coin"
    using c(3) Cons.prems(2) by (auto simp: live_def split: if_splits)
  have v: "input_value (coins_of view) txin = nValue (coin_out coin)" by (simp add: input_value_def u)
  have err: "mode (snd (DoS n False code reason corruption debug state)) \<noteq> MODE_VALID" for n code reason corruption debug
    by (simp add: DoS_def Let_def)
  show ?case
  proof (cases "mature h coin")
    case False
    then show ?thesis using c u err by (auto simp: mature_def spendable_def Invalid_def)
  next
    case m: True
    then have nm: "\<not> (fCoinBase coin \<and> h - int (unat (coin_nHeight coin)) < COINBASE_MATURITY)" by (auto simp: mature_def)
    show ?thesis
    proof (cases "MoneyRange (nValue (coin_out coin))")
      case False
      then show ?thesis using c u nm err by (auto simp: spendable_def Let_def)
    next
      case range: True
      then have w: "wrap64 (a + nValue (coin_out coin)) = a + nValue (coin_out coin)"
        using Cons.prems(3) by (intro wrap64_id) (simp add: MoneyRange_def MAX_MONEY_def int64_range_def)
      have sp: "spendable (coins_of view) h txin" using u m range by (simp add: spendable_def)
      show ?thesis
      proof (cases "MoneyRange (a + nValue (coin_out coin))")
        case True
        have "\<forall>t\<in>set txins. coins_of view1 (prevout t) \<noteq> None" using Cons.prems(2) reads_ok(2) [OF c(2)] by auto
        from Cons.IH [OF reads_ok(1) [OF c(2)] this True] obtain r view2 where
            r: "check_inputs_loop h state (a + nValue (coin_out coin)) view1 txins = Inr (r, view2)" "reads view1 view2"
              "\<forall>s. r = Inl s \<longrightarrow> mode s \<noteq> MODE_VALID"
              "\<forall>s. r = Inr s \<longleftrightarrow> (\<forall>txin\<in>set txins. spendable (coins_of view) h txin) \<and>
                a + nValue (coin_out coin) + sum_list (map (input_value (coins_of view)) txins) \<le> MAX_MONEY \<and>
                s = a + nValue (coin_out coin) + sum_list (map (input_value (coins_of view)) txins)"
          by (simp add: reads_ok(2) [OF c(2)]) blast
        have "check_inputs_loop h state a view (txin # txins) = Inr (r, view2)"
          using c(1) u(2) nm range w True r(1) by (auto simp: Let_def)
        with r sp v reads_trans [OF c(2) r(2)] show ?thesis by (simp add: add.assoc)
      next
        case False
        have "check_inputs_loop h state a view (txin # txins) =
            Inr (Inl (snd (DoS 100 False REJECT_INVALID ''bad-txns-inputvalues-outofrange'' False [] state)), view1)"
          using c(1) u(2) nm w False by (auto simp: Let_def)
        moreover have "\<not> a + (nValue (coin_out coin) + sum_list (map (input_value (coins_of view)) txins)) \<le> MAX_MONEY"
          if "\<forall>t\<in>set txins. spendable (coins_of view) h t"
          using input_value_nonneg [OF that] False range Cons.prems(3) by (auto simp: MoneyRange_def)
        ultimately show ?thesis using c(2) v err by auto
      qed
    qed
  qed
qed

lemma CheckTxInputs_spec:
  assumes "coins_ok view" "\<not> IsCoinBase tx" "GetValueOut tx = Some value_out"
  obtains r view' where "CheckTxInputs tx state view h = Inr (r, view')" "reads view view'"
    "\<And>s. r = Inl s \<Longrightarrow> mode s \<noteq> MODE_VALID"
    "\<And>fee. r = Inr fee \<longleftrightarrow> (\<forall>txin\<in>set (vin tx). spendable (coins_of view) h txin) \<and>
       sum_list (map (input_value (coins_of view)) (vin tx)) \<le> MAX_MONEY \<and>
       value_out \<le> sum_list (map (input_value (coins_of view)) (vin tx)) \<and>
       fee = sum_list (map (input_value (coins_of view)) (vin tx)) - value_out"
proof -
  let ?in = "sum_list (map (input_value (coins_of view)) (vin tx))"
  have err: "mode (snd (DoS n False code reason corruption debug state)) \<noteq> MODE_VALID" for n code reason corruption debug
    by (simp add: DoS_def Let_def)
  have out: "0 \<le> value_out" "value_out \<le> MAX_MONEY"
    using GetValueOut_loop_iff [of 0 "vout tx" value_out] assms(3)
    by (auto simp: GetValueOut_def MoneyRange_def MAX_MONEY_def intro!: sum_list_nonneg)
  obtain view1 where v1: "HaveInputs view tx = (\<forall>txin\<in>set (vin tx). coins_of view (prevout txin) \<noteq> None, view1)" "reads view view1"
    using HaveInputs_spec [OF assms(1), of tx] assms(2) by auto
  note u1 = reads_ok [OF v1(2)]
  show thesis
  proof (cases "\<forall>txin\<in>set (vin tx). coins_of view (prevout txin) \<noteq> None")
    case False
    then have "\<not> (\<forall>txin\<in>set (vin tx). spendable (coins_of view) h txin)" using spendable_None by blast
    with False v1 err show thesis by (intro that) (auto simp: CheckTxInputs_def)
  next
    case True
    obtain r view2 where r: "check_inputs_loop h state 0 view1 (vin tx) = Inr (r, view2)" "reads view1 view2"
        "\<forall>s. r = Inl s \<longrightarrow> mode s \<noteq> MODE_VALID"
        "\<forall>s. r = Inr s \<longleftrightarrow> (\<forall>txin\<in>set (vin tx). spendable (coins_of view) h txin) \<and> ?in \<le> MAX_MONEY \<and> s = ?in"
      using check_inputs_loop_spec [OF u1(1), of "vin tx" 0 h state] True unfolding u1(2)
      by (auto simp: MoneyRange_def MAX_MONEY_def)
    have rd: "reads view view2" by (rule reads_trans [OF v1(2) r(2)])
    show thesis
    proof (cases r)
      case (Inl s)
      with r(3, 4) True v1 r(1) rd show thesis by (intro that [of "Inl s" view2]) (auto simp: CheckTxInputs_def and_then_def)
    next
      case (Inr nValueIn)
      with r(4) have n: "nValueIn = ?in" "?in \<le> MAX_MONEY" "\<forall>txin\<in>set (vin tx). spendable (coins_of view) h txin" by auto
      have pos: "0 \<le> ?in" using n(3) by (rule input_value_nonneg)
      have w: "wrap64 (?in - value_out) = ?in - value_out"
        using pos n(2) out by (intro wrap64_id) (simp add: MAX_MONEY_def int64_range_def)
      have m: "value_out \<le> ?in \<Longrightarrow> MoneyRange (?in - value_out)" using n(2) out by (simp add: MoneyRange_def)
      show thesis
      proof (cases "?in < value_out")
        case lt: True
        let ?s = "snd (DoS 100 False REJECT_INVALID ''bad-txns-in-belowout'' False
            (''value in ('' @ FormatMoney nValueIn @ '') < value out ('' @ FormatMoney value_out @ '')'') state)"
        have "CheckTxInputs tx state view h = Inr (Inl ?s, view2)"
          using Inr v1 True r(1) n(1) lt assms(3) by (simp add: CheckTxInputs_def and_then_def)
        with rd lt err show thesis by (intro that [of "Inl ?s" view2]) auto
      next
        case False
        have "CheckTxInputs tx state view h = Inr (Inr (?in - value_out), view2)"
          using Inr v1 True r(1) w m n False assms(3) by (simp add: CheckTxInputs_def and_then_def Let_def)
        with rd n False show thesis by (intro that [of "Inr (?in - value_out)" view2]) auto
      qed
    qed
  qed
qed

section \<open>Lock times\<close>

lemma median_times_total:
  "tree_ok m \<Longrightarrow> (\<And>p. pindex = Some p \<Longrightarrow> m p \<noteq> None) \<Longrightarrow>
     \<exists>ts. median_times m n pindex acc = Some ts \<and> length acc \<le> length ts \<and>
       ((\<forall>t\<in>set acc. 0 \<le> t) \<longrightarrow> (\<forall>t\<in>set ts. 0 \<le> t)) \<and> (0 < n \<and> pindex \<noteq> None \<longrightarrow> ts \<noteq> [])"
proof (induction n arbitrary: pindex acc)
  case (Suc n)
  show ?case
  proof (cases pindex)
    case (Some p)
    then obtain x where x: "m p = Some x" using Suc.prems(2) by blast
    have "m q \<noteq> None" if "pprev x = Some q" for q using tree_ok_parent(2) [OF Suc.prems(1) x that] by auto
    with Suc.IH [OF Suc.prems(1), of "pprev x" "CBlockIndex_GetBlockTime x # acc"] obtain ts where
        ts: "median_times m n (pprev x) (CBlockIndex_GetBlockTime x # acc) = Some ts" "Suc (length acc) \<le> length ts"
          "(\<forall>t\<in>set (CBlockIndex_GetBlockTime x # acc). 0 \<le> t) \<longrightarrow> (\<forall>t\<in>set ts. 0 \<le> t)" by auto
    then show ?thesis using Some x by (auto simp: CBlockIndex_GetBlockTime_def)
  qed simp
qed simp

lemma GetMedianTimePast_total:
  assumes "tree_ok m" "m p \<noteq> None"
  obtains t where "GetMedianTimePast m p = Some t" "0 \<le> t"
proof -
  obtain ts where ts: "median_times m 11 (Some p) [] = Some ts" "\<forall>t\<in>set ts. 0 \<le> t" "ts \<noteq> []"
    using median_times_total [OF assms(1), of "Some p" 11 "[]"] assms(2) by auto
  then have "sort ts ! (length ts div 2) \<in> set ts" by (metis div_less_dividend length_greater_0_conv length_sort nth_mem one_less_numeral_iff semiring_norm(76) set_sort)
  with ts show thesis by (intro that [of "sort ts ! (length ts div 2)"]) (auto simp: GetMedianTimePast_def)
qed

lemma granularity: "int (unat (push_bit 9 (w AND SEQUENCE_LOCKTIME_MASK))) = 512 * int (unat (w AND SEQUENCE_LOCKTIME_MASK))"
proof -
  have "w AND 0xFFFF \<le> (0xFFFF :: u32)" by (rule word_and_le1)
  then have "unat (w AND 0xFFFF) \<le> 0xFFFF" by (simp add: word_le_nat_alt)
  then have "take_bit 32 (unat (w AND 0xFFFF) * 512) = unat (w AND 0xFFFF) * 512" by (intro take_bit_nat_eq_self) simp
  moreover have "unat (push_bit 9 (w AND 0xFFFF)) = take_bit 32 (push_bit 9 (unat (w AND 0xFFFF)))"
    by (simp only: unsigned_push_bit_eq) simp
  ultimately show ?thesis by (simp add: push_bit_eq_mult)
qed

lemma sequence_locks_loop_spec:
  assumes tree: "tree_ok m" "m p = Some x" and prev: "pprev x = Some q0" and bt: "GetMedianTimePast m q0 = Some bt"
  shows "length txins = length heights \<Longrightarrow> \<forall>h\<in>set heights. 0 \<le> h \<and> h \<le> int (bi_nHeight x) \<Longrightarrow>
    \<exists>H T hs. sequence_locks_loop m p nH nT acc txins heights = Inr ((H, T), hs) \<and>
      (H < int (bi_nHeight x) \<and> T < bt \<longleftrightarrow>
        nH < int (bi_nHeight x) \<and> nT < bt \<and> (\<forall>(txin, h)\<in>set (zip txins heights). relative_lock_met m p x txin h))"
proof (induction txins heights arbitrary: nH nT acc rule: list_induct2')
  case (4 txin txins h heights)
  let ?n = "int (unat (nSequence txin AND SEQUENCE_LOCKTIME_MASK))"
  from 4 have len: "length txins = length heights" and hs: "\<forall>h\<in>set heights. 0 \<le> h \<and> h \<le> int (bi_nHeight x)"
    and h: "0 \<le> h" "h \<le> int (bi_nHeight x)" by auto
  note IH = 4(1) [OF len hs]
  show ?case
  proof (cases "nSequence txin AND SEQUENCE_DISABLE_FLAG = 0")
    case False
    then show ?thesis using IH [of nH nT "acc @ [0]"] by (auto simp: relative_lock_met_def Let_def)
  next
    case dis: True
    show ?thesis
    proof (cases "nSequence txin AND SEQUENCE_LOCKTIME_TYPE_FLAG = 0")
      case True
      then have "relative_lock_met m p x txin h \<longleftrightarrow> h + ?n \<le> int (bi_nHeight x)"
        using dis by (simp add: relative_lock_met_def Let_def)
      then show ?thesis using True dis IH [of "max nH (h + ?n - 1)" nT "acc @ [h]"] by auto
    next
      case False
      have le: "nat (max (h - 1) 0) \<le> bi_nHeight x" using h by auto
      then obtain q y where q: "nth_pprev m (bi_nHeight x - nat (max (h - 1) 0)) p = Some q" "m q = Some y"
        using nth_pprev_total [OF tree, of "bi_nHeight x - nat (max (h - 1) 0)"] by auto
      obtain t where t: "GetMedianTimePast m q = Some t" using GetMedianTimePast_total [OF tree(1), of q] q(2) by auto
      have anc: "GetAncestor m p (max (h - 1) 0) = Some (Some q)"
        using GetAncestor_spec [OF tree, of "max (h - 1) 0"] q(1) le h by auto
      have nat: "nat (max (h - 1) 0) = nat (h - 1)" by simp
      have eq: "sequence_locks_loop m p nH nT acc (txin # txins) (h # heights) =
          sequence_locks_loop m p nH (max nT (t + 512 * ?n - 1)) (acc @ [h]) txins heights"
        using dis False anc t by (simp add: granularity [simplified])
      have "relative_lock_met m p x txin h \<longleftrightarrow> t + 512 * ?n \<le> bt"
        using dis False q(1) t prev bt unfolding nat by (simp add: relative_lock_met_def Let_def)
      then show ?thesis using IH [of nH "max nT (t + 512 * ?n - 1)" "acc @ [h]"] unfolding eq by auto
    qed
  qed
qed auto

lemma SequenceLocks_spec:
  assumes "tree_ok m" "m p = Some x" "pprev x \<noteq> None" "length prevHeights = length (vin tx)"
    "\<forall>h\<in>set prevHeights. 0 \<le> h \<and> h \<le> int (bi_nHeight x)"
  shows "SequenceLocks tx lock_flags prevHeights m p =
    Inr ((word_of_int (nVersion tx) :: u32) \<ge> 2 \<and> lock_flags AND LOCKTIME_VERIFY_SEQUENCE \<noteq> 0 \<longrightarrow>
      (\<forall>(txin, h)\<in>set (zip (vin tx) prevHeights). relative_lock_met m p x txin h))"
proof -
  obtain q y where q: "pprev x = Some q" "m q = Some y" using tree_ok_parent(2) [OF assms(1, 2)] assms(3) by blast
  obtain bt where bt: "GetMedianTimePast m q = Some bt" "0 \<le> bt" using GetMedianTimePast_total [OF assms(1), of q] q(2) by auto
  have ev: "EvaluateSequenceLocks m p lp = Inr (fst lp < int (bi_nHeight x) \<and> snd lp < bt)" for lp
    using assms(2) q(1) bt(1) by (auto simp: EvaluateSequenceLocks_def)
  show ?thesis
  proof (cases "(word_of_int (nVersion tx) :: u32) \<ge> 2 \<and> lock_flags AND LOCKTIME_VERIFY_SEQUENCE \<noteq> 0")
    case True
    let ?all = "\<forall>(txin, h)\<in>set (zip (vin tx) prevHeights). relative_lock_met m p x txin h"
    obtain H T hs where s: "sequence_locks_loop m p (- 1) (- 1) [] (vin tx) prevHeights = Inr ((H, T), hs)"
        "H < int (bi_nHeight x) \<and> T < bt \<longleftrightarrow> - 1 < int (bi_nHeight x) \<and> - 1 < bt \<and> ?all"
      using sequence_locks_loop_spec [OF assms(1, 2) q(1) bt(1) assms(4) [symmetric] assms(5), of "- 1" "- 1" "[]"] by blast
    have "SequenceLocks tx lock_flags prevHeights m p = Inr (H < int (bi_nHeight x) \<and> T < bt)"
      using True assms(4) by (simp add: SequenceLocks_def CalculateSequenceLocks_def and_then_def s(1) ev)
    then show ?thesis unfolding s(2) using True bt(2) by simp
  next
    case False
    then show ?thesis using assms(4) ev bt(2) by (auto simp: SequenceLocks_def CalculateSequenceLocks_def and_then_def)
  qed
qed

lemma IsFinalTx_loop_iff: "IsFinalTx_loop txins \<longleftrightarrow> (\<forall>txin\<in>set txins. nSequence txin = SEQUENCE_FINAL)"
  by (induction txins) auto

lemma IsFinalTx_iff:
  "IsFinalTx tx nBlockHeight nBlockTime \<longleftrightarrow>
     nLockTime tx = 0 \<or>
     int (unat (nLockTime tx)) < (if int (unat (nLockTime tx)) < LOCKTIME_THRESHOLD then nBlockHeight else nBlockTime) \<or>
     (\<forall>txin\<in>set (vin tx). nSequence txin = SEQUENCE_FINAL)"
  by (auto simp: IsFinalTx_def IsFinalTx_loop_iff)

text \<open>What a script that checks the lock time can rely on.\<close>

lemma CheckLockTime_final:
  assumes "TransactionSignatureChecker_CheckLockTime tx nIn lock" "nIn < length (vin tx)" "IsFinalTx tx nBlockHeight nBlockTime"
  shows "lock < (if lock < LOCKTIME_THRESHOLD then nBlockHeight else nBlockTime) \<or> lock \<le> 0"
proof -
  have "nSequence (vin tx ! nIn) \<noteq> SEQUENCE_FINAL" "lock \<le> int (unat (nLockTime tx))"
      "int (unat (nLockTime tx)) < LOCKTIME_THRESHOLD \<longleftrightarrow> lock < LOCKTIME_THRESHOLD"
    using assms(1) by (auto simp: TransactionSignatureChecker_CheckLockTime_def Let_def split: if_splits)
  moreover have "vin tx ! nIn \<in> set (vin tx)" using assms(2) by simp
  ultimately show ?thesis using assms(3) by (auto simp: IsFinalTx_iff split: if_splits)
qed

lemma sequence_parts:
  fixes a :: int
  shows "a AND 0x40FFFF = (a AND 0x400000) + (a AND 0xFFFF)" "a AND 0x400000 = 0 \<or> a AND 0x400000 = 0x400000"
    "0 \<le> a AND 0xFFFF" "a AND 0xFFFF \<le> 0xFFFF"
proof -
  have "a AND 0x40FFFF = (a AND 0x400000) OR (a AND 0xFFFF)" by (simp flip: bit.conj_disj_distrib)
  moreover have "(a AND 0x400000) AND (a AND 0xFFFF) = 0"
  proof -
    have "(a AND 0x400000) AND (a AND 0xFFFF) = a AND (0x400000 AND 0xFFFF)" by (simp add: ac_simps)
    then show ?thesis by simp
  qed
  ultimately show "a AND 0x40FFFF = (a AND 0x400000) + (a AND 0xFFFF)" by (simp add: disjunctive_add_eq_or)
  have "a AND 2 ^ n = (if bit a n then 2 ^ n else 0)" for n
    by (rule bit_eqI) (auto simp: bit_and_iff bit_exp_iff)
  from this [of 22] show "a AND 0x400000 = 0 \<or> a AND 0x400000 = 0x400000" by (simp split: if_splits)
  show "0 \<le> a AND 0xFFFF" "a AND 0xFFFF \<le> 0xFFFF" by simp_all
qed

lemma int_unat_and: "int (unat (w AND v)) = int (unat w) AND int (unat v)"
  by (simp add: unsigned_and_eq of_nat_and_eq)

lemma and_zero_iff: "w AND v = 0 \<longleftrightarrow> int (unat w) AND int (unat v) = 0"
  unfolding int_unat_and [symmetric] by (simp add: unsigned_eq_0_iff)

lemma CheckSequence_met:
  assumes "TransactionSignatureChecker_CheckSequence tx nIn seq" "relative_lock_met m p x (vin tx ! nIn) h"
  shows "if seq AND 0x400000 \<noteq> 0
    then the (GetMedianTimePast m (the (nth_pprev m (bi_nHeight x - nat (h - 1)) p))) + 512 * (seq AND 0xFFFF)
      \<le> the (GetMedianTimePast m (the (pprev x)))
    else h + (seq AND 0xFFFF) \<le> int (bi_nHeight x)"
proof -
  let ?w = "nSequence (vin tx ! nIn)" let ?a = "int (unat ?w)"
  have c: "?a AND 0x80000000 = 0" "?a AND 0x40FFFF < 0x400000 \<longleftrightarrow> seq AND 0x40FFFF < 0x400000"
      "seq AND 0x40FFFF \<le> ?a AND 0x40FFFF"
    using assms(1) by (auto simp: TransactionSignatureChecker_CheckSequence_def Let_def split: if_splits)
  have w: "?w AND 0x80000000 = 0" "?w AND 0x400000 = 0 \<longleftrightarrow> ?a AND 0x400000 = 0" "int (unat (?w AND 0xFFFF)) = ?a AND 0xFFFF"
    using c(1) and_zero_iff [where w = ?w and v = "0x80000000"] and_zero_iff [where w = ?w and v = "0x400000"]
      int_unat_and [where w = ?w and v = "0xFFFF"] by simp_all
  have t: "?a AND 0x400000 = seq AND 0x400000" and v: "seq AND 0xFFFF \<le> ?a AND 0xFFFF"
    using c(2, 3) sequence_parts [where a = ?a] sequence_parts [where a = seq] by auto
  show ?thesis using assms(2) w t v by (auto simp: relative_lock_met_def Let_def split: if_splits)
qed

section \<open>The context-free checks\<close>

lemma check_outputs_loop_None:
  "MoneyRange a \<Longrightarrow> check_outputs_loop a outs = None \<longleftrightarrow>
     (\<forall>txout\<in>set outs. MoneyRange (nValue txout)) \<and> a + sum_list (map nValue outs) \<le> MAX_MONEY"
proof -
  assume a: "MoneyRange a"
  have "check_outputs_loop a outs = None \<longleftrightarrow> (\<exists>s. GetValueOut_loop a outs = Some s)"
  proof (induction outs arbitrary: a)
    case (Cons x outs)
    then show ?case by (auto simp: MoneyRange_def Let_def)
  qed simp
  with GetValueOut_loop_iff [OF a] show ?thesis by auto
qed

lemma duplicate_inputs_loop_iff:
  "duplicate_inputs_loop S txins \<longleftrightarrow> \<not> (distinct (map prevout txins) \<and> S \<inter> set (map prevout txins) = {})"
  by (induction txins arbitrary: S) auto

lemma DoS_False: "DoS n False code reason corruption debug state \<noteq> (True, state')"
  by (simp add: DoS_def Let_def)

lemma CheckTransaction_iff:
  "CheckTransaction tx state dup = (True, state') \<longleftrightarrow>
     state' = state \<and> vin tx \<noteq> [] \<and> vout tx \<noteq> [] \<and> length (SerializeTransaction False tx) * 4 \<le> 4000000 \<and>
     (\<forall>txout\<in>set (vout tx). MoneyRange (nValue txout)) \<and> sum_list (map nValue (vout tx)) \<le> MAX_MONEY \<and>
     (dup \<longrightarrow> distinct (map prevout (vin tx))) \<and>
     (if IsCoinBase tx then 2 \<le> length (scriptSig (vin tx ! 0)) \<and> length (scriptSig (vin tx ! 0)) \<le> 100
      else (\<forall>txin\<in>set (vin tx). \<not> COutPoint_IsNull (prevout txin)))"
proof -
  have m: "MoneyRange 0" by (simp add: MoneyRange_def MAX_MONEY_def)
  show ?thesis
    using check_outputs_loop_None [OF m, of "vout tx"] duplicate_inputs_loop_iff [of "{}" "vin tx"]
    by (auto simp: CheckTransaction_def DoS_False list_ex_iff split: option.split)
qed

section \<open>An example\<close>

lemma example_view_coins:
  "coins_ok example_view" "coins_of example_view (COutPoint [7] 0) = Some sample_coin"
  by (simp_all add: coins_ok_def coins_of_def CCoinsViewCache_new_def sample_db_def sample_coin_def live_def IsSpent_def CTxOut_IsNull_def)

lemma example_spend_plain: "\<not> IsCoinBase example_spend" "GetValueOut example_spend = Some 30"
  by (simp_all add: IsCoinBase_def example_spend_def COutPoint_IsNull_def GetValueOut_def MoneyRange_def MAX_MONEY_def wrap64_id int64_range_def)

section \<open>Properties\<close>

text \<open>
  C32: the context-free check accepts a transaction, without a change of the state, exactly when it has inputs and
  outputs, its size without witnesses is at most a quarter of the block weight, every output and their exact total are
  in the money range, and, when asked, no outpoint is spent twice; a coinbase has an input script of 2 to 100 bytes and
  any other transaction spends no null outpoint. A rejection leaves the state not valid.
\<close>

theorem CheckTransaction_exact:
  "(CheckTransaction tx state dup = (True, state') \<longleftrightarrow>
     state' = state \<and> vin tx \<noteq> [] \<and> vout tx \<noteq> [] \<and> length (SerializeTransaction False tx) * 4 \<le> 4000000 \<and>
     list_all (\<lambda>txout. MoneyRange (nValue txout)) (vout tx) \<and> sum_list (map nValue (vout tx)) \<le> MAX_MONEY \<and>
     (if dup then distinct (map prevout (vin tx)) else True) \<and>
     (if IsCoinBase tx then 2 \<le> length (scriptSig (vin tx ! 0)) \<and> length (scriptSig (vin tx ! 0)) \<le> 100
      else list_all (\<lambda>txin. \<not> COutPoint_IsNull (prevout txin)) (vin tx))) \<and>
   (if fst (CheckTransaction tx state dup) then True else mode (snd (CheckTransaction tx state dup)) \<noteq> MODE_VALID)"
  using CheckTransaction_iff [of tx state dup state']
  by (auto simp: list_all_iff CheckTransaction_def DoS_def Let_def split: option.split)

text \<open>
  C8: against a well-formed coin cache the check of the inputs of a transaction (not a coinbase, with outputs in range)
  never fails an assertion or throws and keeps the coins. It accepts exactly when every input is an unspent coin, which is
  mature if it comes from a coinbase and has a value in the money range, the exact total of the inputs is in range and
  covers the outputs. The fee it reports is the difference.
\<close>

theorem CheckTxInputs_exact:
  assumes "coins_ok view" "\<not> IsCoinBase tx" "GetValueOut tx = Some value_out"
  shows "\<exists>r view'. CheckTxInputs tx state view nSpendHeight = Inr (r, view') \<and> coins_ok view' \<and> coins_of view' = coins_of view \<and>
    (\<forall>fee. r = Inr fee \<longleftrightarrow>
       (\<forall>txin\<in>set (vin tx). \<exists>coin. coins_of view (prevout txin) = Some coin \<and> mature nSpendHeight coin \<and> MoneyRange (nValue (coin_out coin))) \<and>
       sum_list (map (input_value (coins_of view)) (vin tx)) \<le> MAX_MONEY \<and>
       value_out \<le> sum_list (map (input_value (coins_of view)) (vin tx)) \<and>
       fee = sum_list (map (input_value (coins_of view)) (vin tx)) - value_out) \<and>
    (\<forall>state'. r = Inl state' \<longrightarrow> mode state' \<noteq> MODE_VALID)"
proof -
  have s: "spendable u h txin \<longleftrightarrow> (\<exists>coin. u (prevout txin) = Some coin \<and> mature h coin \<and> MoneyRange (nValue (coin_out coin)))" for u h txin
    by (simp add: spendable_def split: option.split)
  obtain r view' where r: "CheckTxInputs tx state view nSpendHeight = Inr (r, view')" "reads view view'"
      "\<And>s. r = Inl s \<Longrightarrow> mode s \<noteq> MODE_VALID"
      "\<And>fee. r = Inr fee \<longleftrightarrow> (\<forall>txin\<in>set (vin tx). spendable (coins_of view) nSpendHeight txin) \<and>
         sum_list (map (input_value (coins_of view)) (vin tx)) \<le> MAX_MONEY \<and>
         value_out \<le> sum_list (map (input_value (coins_of view)) (vin tx)) \<and>
         fee = sum_list (map (input_value (coins_of view)) (vin tx)) - value_out"
    using CheckTxInputs_spec [OF assms, of state nSpendHeight] by blast
  show ?thesis by (intro exI [of _ r] exI [of _ view']) (use r reads_ok [OF r(2)] in \<open>simp add: s\<close>)
qed

theorem CheckTxInputs_exact_witness:
  "\<exists>view'. CheckTxInputs example_spend CValidationState_new example_view 100 = Inr (Inr 20, view') \<and>
     coins_of view' (COutPoint [7] 0) = Some sample_coin"
proof -
  obtain r view' where r: "CheckTxInputs example_spend CValidationState_new example_view 100 = Inr (r, view')"
      "coins_of view' = coins_of example_view"
      "r = Inr 20 \<longleftrightarrow>
        (\<forall>txin\<in>set (vin example_spend). \<exists>coin. coins_of example_view (prevout txin) = Some coin \<and> mature 100 coin \<and> MoneyRange (nValue (coin_out coin))) \<and>
        sum_list (map (input_value (coins_of example_view)) (vin example_spend)) \<le> MAX_MONEY \<and>
        30 \<le> sum_list (map (input_value (coins_of example_view)) (vin example_spend)) \<and>
        20 = sum_list (map (input_value (coins_of example_view)) (vin example_spend)) - 30"
    using CheckTxInputs_exact [OF example_view_coins(1) example_spend_plain, of CValidationState_new 100] by blast
  have "r = Inr 20"
    unfolding r(3) by (simp add: example_spend_def input_value_def example_view_coins(2) mature_def sample_coin_def MoneyRange_def MAX_MONEY_def)
  with r example_view_coins(2) show ?thesis by auto
qed

text \<open>
  C33: time locks hold. If a script of a transaction passed the check of a positive lock time and the transaction is final
  for a block, then the height (or time) of the block is beyond that lock time. If a script passed the check of a relative
  lock and the relative locks of the transaction are met in a block, then the distance in blocks (or in units of 512
  seconds of median time) from the coin spent to the block is at least what the script asked for.
\<close>

theorem time_locks_enforced:
  assumes "index_reachable sph s chain" "mapBlockIndex s p = Some x" "pprev x \<noteq> None"
    "nIn < length (vin tx)" "length heights = length (vin tx)" "\<forall>h\<in>set heights. 0 \<le> h \<and> h \<le> int (bi_nHeight x)"
  shows "(CheckLockTime (TransactionSignatureChecker V tx nIn amount txdata) lock \<and> 0 < lock \<and> IsFinalTx tx nBlockHeight nBlockTime \<longrightarrow>
      lock < (if lock < LOCKTIME_THRESHOLD then nBlockHeight else nBlockTime)) \<and>
    (CheckSequence (TransactionSignatureChecker V tx nIn amount txdata) seq \<and>
      SequenceLocks tx LOCKTIME_VERIFY_SEQUENCE heights (mapBlockIndex s) p = Inr True \<longrightarrow>
      (if seq AND 0x400000 \<noteq> 0
       then the (GetMedianTimePast (mapBlockIndex s) (the (nth_pprev (mapBlockIndex s) (bi_nHeight x - nat (heights ! nIn - 1)) p)))
           + 512 * (seq AND 0xFFFF) \<le> the (GetMedianTimePast (mapBlockIndex s) (the (pprev x)))
       else heights ! nIn + (seq AND 0xFFFF) \<le> int (bi_nHeight x)))"
proof (intro conjI impI)
  assume "CheckLockTime (TransactionSignatureChecker V tx nIn amount txdata) lock \<and> 0 < lock \<and> IsFinalTx tx nBlockHeight nBlockTime"
  then show "lock < (if lock < LOCKTIME_THRESHOLD then nBlockHeight else nBlockTime)"
    using CheckLockTime_final [OF _ assms(4)] by (fastforce simp: TransactionSignatureChecker_def)
next
  have tree: "tree_ok (mapBlockIndex s)" using index_reachable_ok [OF assms(1)] by (simp add: block_index_ok_def)
  assume seq: "CheckSequence (TransactionSignatureChecker V tx nIn amount txdata) seq \<and>
      SequenceLocks tx LOCKTIME_VERIFY_SEQUENCE heights (mapBlockIndex s) p = Inr True"
  then have c: "TransactionSignatureChecker_CheckSequence tx nIn seq" by (simp add: TransactionSignatureChecker_def)
  then have "(word_of_int (nVersion tx) :: u32) \<ge> 2"
    by (simp add: TransactionSignatureChecker_CheckSequence_def Let_def not_less split: if_splits)
  then have "\<forall>(txin, h)\<in>set (zip (vin tx) heights). relative_lock_met (mapBlockIndex s) p x txin h"
    using SequenceLocks_spec [OF tree assms(2, 3, 5, 6), of 1] seq by simp
  moreover have "(vin tx ! nIn, heights ! nIn) \<in> set (zip (vin tx) heights)"
    using assms(4, 5) by (auto simp: set_zip)
  ultimately show "if seq AND 0x400000 \<noteq> 0
       then the (GetMedianTimePast (mapBlockIndex s) (the (nth_pprev (mapBlockIndex s) (bi_nHeight x - nat (heights ! nIn - 1)) p)))
           + 512 * (seq AND 0xFFFF) \<le> the (GetMedianTimePast (mapBlockIndex s) (the (pprev x)))
       else heights ! nIn + (seq AND 0xFFFF) \<le> int (bi_nHeight x)"
    using CheckSequence_met [OF c] by blast
qed

theorem time_locks_enforced_witness:
  "\<exists>(s :: block_index_state) b y. mapBlockIndex s b = Some y \<and>
     SequenceLocks example_spend LOCKTIME_VERIFY_SEQUENCE [0] (mapBlockIndex s) b = Inr True \<and> 1 \<le> int (bi_nHeight y) \<and>
     CheckLockTime (TransactionSignatureChecker (\<lambda>_ _ _. True) example_spend 0 0 None) 5 \<and> IsFinalTx example_spend 6 0 \<and> (5 :: int) < 6"
proof -
  obtain s a b y where e: "index_reachable example_sph s (branch (mapBlockIndex s) a)" "mapBlockIndex s b = Some y" "pprev y = Some a"
    by (rule example_reachable)
  have tree: "tree_ok (mapBlockIndex s)" using index_reachable_ok [OF e(1)] by (simp add: block_index_ok_def)
  have h: "1 \<le> bi_nHeight y" using tree_ok_parent(1) [OF tree e(2)] e(3) by simp
  have sl: "SequenceLocks example_spend LOCKTIME_VERIFY_SEQUENCE [0] (mapBlockIndex s) b = Inr True"
    using SequenceLocks_spec [OF tree e(2), of "[0]" example_spend 1] e(3) h
    by (simp add: example_spend_def relative_lock_met_def)
  have c: "CheckSequence (TransactionSignatureChecker (\<lambda>_ _ _. True) example_spend 0 0 None) 1"
      "CheckLockTime (TransactionSignatureChecker (\<lambda>_ _ _. True) example_spend 0 0 None) 5"
    by (simp_all add: TransactionSignatureChecker_def TransactionSignatureChecker_CheckSequence_def TransactionSignatureChecker_CheckLockTime_def example_spend_def)
  have f: "IsFinalTx example_spend 6 0" by (simp add: IsFinalTx_def example_spend_def)
  note t = time_locks_enforced [OF e(1, 2), of 0 example_spend "[0]" "\<lambda>_ _ _. True" 0 None 5 6 0 1]
  have "1 \<le> int (bi_nHeight y) \<and> (5 :: int) < 6" using t e(3) sl c f by (simp add: example_spend_def)
  with e(2) sl c f show ?thesis by blast
qed

end
