(* ===== verification/VersionBits.thy ===== *)
theory VersionBits
  imports Pow TxVerify
begin

text \<open>
  The activation of rule changes by miners (\<^verbatim>\<open>src/src/versionbits.cpp\<close>, \<^verbatim>\<open>src/src/versionbits.h\<close>) and the version of new
  blocks (\<^verbatim>\<open>ComputeBlockVersion\<close> of \<^verbatim>\<open>src/src/validation.cpp\<close>).

  The class \<^verbatim>\<open>AbstractThresholdConditionChecker\<close> is the record of its virtual functions, each applied to the parameters.  A
  cache is a map from blocks (\<^const>\<open>None\<close> is the null pointer) to states.  \<^const>\<open>None\<close> as a result is a null pointer that is
  followed, a failed assertion or a loop that does not end.
\<close>

unbundle bit_operations_syntax

section \<open>Threshold states\<close>

datatype ThresholdState =
  THRESHOLD_DEFINED | THRESHOLD_STARTED | THRESHOLD_LOCKED_IN | THRESHOLD_ACTIVE | THRESHOLD_FAILED

type_synonym ThresholdConditionCache = "block_ptr option \<Rightarrow> ThresholdState option"

record ThresholdConditionChecker =
  Condition :: "CBlockIndex \<Rightarrow> bool"
  BeginTime :: int
  EndTime :: int
  Period :: int
  Threshold :: int

text \<open>
  The last block of the period before the block after \<open>p\<close>; a division by zero is \<^const>\<open>None\<close>.  The remainder of a height by a
  negative number is the one by its absolute value.
\<close>

definition period_parent :: "BlockMap \<Rightarrow> ThresholdConditionChecker \<Rightarrow> block_ptr \<Rightarrow> block_ptr option option" where
  "period_parent m checker p =
     (case m p of
        None \<Rightarrow> None
      | Some x \<Rightarrow>
          if Period checker = 0 then None
          else GetAncestor m p (int (bi_nHeight x) - (int (bi_nHeight x) + 1) mod \<bar>Period checker\<bar>))"

text \<open>The walk back to a block whose state is known; the blocks passed are returned, the last one first.\<close>

partial_function (option) walk_back :: "BlockMap \<Rightarrow> ThresholdConditionChecker \<Rightarrow> ThresholdConditionCache \<Rightarrow> block_ptr list
    \<Rightarrow> block_ptr option \<Rightarrow> (ThresholdConditionCache \<times> block_ptr list \<times> block_ptr option) option" where
  "walk_back m checker cache vToCompute pindexPrev =
     (if cache pindexPrev \<noteq> None then Some (cache, vToCompute, pindexPrev)
      else
        (case pindexPrev of
           None \<Rightarrow> Some (cache(None \<mapsto> THRESHOLD_DEFINED), vToCompute, None)
         | Some p \<Rightarrow>
             (case (m p, GetMedianTimePast m p) of
                (Some x, Some mtp) \<Rightarrow>
                  if mtp < BeginTime checker then Some (cache(Some p \<mapsto> THRESHOLD_DEFINED), vToCompute, Some p)
                  else
                    (case GetAncestor m p (int (bi_nHeight x) - Period checker) of
                       None \<Rightarrow> None
                     | Some q \<Rightarrow> walk_back m checker cache (p # vToCompute) q)
              | _ \<Rightarrow> None)))"

fun count_signals :: "BlockMap \<Rightarrow> ThresholdConditionChecker \<Rightarrow> nat \<Rightarrow> block_ptr option \<Rightarrow> int \<Rightarrow> int option" where
  "count_signals m checker 0 pindexCount count = Some count"
| "count_signals m checker (Suc n) None count = None"
| "count_signals m checker (Suc n) (Some p) count =
     (case m p of
        None \<Rightarrow> None
      | Some x \<Rightarrow> count_signals m checker n (pprev x) (if Condition checker x then count + 1 else count))"

text \<open>The body of the loop that walks forward: the state after the block \<open>p\<close>, given the one before.\<close>

fun next_state :: "BlockMap \<Rightarrow> ThresholdConditionChecker \<Rightarrow> block_ptr \<Rightarrow> ThresholdState \<Rightarrow> ThresholdState option" where
  "next_state m checker p THRESHOLD_DEFINED =
     (case GetMedianTimePast m p of
        None \<Rightarrow> None
      | Some mtp \<Rightarrow>
          Some (if mtp \<ge> EndTime checker then THRESHOLD_FAILED
                else if mtp \<ge> BeginTime checker then THRESHOLD_STARTED
                else THRESHOLD_DEFINED))"
| "next_state m checker p THRESHOLD_STARTED =
     (case GetMedianTimePast m p of
        None \<Rightarrow> None
      | Some mtp \<Rightarrow>
          if mtp \<ge> EndTime checker then Some THRESHOLD_FAILED
          else
            (case count_signals m checker (nat (Period checker)) (Some p) 0 of
               None \<Rightarrow> None
             | Some count \<Rightarrow> Some (if count \<ge> Threshold checker then THRESHOLD_LOCKED_IN else THRESHOLD_STARTED)))"
| "next_state m checker p THRESHOLD_LOCKED_IN = Some THRESHOLD_ACTIVE"
| "next_state m checker p THRESHOLD_FAILED = Some THRESHOLD_FAILED"
| "next_state m checker p THRESHOLD_ACTIVE = Some THRESHOLD_ACTIVE"

fun walk_forward :: "BlockMap \<Rightarrow> ThresholdConditionChecker \<Rightarrow> ThresholdConditionCache \<Rightarrow> ThresholdState \<Rightarrow> block_ptr list
    \<Rightarrow> (ThresholdState \<times> ThresholdConditionCache) option" where
  "walk_forward m checker cache state [] = Some (state, cache)"
| "walk_forward m checker cache state (p # vToCompute) =
     (case next_state m checker p state of
        None \<Rightarrow> None
      | Some stateNext \<Rightarrow> walk_forward m checker (cache(Some p \<mapsto> stateNext)) stateNext vToCompute)"

definition GetStateFor :: "BlockMap \<Rightarrow> ThresholdConditionChecker \<Rightarrow> block_ptr option \<Rightarrow> ThresholdConditionCache
    \<Rightarrow> (ThresholdState \<times> ThresholdConditionCache) option" where
  "GetStateFor m checker pindexPrev cache =
     (case (case pindexPrev of None \<Rightarrow> Some None | Some p \<Rightarrow> period_parent m checker p) of
        None \<Rightarrow> None
      | Some start \<Rightarrow>
          (case walk_back m checker cache [] start of
             None \<Rightarrow> None
           | Some (cache', vToCompute, q) \<Rightarrow>
               (case cache' q of
                  None \<Rightarrow> None
                | Some state \<Rightarrow> walk_forward m checker cache' state vToCompute)))"

section \<open>Statistics\<close>

record BIP9Stats =
  stats_period :: int
  stats_threshold :: int
  stats_elapsed :: int
  stats_count :: int
  stats_possible :: bool

partial_function (option) stats_loop :: "BlockMap \<Rightarrow> ThresholdConditionChecker \<Rightarrow> nat \<Rightarrow> block_ptr option \<Rightarrow> int \<Rightarrow> int option" where
  "stats_loop m checker height currentIndex count =
     (case currentIndex of
        None \<Rightarrow> None
      | Some p \<Rightarrow>
          (case m p of
             None \<Rightarrow> None
           | Some x \<Rightarrow>
               if height \<noteq> bi_nHeight x then stats_loop m checker height (pprev x) (if Condition checker x then count + 1 else count)
               else Some count))"

definition GetStateStatisticsFor :: "BlockMap \<Rightarrow> ThresholdConditionChecker \<Rightarrow> block_ptr option \<Rightarrow> BIP9Stats option" where
  "GetStateStatisticsFor m checker pindex =
     (case pindex of
        None \<Rightarrow>
          Some \<lparr>stats_period = Period checker, stats_threshold = Threshold checker, stats_elapsed = 0, stats_count = 0, stats_possible = False\<rparr>
      | Some p \<Rightarrow>
          (case (m p, period_parent m checker p) of
             (Some x, Some (Some q)) \<Rightarrow>
               (case m q of
                  None \<Rightarrow> None
                | Some y \<Rightarrow>
                    (case stats_loop m checker (bi_nHeight y) (Some p) 0 of
                       None \<Rightarrow> None
                     | Some count \<Rightarrow>
                         let elapsed = int (bi_nHeight x) - int (bi_nHeight y) in
                         Some \<lparr>stats_period = Period checker, stats_threshold = Threshold checker, stats_elapsed = elapsed, stats_count = count,
                               stats_possible = (Period checker - Threshold checker \<ge> elapsed - count)\<rparr>))
           | _ \<Rightarrow> None))"

section \<open>Since when\<close>

partial_function (option) since_loop :: "BlockMap \<Rightarrow> ThresholdConditionChecker \<Rightarrow> ThresholdState \<Rightarrow> ThresholdConditionCache
    \<Rightarrow> block_ptr \<Rightarrow> (int \<times> ThresholdConditionCache) option" where
  "since_loop m checker initialState cache pindexPrev =
     (case m pindexPrev of
        None \<Rightarrow> None
      | Some x \<Rightarrow>
          (case GetAncestor m pindexPrev (int (bi_nHeight x) - Period checker) of
             None \<Rightarrow> None
           | Some None \<Rightarrow> Some (int (bi_nHeight x) + 1, cache)
           | Some (Some q) \<Rightarrow>
               (case GetStateFor m checker (Some q) cache of
                  None \<Rightarrow> None
                | Some (state, cache') \<Rightarrow>
                    if state = initialState then since_loop m checker initialState cache' q
                    else Some (int (bi_nHeight x) + 1, cache'))))"

definition GetStateSinceHeightFor :: "BlockMap \<Rightarrow> ThresholdConditionChecker \<Rightarrow> block_ptr option \<Rightarrow> ThresholdConditionCache
    \<Rightarrow> (int \<times> ThresholdConditionCache) option" where
  "GetStateSinceHeightFor m checker pindexPrev cache =
     (case GetStateFor m checker pindexPrev cache of
        None \<Rightarrow> None
      | Some (initialState, cache') \<Rightarrow>
          if initialState = THRESHOLD_DEFINED then Some (0, cache')
          else
            (case pindexPrev of
               None \<Rightarrow> None
             | Some p \<Rightarrow>
                 (case period_parent m checker p of
                    Some (Some q) \<Rightarrow> since_loop m checker initialState cache' q
                  | _ \<Rightarrow> None)))"

section \<open>Deployments\<close>

abbreviation (input) VERSIONBITS_TOP_BITS :: u32 where "VERSIONBITS_TOP_BITS \<equiv> 0x20000000"
abbreviation (input) VERSIONBITS_TOP_MASK :: u32 where "VERSIONBITS_TOP_MASK \<equiv> 0xE0000000"

definition VersionBitsMask :: "ConsensusParams \<Rightarrow> nat \<Rightarrow> u32" where
  "VersionBitsMask params pos = push_bit (nat (deployment_bit (vDeployments params ! pos))) 1"

definition VersionBitsConditionChecker :: "ConsensusParams \<Rightarrow> nat \<Rightarrow> ThresholdConditionChecker" where
  "VersionBitsConditionChecker params pos =
     \<lparr>Condition = (\<lambda>x. word_of_int (bi_nVersion x) AND VERSIONBITS_TOP_MASK = VERSIONBITS_TOP_BITS \<and>
                       word_of_int (bi_nVersion x) AND VersionBitsMask params pos \<noteq> 0),
      BeginTime = deployment_nStartTime (vDeployments params ! pos),
      EndTime = deployment_nTimeout (vDeployments params ! pos),
      Period = sint (ucast (nMinerConfirmationWindow params) :: 32 word),
      Threshold = sint (ucast (nRuleChangeActivationThreshold params) :: 32 word)\<rparr>"

definition VersionBitsState :: "BlockMap \<Rightarrow> block_ptr option \<Rightarrow> ConsensusParams \<Rightarrow> nat \<Rightarrow> (nat \<Rightarrow> ThresholdConditionCache)
    \<Rightarrow> (ThresholdState \<times> (nat \<Rightarrow> ThresholdConditionCache)) option" where
  "VersionBitsState m pindexPrev params pos caches =
     (case GetStateFor m (VersionBitsConditionChecker params pos) pindexPrev (caches pos) of
        None \<Rightarrow> None
      | Some (state, cache) \<Rightarrow> Some (state, caches(pos := cache)))"

definition VersionBitsStateSinceHeight :: "BlockMap \<Rightarrow> block_ptr option \<Rightarrow> ConsensusParams \<Rightarrow> nat \<Rightarrow> (nat \<Rightarrow> ThresholdConditionCache)
    \<Rightarrow> (int \<times> (nat \<Rightarrow> ThresholdConditionCache)) option" where
  "VersionBitsStateSinceHeight m pindexPrev params pos caches =
     (case GetStateSinceHeightFor m (VersionBitsConditionChecker params pos) pindexPrev (caches pos) of
        None \<Rightarrow> None
      | Some (height, cache) \<Rightarrow> Some (height, caches(pos := cache)))"

definition VersionBitsStatistics :: "BlockMap \<Rightarrow> block_ptr option \<Rightarrow> ConsensusParams \<Rightarrow> nat \<Rightarrow> BIP9Stats option" where
  "VersionBitsStatistics m pindexPrev params pos = GetStateStatisticsFor m (VersionBitsConditionChecker params pos) pindexPrev"

definition VersionBitsCache_Clear :: "(nat \<Rightarrow> ThresholdConditionCache) \<Rightarrow> nat \<Rightarrow> ThresholdConditionCache" where
  "VersionBitsCache_Clear caches = (\<lambda>_. Map.empty)"

text \<open>The loop of \<^verbatim>\<open>ComputeBlockVersion\<close> over the deployments.\<close>

fun block_version_loop :: "BlockMap \<Rightarrow> block_ptr option \<Rightarrow> ConsensusParams \<Rightarrow> nat list \<Rightarrow> u32 \<Rightarrow> (nat \<Rightarrow> ThresholdConditionCache)
    \<Rightarrow> (u32 \<times> (nat \<Rightarrow> ThresholdConditionCache)) option" where
  "block_version_loop m pindexPrev params [] version caches = Some (version, caches)"
| "block_version_loop m pindexPrev params (i # is) version caches =
     (case VersionBitsState m pindexPrev params i caches of
        None \<Rightarrow> None
      | Some (state, caches') \<Rightarrow>
          block_version_loop m pindexPrev params is
            (if state = THRESHOLD_LOCKED_IN \<or> state = THRESHOLD_STARTED then version OR VersionBitsMask params i else version)
            caches')"

definition ComputeBlockVersion :: "BlockMap \<Rightarrow> block_ptr option \<Rightarrow> ConsensusParams \<Rightarrow> (nat \<Rightarrow> ThresholdConditionCache)
    \<Rightarrow> (int \<times> (nat \<Rightarrow> ThresholdConditionCache)) option" where
  "ComputeBlockVersion m pindexPrev params caches =
     (case block_version_loop m pindexPrev params [0..<length (vDeployments params)] VERSIONBITS_TOP_BITS caches of
        None \<Rightarrow> None
      | Some (version, caches') \<Rightarrow> Some (sint version, caches'))"

section \<open>Specifications of deployment states\<close>

text \<open>The number of the last \<open>n\<close> blocks up to \<open>p\<close> that signal.\<close>

definition signals :: "BlockMap \<Rightarrow> ThresholdConditionChecker \<Rightarrow> nat \<Rightarrow> block_ptr \<Rightarrow> nat" where
  "signals m c n p =
     length (filter (\<lambda>i. case nth_pprev m i p of None \<Rightarrow> False | Some q \<Rightarrow> (case m q of None \<Rightarrow> False | Some x \<Rightarrow> Condition c x)) [0..<n])"

text \<open>One period: the transition on the median time and the signals at its end.\<close>

fun bip9_next :: "ThresholdConditionChecker \<Rightarrow> int \<Rightarrow> nat \<Rightarrow> ThresholdState \<Rightarrow> ThresholdState" where
  "bip9_next c t votes THRESHOLD_DEFINED =
     (if t \<ge> EndTime c then THRESHOLD_FAILED else if t \<ge> BeginTime c then THRESHOLD_STARTED else THRESHOLD_DEFINED)"
| "bip9_next c t votes THRESHOLD_STARTED =
     (if t \<ge> EndTime c then THRESHOLD_FAILED else if int votes \<ge> Threshold c then THRESHOLD_LOCKED_IN else THRESHOLD_STARTED)"
| "bip9_next c t votes THRESHOLD_LOCKED_IN = THRESHOLD_ACTIVE"
| "bip9_next c t votes THRESHOLD_ACTIVE = THRESHOLD_ACTIVE"
| "bip9_next c t votes THRESHOLD_FAILED = THRESHOLD_FAILED"

text \<open>The last block of the period before the one that ends with \<open>p\<close>.\<close>

definition period_before :: "BlockMap \<Rightarrow> ThresholdConditionChecker \<Rightarrow> block_ptr \<Rightarrow> block_ptr option" where
  "period_before m c p =
     (case m p of
        None \<Rightarrow> None
      | Some x \<Rightarrow> if int (bi_nHeight x) < Period c then None else nth_pprev m (nat (Period c)) p)"

text \<open>The state after the block \<open>p\<close>, from the first period on: no cache and no shortcut.\<close>

inductive bip9_state :: "BlockMap \<Rightarrow> ThresholdConditionChecker \<Rightarrow> block_ptr option \<Rightarrow> ThresholdState \<Rightarrow> bool" for m c where
  bip9_start: "bip9_state m c None THRESHOLD_DEFINED"
| bip9_period:
    "m p = Some x \<Longrightarrow> GetMedianTimePast m p = Some t \<Longrightarrow>
     bip9_state m c (period_before m c p) s \<Longrightarrow>
     bip9_state m c (Some p) (bip9_next c t (signals m c (nat (Period c)) p) s)"

text \<open>The last block of a period.\<close>

definition ends_period :: "BlockMap \<Rightarrow> ThresholdConditionChecker \<Rightarrow> block_ptr option \<Rightarrow> bool" where
  "ends_period m c k \<longleftrightarrow> (case k of None \<Rightarrow> True | Some p \<Rightarrow> (\<exists>x. m p = Some x \<and> (int (bi_nHeight x) + 1) mod Period c = 0))"

definition cache_states_ok :: "BlockMap \<Rightarrow> ThresholdConditionChecker \<Rightarrow> ThresholdConditionCache \<Rightarrow> bool" where
  "cache_states_ok m c cache \<longleftrightarrow> (\<forall>k s. cache k = Some s \<longrightarrow> bip9_state m c k s)"

text \<open>Every block is later than the median time of the blocks before it, which headers are checked for.\<close>

definition times_ok :: "BlockMap \<Rightarrow> bool" where
  "times_ok m \<longleftrightarrow>
     (\<forall>p x q t. m p = Some x \<longrightarrow> pprev x = Some q \<longrightarrow> GetMedianTimePast m q = Some t \<longrightarrow> t < CBlockIndex_GetBlockTime x)"

text \<open>A period of at least one block and a start before the timeout.\<close>

definition checker_ok :: "ThresholdConditionChecker \<Rightarrow> bool" where
  "checker_ok c \<longleftrightarrow> 0 < Period c \<and> BeginTime c \<le> EndTime c"

text \<open>The state for the block after \<open>k\<close> is that after the last complete period.\<close>

definition last_period_end :: "BlockMap \<Rightarrow> ThresholdConditionChecker \<Rightarrow> block_ptr option \<Rightarrow> block_ptr option" where
  "last_period_end m c k =
     (case k of
        None \<Rightarrow> None
      | Some p \<Rightarrow>
          (case m p of
             None \<Rightarrow> None
           | Some x \<Rightarrow>
               let r = (bi_nHeight x + 1) mod nat (Period c) in
               if bi_nHeight x < r then None else nth_pprev m r p))"

text \<open>The state \<open>s\<close>, which holds after the period that ends with \<open>p\<close>, does so since the given height.\<close>

inductive holds_since :: "BlockMap \<Rightarrow> ThresholdConditionChecker \<Rightarrow> ThresholdState \<Rightarrow> block_ptr \<Rightarrow> int \<Rightarrow> bool" for m c s where
  since_here:
    "m p = Some x \<Longrightarrow> bip9_state m c (Some p) s \<Longrightarrow> bip9_state m c (period_before m c p) s' \<Longrightarrow> s' \<noteq> s \<Longrightarrow>
     holds_since m c s p (int (bi_nHeight x) + 1)"
| since_before:
    "bip9_state m c (Some p) s \<Longrightarrow> period_before m c p = Some q \<Longrightarrow> holds_since m c s q h \<Longrightarrow> holds_since m c s p h"

text \<open>Two blocks that signal, and periods of one block.\<close>

definition signal_block1 :: CBlockIndex where
  "signal_block1 = (CBlockIndex_new (example_header [] 0))\<lparr>bi_nVersion := 0x30000000\<rparr>"

definition signal_block2 :: CBlockIndex where
  "signal_block2 = signal_block1\<lparr>pprev := Some [1], bi_nHeight := 1, bi_nTime := 1001\<rparr>"

definition signal_tree :: BlockMap where
  "signal_tree = [[1] \<mapsto> signal_block1, [2] \<mapsto> signal_block2]"

definition signal_params :: ConsensusParams where
  "signal_params =
     (CMainParams_consensus [])\<lparr>nRuleChangeActivationThreshold := 1, nMinerConfirmationWindow := 1,
        vDeployments := [\<lparr>deployment_bit = 28, deployment_nStartTime = 1000, deployment_nTimeout = 5000\<rparr>]\<rparr>"

abbreviation signal_checker :: ThresholdConditionChecker where
  "signal_checker \<equiv> VersionBitsConditionChecker signal_params 0"

section \<open>The state of a deployment by its definition\<close>

inductive_cases bip9_NoneE: "bip9_state m c None s"
inductive_cases bip9_SomeE: "bip9_state m c (Some p) s"

section \<open>Median times grow along a branch\<close>

lemma sorted_nth_ge_iff:
  fixes ys :: "int list"
  shows "sorted ys \<Longrightarrow> k < length ys \<Longrightarrow> c \<le> ys ! k \<longleftrightarrow> length (filter (\<lambda>y. y < c) ys) \<le> k"
proof (induction ys arbitrary: k)
  case (Cons a ys)
  show ?case
  proof (cases "a < c")
    case True
    then show ?thesis using Cons by (cases k) auto
  next
    case False
    then have "filter (\<lambda>y. y < c) (a # ys) = []" "c \<le> y" if "y \<in> set (a # ys)" for y
      using Cons.prems(1) that by (force simp: filter_empty_conv)+
    then show ?thesis using Cons.prems(2) nth_mem [of k "a # ys"] by (metis le0 list.set_intros(1) list.size(3))
  qed
qed simp

lemma sort_nth_ge_iff:
  fixes xs :: "int list"
  shows "k < length xs \<Longrightarrow> c \<le> sort xs ! k \<longleftrightarrow> length (filter (\<lambda>x. x < c) xs) \<le> k"
  using sorted_nth_ge_iff [of "sort xs" k c] by (simp add: filter_sort)

text \<open>A window whose oldest entry may be dropped and that gets a later one than its median.\<close>

lemma median_mono:
  fixes ts :: "int list"
  assumes "ts \<noteq> []" "sort ts ! (length ts div 2) < t" "ts' = ts @ [t] \<or> odd (length ts) \<and> ts' = tl ts @ [t]"
  shows "sort ts ! (length ts div 2) \<le> sort ts' ! (length ts' div 2)"
proof -
  let ?c = "sort ts ! (length ts div 2)"
  have l: "length (filter (\<lambda>x. x < ?c) ts) \<le> length ts div 2"
    using sort_nth_ge_iff [of "length ts div 2" ts ?c] assms(1) by simp
  have tl: "length (filter P (tl ts)) \<le> length (filter P ts)" for P using assms(1) by (cases ts) auto
  have "length (filter (\<lambda>x. x < ?c) ts') \<le> length ts' div 2"
    using assms(2, 3) l tl [of "\<lambda>x. x < ?c"] assms(1) by auto
  moreover have "length ts' div 2 < length ts'" using assms(1, 3) by auto
  ultimately show ?thesis using sort_nth_ge_iff [of "length ts' div 2" ts' ?c] by simp
qed

lemma median_times_append:
  "median_times m n k (acc @ [t]) = map_option (\<lambda>ts. ts @ [t]) (median_times m n k acc)"
proof (induction n arbitrary: k acc)
  case (Suc n)
  then show ?case using Suc [of _ "_ # acc"] by (cases k) (auto split: option.splits)
qed simp

lemma median_times_Suc:
  "tree_ok m \<Longrightarrow> (\<And>p. k = Some p \<Longrightarrow> m p \<noteq> None) \<Longrightarrow> median_times m (Suc n) k acc = Some ts \<Longrightarrow>
     median_times m n k acc = Some ts \<or> n + length acc < length ts \<and> median_times m n k acc = Some (tl ts)"
proof (induction n arbitrary: k acc)
  case 0
  then show ?case by (cases k) (auto split: option.splits)
next
  case (Suc n)
  show ?case
  proof (cases k)
    case (Some p)
    then obtain x where x: "m p = Some x" using Suc.prems(2) by blast
    have "m q \<noteq> None" if "pprev x = Some q" for q using tree_ok_parent(2) [OF Suc.prems(1) x that] by auto
    with Suc.IH [OF Suc.prems(1), of "pprev x" "CBlockIndex_GetBlockTime x # acc"] Suc.prems(3) Some x show ?thesis
      by (auto simp del: median_times.simps(3) simp: median_times.simps(3) [of m "Suc n"] median_times.simps(3) [of m n])
  qed (use Suc.prems(3) in simp)
qed

lemma median_times_length: "median_times m n k acc = Some ts \<Longrightarrow> length ts \<le> n + length acc"
proof (induction n arbitrary: k acc)
  case (Suc n)
  then show ?case using Suc.IH [of _ "_ # acc"] by (cases k) (fastforce split: option.splits)+
qed simp

lemma median_time_parent:
  assumes "tree_ok m" "times_ok m" "m p = Some x" "pprev x = Some q" "GetMedianTimePast m q = Some t" "GetMedianTimePast m p = Some t'"
  shows "t \<le> t'"
proof -
  obtain y where y: "m q = Some y" using tree_ok_parent(2) [OF assms(1, 3, 4)] by blast
  obtain ts where ts: "median_times m 11 (Some q) [] = Some ts" "t = sort ts ! (length ts div 2)"
    using assms(5) by (auto simp: GetMedianTimePast_def split: option.splits)
  then have "ts \<noteq> []" using median_times_total [OF assms(1), of "Some q" 11 "[]"] y by auto
  have eleven: "(11 :: nat) = Suc 10" by simp
  have step: "median_times m 10 (Some q) [] = Some ts \<or> 10 < length ts \<and> median_times m 10 (Some q) [] = Some (tl ts)"
    using median_times_Suc [OF assms(1), of "Some q" 10 "[]" ts] y ts(1) unfolding eleven by force
  have "median_times m 11 (Some p) [] = median_times m 10 (Some q) ([] @ [CBlockIndex_GetBlockTime x])"
    unfolding eleven median_times.simps(3) using assms(3, 4) by simp
  with step have "median_times m 11 (Some p) [] = Some (ts @ [CBlockIndex_GetBlockTime x]) \<or>
      length ts = 11 \<and> median_times m 11 (Some p) [] = Some (tl ts @ [CBlockIndex_GetBlockTime x])"
    unfolding median_times_append using median_times_length [OF ts(1)] by auto
  then obtain ts' where ts': "median_times m 11 (Some p) [] = Some ts'"
      "ts' = ts @ [CBlockIndex_GetBlockTime x] \<or> odd (length ts) \<and> ts' = tl ts @ [CBlockIndex_GetBlockTime x]" by auto
  have "t < CBlockIndex_GetBlockTime x" using assms(2-5) by (simp add: times_ok_def)
  with median_mono [OF \<open>ts \<noteq> []\<close> _ ts'(2)] ts(2) ts'(1) assms(6) show ?thesis by (simp add: GetMedianTimePast_def)
qed

lemma median_time_ancestor:
  assumes "tree_ok m" "times_ok m"
  shows "m p = Some x \<Longrightarrow> nth_pprev m n p = Some q \<Longrightarrow> GetMedianTimePast m q = Some t \<Longrightarrow> GetMedianTimePast m p = Some t' \<Longrightarrow> t \<le> t'"
proof (induction n arbitrary: p x t')
  case (Suc n)
  then obtain r where r: "pprev x = Some r" "nth_pprev m n r = Some q" by (auto split: option.splits)
  obtain y where y: "m r = Some y" using tree_ok_parent(2) [OF assms(1) Suc.prems(1) r(1)] by blast
  obtain u where u: "GetMedianTimePast m r = Some u" using GetMedianTimePast_total [OF assms(1), of r] y by auto
  show ?case using Suc.IH [OF y r(2) Suc.prems(3) u] median_time_parent [OF assms Suc.prems(1) r(1) u Suc.prems(4)] by simp
qed simp

section \<open>The state is unique and always exists\<close>

lemma bip9_state_unique: "bip9_state m c k s \<Longrightarrow> bip9_state m c k s' \<Longrightarrow> s' = s"
proof (induction arbitrary: s' rule: bip9_state.induct)
  case bip9_start
  then show ?case by (auto elim: bip9_NoneE)
next
  case (bip9_period p x t s)
  from bip9_period.prems show ?case by (rule bip9_SomeE) (use bip9_period in auto)
qed

text \<open>Before the start time a deployment is defined only.\<close>

lemma bip9_state_early:
  assumes "tree_ok m" "times_ok m" "checker_ok c"
  shows "bip9_state m c k s \<Longrightarrow> (\<And>p. k = Some p \<Longrightarrow> \<exists>t. GetMedianTimePast m p = Some t \<and> t < BeginTime c) \<Longrightarrow> s = THRESHOLD_DEFINED"
proof (induction rule: bip9_state.induct)
  case (bip9_period p x t s)
  have t: "t < BeginTime c" using bip9_period.prems bip9_period.hyps(2) by auto
  have "\<exists>u. GetMedianTimePast m q = Some u \<and> u < BeginTime c" if q: "nth_pprev m (nat (Period c)) p = Some q" "\<not> int (bi_nHeight x) < Period c" for q
  proof -
    obtain y where "m q = Some y" using nth_pprev_total [OF assms(1) bip9_period.hyps(1), of "nat (Period c)"] q by fastforce
    then obtain u where u: "GetMedianTimePast m q = Some u" using GetMedianTimePast_total [OF assms(1), of q] by auto
    with median_time_ancestor [OF assms(1, 2) bip9_period.hyps(1) q(1) u bip9_period.hyps(2)] t show ?thesis by simp
  qed
  then have "s = THRESHOLD_DEFINED" using bip9_period.hyps(1) by (intro bip9_period.IH) (auto simp: period_before_def split: if_splits)
  then show ?case using t assms(3) by (simp add: checker_ok_def)
qed simp

lemma signals_Suc:
  assumes "m p = Some x"
  shows "signals m c (Suc n) p = (if Condition c x then 1 else 0) + (case pprev x of None \<Rightarrow> 0 | Some q \<Rightarrow> signals m c n q)"
proof -
  have "[0..<Suc n] = 0 # map Suc [0..<n]" by (simp only: upt_conv_Cons zero_less_Suc map_Suc_upt)
  then show ?thesis using assms by (auto simp: signals_def filter_map o_def split: option.splits)
qed

lemma count_signals_spec:
  assumes "tree_ok m"
  shows "m p = Some x \<Longrightarrow> n \<le> bi_nHeight x + 1 \<Longrightarrow> count_signals m c n (Some p) k = Some (k + int (signals m c n p))"
proof (induction n arbitrary: p x k)
  case (Suc n)
  show ?case
  proof (cases "pprev x")
    case None
    then have "n = 0" using tree_ok_parent(1) [OF assms Suc.prems(1)] Suc.prems(2) by simp
    then show ?thesis using Suc.prems(1) None by (simp add: signals_Suc)
  next
    case (Some q)
    then obtain y where "m q = Some y" "bi_nHeight x = bi_nHeight y + 1" using tree_ok_parent(2) [OF assms Suc.prems(1)] by blast
    with Suc.IH [of q y] Suc.prems Some show ?thesis by (simp add: signals_Suc)
  qed
qed (simp add: signals_def)

lemma GetAncestor_period:
  assumes "tree_ok m" "m p = Some x" "0 < Period c"
  shows "GetAncestor m p (int (bi_nHeight x) - Period c) = Some (period_before m c p)"
  using assms(2, 3) by (subst GetAncestor_spec [OF assms(1, 2)]) (simp add: period_before_def not_less nat_diff_distrib)

lemma period_before_block:
  assumes "tree_ok m" "0 < Period c" "period_before m c p = Some q"
  obtains x y where "m p = Some x" "m q = Some y" "int (bi_nHeight y) = int (bi_nHeight x) - Period c" "nth_pprev m (nat (Period c)) p = Some q"
proof -
  from assms(3) obtain x where x: "m p = Some x" "\<not> int (bi_nHeight x) < Period c" "nth_pprev m (nat (Period c)) p = Some q"
    by (auto simp: period_before_def split: option.splits if_splits)
  with nth_pprev_total [OF assms(1) x(1), of "nat (Period c)"] obtain y where "m q = Some y" "bi_nHeight y = bi_nHeight x - nat (Period c)"
    by fastforce
  with that [of x y] x assms(2) show thesis by simp
qed

lemma period_before_ends:
  assumes "tree_ok m" "0 < Period c" "ends_period m c (Some p)"
  shows "ends_period m c (period_before m c p)"
proof (cases "period_before m c p")
  case (Some q)
  then obtain x y where "m p = Some x" "m q = Some y" "int (bi_nHeight y) = int (bi_nHeight x) - Period c"
    by (rule period_before_block [OF assms(1, 2)])
  moreover from this have "(int (bi_nHeight y) + 1) mod Period c = (int (bi_nHeight x) + 1) mod Period c"
    by (metis add.commute add_diff_eq minus_mod_self2)
  ultimately show ?thesis using Some assms(3) by (simp add: ends_period_def)
qed (simp add: ends_period_def)

lemma bip9_state_total:
  assumes "tree_ok m" "0 < Period c"
  shows "m p = Some x \<Longrightarrow> \<exists>s. bip9_state m c (Some p) s"
proof (induction "bi_nHeight x" arbitrary: p x rule: less_induct)
  case less
  obtain t where t: "GetMedianTimePast m p = Some t" using GetMedianTimePast_total [OF assms(1), of p] less.prems by auto
  have "\<exists>s. bip9_state m c (period_before m c p) s"
  proof (cases "period_before m c p")
    case None
    then show ?thesis by (auto intro: bip9_start)
  next
    case (Some q)
    then obtain y where "m q = Some y" "int (bi_nHeight y) = int (bi_nHeight x) - Period c"
      using period_before_block [OF assms Some] less.prems by (metis option.inject)
    with less.hyps [of y q] assms(2) Some show ?thesis by simp
  qed
  then show ?case using bip9_period [OF less.prems t] by blast
qed

lemma next_state_spec:
  assumes "tree_ok m" "m p = Some x" "GetMedianTimePast m p = Some t" "nat (Period c) \<le> bi_nHeight x + 1"
  shows "next_state m c p s = Some (bip9_next c t (signals m c (nat (Period c)) p) s)"
  using assms(3) count_signals_spec [OF assms(1, 2, 4), of c 0] by (cases s) auto

section \<open>The cached computation\<close>

lemma cache_states_ok_upd [simp]:
  "cache_states_ok m c cache \<Longrightarrow> bip9_state m c k s \<Longrightarrow> cache_states_ok m c (cache(k \<mapsto> s))"
  by (simp add: cache_states_ok_def)

lemma ends_period_height:
  assumes "ends_period m c (Some p)" "m p = Some x" "0 < Period c"
  shows "nat (Period c) \<le> bi_nHeight x + 1"
proof -
  have "(int (bi_nHeight x) + 1) mod Period c = 0" using assms(1, 2) by (simp add: ends_period_def)
  then have "Period c \<le> int (bi_nHeight x) + 1" using assms(3) by (intro zdvd_imp_le) auto
  then show ?thesis by simp
qed

text \<open>Walking back and then forward from where the walk ended gives the state by its definition.\<close>

lemma walk_spec:
  assumes "tree_ok m" "times_ok m" "checker_ok c" "cache_states_ok m c cache"
  shows "ends_period m c k \<Longrightarrow>
    \<exists>cache2 s. bip9_state m c k s \<and> cache_states_ok m c cache2 \<and>
      (case walk_back m c cache acc k of
         None \<Rightarrow> None
       | Some (cache', v, q) \<Rightarrow> (case cache' q of None \<Rightarrow> None | Some s \<Rightarrow> walk_forward m c cache' s v)) = walk_forward m c cache2 s acc"
proof (induction "case k of None \<Rightarrow> 0 | Some p \<Rightarrow> bi_nHeight (the (m p)) + 1" arbitrary: k acc rule: less_induct)
  case less
  have P: "0 < Period c" using assms(3) by (simp add: checker_ok_def)
  show ?case
  proof (cases "cache k")
    case (Some s)
    then show ?thesis using assms(4) by (intro exI [of _ cache] exI [of _ s]) (simp add: walk_back.simps cache_states_ok_def)
  next
    case c0: None
    show ?thesis
    proof (cases k)
      case None
      then show ?thesis using c0 assms(4) bip9_start [of m c]
        by (intro exI [of _ "cache(None \<mapsto> THRESHOLD_DEFINED)"] exI [of _ THRESHOLD_DEFINED]) (simp add: walk_back.simps)
    next
      case k: (Some p)
      then obtain x where x: "m p = Some x" using less.prems by (auto simp: ends_period_def)
      obtain t where t: "GetMedianTimePast m p = Some t" using GetMedianTimePast_total [OF assms(1), of p] x by auto
      show ?thesis
      proof (cases "t < BeginTime c")
        case True
        obtain s where "bip9_state m c (Some p) s" using bip9_state_total [OF assms(1) P x] by blast
        moreover from this have "s = THRESHOLD_DEFINED" using bip9_state_early [OF assms(1-3), of "Some p" s] t True by auto
        ultimately show ?thesis using c0 k x t True assms(4)
          by (intro exI [of _ "cache(Some p \<mapsto> THRESHOLD_DEFINED)"] exI [of _ THRESHOLD_DEFINED]) (simp add: walk_back.simps)
      next
        case False
        let ?q = "period_before m c p"
        have "(case ?q of None \<Rightarrow> 0 | Some q \<Rightarrow> bi_nHeight (the (m q)) + 1) < bi_nHeight x + 1"
          using period_before_block [OF assms(1) P, of p] x P by (fastforce split: option.split)
        then have small: "(case ?q of None \<Rightarrow> 0 | Some q \<Rightarrow> bi_nHeight (the (m q)) + 1) < (case k of None \<Rightarrow> 0 | Some p \<Rightarrow> bi_nHeight (the (m p)) + 1)"
          using k x by simp
        obtain cache2 s where IH: "bip9_state m c ?q s" "cache_states_ok m c cache2"
            "(case walk_back m c cache (p # acc) ?q of
                None \<Rightarrow> None
              | Some (cache', v, q) \<Rightarrow> (case cache' q of None \<Rightarrow> None | Some s \<Rightarrow> walk_forward m c cache' s v)) = walk_forward m c cache2 s (p # acc)"
          using less.hyps [OF small, of "p # acc"] period_before_ends [OF assms(1) P] less.prems k by blast
        let ?s = "bip9_next c t (signals m c (nat (Period c)) p) s"
        have "next_state m c p s = Some ?s"
          using next_state_spec [OF assms(1) x t] ends_period_height [of m c p x] less.prems k x P by simp
        moreover have "walk_back m c cache acc k = walk_back m c cache (p # acc) ?q"
          using c0 k x t False GetAncestor_period [OF assms(1) x P] by (subst walk_back.simps) simp
        ultimately show ?thesis using IH bip9_period [OF x t IH(1)] k
          by (intro exI [of _ "cache2(Some p \<mapsto> ?s)"] exI [of _ ?s]) simp
      qed
    qed
  qed
qed

lemma last_period_end_spec:
  assumes "tree_ok m" "0 < Period c" "m p = Some x"
  shows "period_parent m c p = Some (last_period_end m c (Some p))" "ends_period m c (last_period_end m c (Some p))"
proof -
  let ?r = "(bi_nHeight x + 1) mod nat (Period c)"
  have r: "(int (bi_nHeight x) + 1) mod Period c = int ?r" using assms(2) by (simp add: zmod_int add.commute)
  show "period_parent m c p = Some (last_period_end m c (Some p))"
    using assms(2, 3) GetAncestor_spec [OF assms(1, 3), of "int (bi_nHeight x) - int ?r"]
    by (auto simp: period_parent_def last_period_end_def Let_def r nat_diff_distrib not_less)
  show "ends_period m c (last_period_end m c (Some p))"
  proof (cases "bi_nHeight x < ?r")
    case False
    then obtain q y where q: "nth_pprev m ?r p = Some q" "m q = Some y" "bi_nHeight y = bi_nHeight x - ?r"
      using nth_pprev_total [OF assms(1, 3), of ?r] by auto
    have "int (bi_nHeight y) + 1 = (int (bi_nHeight x) + 1) - (int (bi_nHeight x) + 1) mod Period c" using q(3) False r by simp
    then have "(int (bi_nHeight y) + 1) mod Period c = 0" by (simp only: minus_mod_eq_mult_div mod_mult_self1_is_0)
    with q False assms(3) show ?thesis by (simp add: last_period_end_def ends_period_def Let_def)
  qed (use assms(3) in \<open>simp add: last_period_end_def ends_period_def Let_def\<close>)
qed

lemma GetStateFor_spec:
  assumes "tree_ok m" "times_ok m" "checker_ok c" "cache_states_ok m c cache" "\<And>p. k = Some p \<Longrightarrow> m p \<noteq> None"
  obtains s cache' where "GetStateFor m c k cache = Some (s, cache')" "bip9_state m c (last_period_end m c k) s" "cache_states_ok m c cache'"
proof -
  have P: "0 < Period c" using assms(3) by (simp add: checker_ok_def)
  have "ends_period m c (last_period_end m c k)"
    and parent: "(case k of None \<Rightarrow> Some None | Some p \<Rightarrow> period_parent m c p) = Some (last_period_end m c k)"
    using assms(5) last_period_end_spec [OF assms(1) P] by (cases k; force simp: last_period_end_def ends_period_def)+
  with walk_spec [OF assms(1-4), of "last_period_end m c k" "[]"] obtain cache2 s where
    "bip9_state m c (last_period_end m c k) s" "cache_states_ok m c cache2" "GetStateFor m c k cache = Some (s, cache2)"
    by (auto simp: GetStateFor_def)
  with that show thesis by blast
qed

section \<open>Since when\<close>

lemma last_period_end_self:
  assumes "ends_period m c (Some p)" "0 < Period c"
  shows "last_period_end m c (Some p) = Some p"
proof -
  obtain x where x: "m p = Some x" "(int (bi_nHeight x) + 1) mod Period c = 0" using assms(1) by (auto simp: ends_period_def)
  then have "int ((bi_nHeight x + 1) mod nat (Period c)) = 0" using assms(2) by (simp add: zmod_int add.commute)
  then have "(bi_nHeight x + 1) mod nat (Period c) = 0" by linarith
  with x(1) show ?thesis by (simp only: last_period_end_def Let_def option.case) simp
qed

lemma since_loop_spec:
  assumes "tree_ok m" "times_ok m" "checker_ok c" "s \<noteq> THRESHOLD_DEFINED"
  shows "cache_states_ok m c cache \<Longrightarrow> ends_period m c (Some p) \<Longrightarrow> bip9_state m c (Some p) s \<Longrightarrow>
    \<exists>h cache'. since_loop m c s cache p = Some (h, cache') \<and> holds_since m c s p h \<and> cache_states_ok m c cache'"
proof (induction "bi_nHeight (the (m p))" arbitrary: p cache rule: less_induct)
  case less
  have P: "0 < Period c" using assms(3) by (simp add: checker_ok_def)
  obtain x where x: "m p = Some x" using less.prems(2) by (auto simp: ends_period_def)
  show ?case
  proof (cases "period_before m c p")
    case None
    have "holds_since m c s p (int (bi_nHeight x) + 1)"
      using None bip9_start [of m c] assms(4) by (intro since_here [OF x less.prems(3)]) auto
    then show ?thesis using None GetAncestor_period [OF assms(1) x P] x less.prems(1) by (simp add: since_loop.simps)
  next
    case (Some q)
    then obtain y where y: "m q = Some y" "int (bi_nHeight y) = int (bi_nHeight x) - Period c"
      using period_before_block [OF assms(1) P Some] x by (metis option.inject)
    have e: "ends_period m c (Some q)" using period_before_ends [OF assms(1) P less.prems(2)] Some by simp
    obtain s' cache' where s': "GetStateFor m c (Some q) cache = Some (s', cache')" "bip9_state m c (Some q) s'" "cache_states_ok m c cache'"
      using GetStateFor_spec [OF assms(1-3) less.prems(1), of "Some q"] y(1) last_period_end_self [OF e P] by auto
    have l: "since_loop m c s cache p = (if s' = s then since_loop m c s cache' q else Some (int (bi_nHeight x) + 1, cache'))"
      using x s'(1) GetAncestor_period [OF assms(1) x P] Some by (simp add: since_loop.simps [of m c s cache p])
    show ?thesis
    proof (cases "s' = s")
      case True
      with less.hyps [of q cache'] s' e x y P obtain h cache2 where "since_loop m c s cache' q = Some (h, cache2)" "holds_since m c s q h"
        "cache_states_ok m c cache2" by auto
      with l True since_before [OF less.prems(3) Some] show ?thesis by auto
    next
      case False
      then show ?thesis using l s' since_here [OF x less.prems(3), of s'] Some by simp
    qed
  qed
qed

section \<open>The main network\<close>

lemma signals_le: "signals m c n p \<le> n"
  unfolding signals_def using length_filter_le [of _ "[0..<n]"] by simp

lemma never_locked_in:
  assumes "int (nat (Period c)) < Threshold c"
  shows "bip9_state m c k s \<Longrightarrow> s \<in> {THRESHOLD_DEFINED, THRESHOLD_STARTED, THRESHOLD_FAILED}"
proof (induction rule: bip9_state.induct)
  case (bip9_period p x t s)
  have "int (signals m c (nat (Period c)) p) < Threshold c" using assms signals_le [of m c "nat (Period c)" p] by linarith
  then show ?case using bip9_period.IH by (cases s) simp_all
qed simp

lemma main_checker:
  "Period (VersionBitsConditionChecker (CMainParams_consensus g) 0) = 720" "Threshold (VersionBitsConditionChecker (CMainParams_consensus g) 0) = 1080"
  "checker_ok (VersionBitsConditionChecker (CMainParams_consensus g) 0)" "VersionBitsMask (CMainParams_consensus g) 0 = 0x10000000"
  by (simp_all add: VersionBitsConditionChecker_def CMainParams_consensus_def checker_ok_def VersionBitsMask_def push_bit_eq_mult)

section \<open>An example\<close>

lemma signal_blocks [simp]:
  "pprev signal_block1 = None" "pskip signal_block1 = None" "bi_nHeight signal_block1 = 0" "bi_nTime signal_block1 = 1000"
  "pprev signal_block2 = Some [1]" "pskip signal_block2 = None" "bi_nHeight signal_block2 = 1" "bi_nTime signal_block2 = 1001"
  "bi_nVersion signal_block2 = 0x30000000"
  by (simp_all add: signal_block1_def signal_block2_def CBlockIndex_new_def)

lemma signal_tree_nodes [simp]: "signal_tree [1] = Some signal_block1" "signal_tree [2] = Some signal_block2"
  by (simp_all add: signal_tree_def)

lemma signal_tree_cases: "signal_tree p = Some x \<Longrightarrow> p = [1] \<and> x = signal_block1 \<or> p = [2] \<and> x = signal_block2"
  by (auto simp: signal_tree_def split: if_splits)

lemma signal_tree_ok: "tree_ok signal_tree"
  by (auto simp: tree_ok_def linked_def skip_ok_def dest!: signal_tree_cases)

lemma signal_tree_median: "GetMedianTimePast signal_tree [1] = Some 1000" "GetMedianTimePast signal_tree [2] = Some 1001"
proof -
  have "median_times signal_tree (Suc (Suc (Suc n))) (Some [1]) [] = Some [1000]"
      "median_times signal_tree (Suc (Suc (Suc n))) (Some [2]) [] = Some [1000, 1001]" for n
    by (simp_all add: CBlockIndex_GetBlockTime_def)
  from this [of 8] show "GetMedianTimePast signal_tree [1] = Some 1000" "GetMedianTimePast signal_tree [2] = Some 1001"
    by (simp_all add: GetMedianTimePast_def)
qed

lemma signal_times_ok: "times_ok signal_tree"
  by (auto simp: times_ok_def CBlockIndex_GetBlockTime_def signal_tree_median dest!: signal_tree_cases)

lemma signal_checker_fields:
  "Period signal_checker = 1" "Threshold signal_checker = 1" "BeginTime signal_checker = 1000" "EndTime signal_checker = 5000"
  "checker_ok signal_checker" "VersionBitsMask signal_params 0 = 0x10000000"
  by (simp_all add: VersionBitsConditionChecker_def signal_params_def checker_ok_def VersionBitsMask_def push_bit_eq_mult)

lemma signal_condition: "bi_nVersion x = 0x30000000 \<Longrightarrow> Condition signal_checker x"
proof -
  have "(0x30000000 :: u32) AND 0xE0000000 = 0x20000000" "(0x30000000 :: u32) AND 0x10000000 \<noteq> 0" by code_simp+
  then show "bi_nVersion x = 0x30000000 \<Longrightarrow> Condition signal_checker x"
    by (simp add: VersionBitsConditionChecker_def signal_checker_fields)
qed

lemma signal_locked_in:
  "bip9_state signal_tree signal_checker (Some [2]) THRESHOLD_LOCKED_IN" "last_period_end signal_tree signal_checker (Some [2]) = Some [2]"
proof -
  have b: "period_before signal_tree signal_checker [1] = None" "period_before signal_tree signal_checker [2] = Some [1]"
    by (simp_all add: period_before_def signal_checker_fields)
  have "bip9_state signal_tree signal_checker (Some [1]) THRESHOLD_STARTED"
    using bip9_period [OF signal_tree_nodes(1) signal_tree_median(1), of signal_checker THRESHOLD_DEFINED] b(1) bip9_start
    by (simp add: signal_checker_fields)
  then show "bip9_state signal_tree signal_checker (Some [2]) THRESHOLD_LOCKED_IN"
    using bip9_period [OF signal_tree_nodes(2) signal_tree_median(2), of signal_checker THRESHOLD_STARTED] b(2) signal_condition [of signal_block2]
    by (simp add: signal_checker_fields signals_def)
  show "last_period_end signal_tree signal_checker (Some [2]) = Some [2]" by (simp add: last_period_end_def signal_checker_fields)
qed

section \<open>Properties\<close>

text \<open>
  C7: The state of a deployment that \<^verbatim>\<open>GetStateFor\<close> computes with its cache, its stop at blocks before the start time and
  its walk forward is the one that its definition gives: defined before the first period, then one transition per period
  on the median time and the signals at its end.  The function returns on every block of a tree whose headers
  were accepted (each is later than the median of its predecessors), no null pointer is followed, and the cache holds
  only such states afterwards, so that the next call may rely on it.
\<close>

theorem GetStateFor_equals_bip9:
  assumes "tree_ok m" "times_ok m" "checker_ok c" "cache_states_ok m c cache" "\<And>p. k = Some p \<Longrightarrow> m p \<noteq> None"
  shows "\<exists>s cache'. GetStateFor m c k cache = Some (s, cache') \<and> cache_states_ok m c cache' \<and>
    bip9_state m c (last_period_end m c k) s \<and> (\<forall>s'. bip9_state m c (last_period_end m c k) s' \<longrightarrow> s' = s)"
proof -
  obtain s cache' where "GetStateFor m c k cache = Some (s, cache')" "bip9_state m c (last_period_end m c k) s" "cache_states_ok m c cache'"
    by (rule GetStateFor_spec [OF assms])
  then show ?thesis using bip9_state_unique by blast
qed

theorem GetStateFor_equals_bip9_witness:
  "\<exists>cache'. GetStateFor signal_tree signal_checker (Some [2]) Map.empty = Some (THRESHOLD_LOCKED_IN, cache')"
proof -
  have "cache_states_ok signal_tree signal_checker Map.empty" by (simp add: cache_states_ok_def)
  then show ?thesis
    using GetStateFor_equals_bip9 [OF signal_tree_ok signal_times_ok signal_checker_fields(5), of Map.empty "Some [2]"] signal_locked_in by auto
qed

text \<open>
  C36: The height \<^verbatim>\<open>GetStateSinceHeightFor\<close> returns for a deployment that is not merely defined is the first one of
  the run of periods with the present state: it holds after each period down to there, and after the period before it did
  not.  The loop ends, and the cache stays right.
\<close>

theorem GetStateSinceHeightFor_first:
  assumes "tree_ok m" "times_ok m" "checker_ok c" "cache_states_ok m c cache" "m p \<noteq> None"
    "bip9_state m c (last_period_end m c (Some p)) s"
  shows "\<exists>h cache'. GetStateSinceHeightFor m c (Some p) cache = Some (h, cache') \<and> cache_states_ok m c cache' \<and>
    (if s = THRESHOLD_DEFINED then h = 0 else (\<exists>q. last_period_end m c (Some p) = Some q \<and> holds_since m c s q h))"
proof -
  have P: "0 < Period c" using assms(3) by (simp add: checker_ok_def)
  obtain x where x: "m p = Some x" using assms(5) by auto
  obtain s' cache' where g: "GetStateFor m c (Some p) cache = Some (s', cache')" "bip9_state m c (last_period_end m c (Some p)) s'"
      "cache_states_ok m c cache'"
    using GetStateFor_spec [OF assms(1-4), of "Some p"] assms(5) by auto
  then have s: "s' = s" using bip9_state_unique assms(6) by blast
  show ?thesis
  proof (cases "s = THRESHOLD_DEFINED")
    case False
    then obtain q where q: "last_period_end m c (Some p) = Some q"
      using assms(6) by (cases "last_period_end m c (Some p)") (auto elim: bip9_NoneE)
    then have "\<exists>h cache2. since_loop m c s cache' q = Some (h, cache2) \<and> holds_since m c s q h \<and> cache_states_ok m c cache2"
      using last_period_end_spec(2) [OF assms(1) P x] assms(6) by (intro since_loop_spec [OF assms(1-3) False g(3)]) auto
    with False g s q last_period_end_spec(1) [OF assms(1) P x] show ?thesis by (auto simp: GetStateSinceHeightFor_def)
  qed (use g s in \<open>simp add: GetStateSinceHeightFor_def\<close>)
qed

theorem GetStateSinceHeightFor_first_witness:
  "\<exists>h cache'. GetStateSinceHeightFor signal_tree signal_checker (Some [2]) Map.empty = Some (h, cache') \<and>
     holds_since signal_tree signal_checker THRESHOLD_LOCKED_IN [2] h"
proof -
  have "cache_states_ok signal_tree signal_checker Map.empty" by (simp add: cache_states_ok_def)
  then show ?thesis
    using GetStateSinceHeightFor_first [OF signal_tree_ok signal_times_ok signal_checker_fields(5), of Map.empty "[2]" THRESHOLD_LOCKED_IN]
      signal_locked_in by auto
qed



end
