(* ===== verification/Merkle.thy ===== *)
theory Merkle
  imports Transaction
begin

text \<open>
  Merkle roots and branches (\<^verbatim>\<open>src/src/consensus/merkle.cpp\<close>).

  The loops of \<^verbatim>\<open>MerkleComputation\<close> are functions of the variables they change; \<^const>\<open>None\<close> is a shift by the width of
  the counter or more, which is also an access past the end of \<^verbatim>\<open>inner\<close>.  The optional results behind null pointers are
  \<^const>\<open>None\<close> for the branch; root and flag are always returned.
\<close>

unbundle bit_operations_syntax

section \<open>The constant-space computation\<close>

definition merkle_hash :: "bytes \<Rightarrow> bytes \<Rightarrow> bytes" where
  "merkle_hash a b = CHash256_Finalize (CHash256_Write b (CHash256_Write a (CSHA256 (replicate 64 0))))"

definition level_bit :: "u32 \<Rightarrow> nat \<Rightarrow> bool" where
  "level_bit count level \<longleftrightarrow> count AND push_bit level 1 \<noteq> 0"

text \<open>What one step of a loop appends to the branch, and whether the hash then depends on the matching leaf.\<close>

definition branch_step :: "bytes list option \<Rightarrow> bool \<Rightarrow> int \<Rightarrow> nat \<Rightarrow> bytes \<Rightarrow> bytes \<Rightarrow> bytes list option \<times> bool" where
  "branch_step pbranch matchh matchlevel level inner_level h =
     (case pbranch of
        None \<Rightarrow> (None, matchh)
      | Some ps \<Rightarrow>
          if matchh then (Some (ps @ [inner_level]), True)
          else if matchlevel = int level then (Some (ps @ [h]), True)
          else (Some ps, False))"

function leaf_levels :: "u32 \<Rightarrow> bytes list \<Rightarrow> int \<Rightarrow> nat \<Rightarrow> bytes \<Rightarrow> bool \<Rightarrow> bool \<Rightarrow> bytes list option
    \<Rightarrow> (nat \<times> bytes \<times> bool \<times> bool \<times> bytes list option) option" where
  "leaf_levels count inners matchlevel level h matchh mutated pbranch =
     (if level \<ge> 32 then None
      else if level_bit count level then Some (level, h, matchh, mutated, pbranch)
      else
        (case branch_step pbranch matchh matchlevel level (inners ! level) h of
           (pbranch', matchh') \<Rightarrow>
             leaf_levels count inners matchlevel (level + 1) (merkle_hash (inners ! level) h) matchh'
               (mutated \<or> inners ! level = h) pbranch'))"
  by pat_completeness auto
termination
  by (relation "measure (\<lambda>(count, inners, matchlevel, level, h, matchh, mutated, pbranch). 32 - level)") auto

declare leaf_levels.simps [simp del]

text \<open>The loop over the leaves; \<open>leaves\<close> are those from \<open>count\<close> on.\<close>

fun merkle_leaves :: "bytes list \<Rightarrow> u32 \<Rightarrow> u32 \<Rightarrow> bytes list \<Rightarrow> int \<Rightarrow> bool \<Rightarrow> bytes list option
    \<Rightarrow> (u32 \<times> bytes list \<times> int \<times> bool \<times> bytes list option) option" where
  "merkle_leaves [] branchpos count inners matchlevel mutated pbranch = Some (count, inners, matchlevel, mutated, pbranch)"
| "merkle_leaves (leaf # leaves) branchpos count inners matchlevel mutated pbranch =
     (case leaf_levels (count + 1) inners matchlevel 0 leaf (count = branchpos) mutated pbranch of
        None \<Rightarrow> None
      | Some (level, h, matchh, mutated', pbranch') \<Rightarrow>
          merkle_leaves leaves branchpos (count + 1) (inners[level := h]) (if matchh then int level else matchlevel) mutated' pbranch')"

function skip_levels :: "u32 \<Rightarrow> nat \<Rightarrow> nat option" where
  "skip_levels count level =
     (if level \<ge> 32 then None else if level_bit count level then Some level else skip_levels count (level + 1))"
  by pat_completeness auto
termination by (relation "measure (\<lambda>(count, level). 32 - level)") auto

declare skip_levels.simps [simp del]

function sweep_levels :: "u32 \<Rightarrow> bytes list \<Rightarrow> int \<Rightarrow> nat \<Rightarrow> bytes \<Rightarrow> bool \<Rightarrow> bytes list option
    \<Rightarrow> (nat \<times> bytes \<times> bool \<times> bytes list option) option" where
  "sweep_levels count inners matchlevel level h matchh pbranch =
     (if level \<ge> 32 then None
      else if level_bit count level then Some (level, h, matchh, pbranch)
      else
        (case branch_step pbranch matchh matchlevel level (inners ! level) h of
           (pbranch', matchh') \<Rightarrow>
             sweep_levels count inners matchlevel (level + 1) (merkle_hash (inners ! level) h) matchh' pbranch'))"
  by pat_completeness auto
termination
  by (relation "measure (\<lambda>(count, inners, matchlevel, level, h, matchh, pbranch). 32 - level)") auto

declare sweep_levels.simps [simp del]

text \<open>The sweep over the right edge.  Every turn ends at a higher level, which bounds their number by the width of the counter.\<close>

fun merkle_sweep :: "nat \<Rightarrow> u32 \<Rightarrow> bytes list \<Rightarrow> int \<Rightarrow> nat \<Rightarrow> bytes \<Rightarrow> bool \<Rightarrow> bytes list option \<Rightarrow> (bytes \<times> bytes list option) option" where
  "merkle_sweep fuel count inners matchlevel level h matchh pbranch =
     (if level \<ge> 32 then None
      else if count = push_bit level 1 then Some (h, pbranch)
      else
        (case fuel of
           0 \<Rightarrow> None
         | Suc fuel' \<Rightarrow>
             let pbranch' = (case pbranch of None \<Rightarrow> None | Some ps \<Rightarrow> Some (if matchh then ps @ [h] else ps)) in
             (case sweep_levels (count + push_bit level 1) inners matchlevel (level + 1) (merkle_hash h h) matchh pbranch' of
                None \<Rightarrow> None
              | Some (level', h', matchh', pbranch'') \<Rightarrow>
                  merkle_sweep fuel' (count + push_bit level 1) inners matchlevel level' h' matchh' pbranch'')))"

declare merkle_sweep.simps [simp del]

definition MerkleComputation :: "bytes list \<Rightarrow> u32 \<Rightarrow> bool \<Rightarrow> (bytes \<times> bool \<times> bytes list option) option" where
  "MerkleComputation leaves branchpos with_branch =
     (let pbranch = (if with_branch then Some [] else None) in
      if leaves = [] then Some (null_uint256, False, pbranch)
      else
        (case merkle_leaves leaves branchpos 0 (replicate 32 null_uint256) (- 1) False pbranch of
           None \<Rightarrow> None
         | Some (count, inners, matchlevel, mutated, pbranch') \<Rightarrow>
             (case skip_levels count 0 of
                None \<Rightarrow> None
              | Some level \<Rightarrow>
                  (case merkle_sweep 32 count inners matchlevel level (inners ! level) (matchlevel = int level) pbranch' of
                     None \<Rightarrow> None
                   | Some (root, pbranch'') \<Rightarrow> Some (root, mutated, pbranch'')))))"

section \<open>Roots and branches\<close>

definition ComputeMerkleRoot :: "bytes list \<Rightarrow> (bytes \<times> bool) option" where
  "ComputeMerkleRoot leaves =
     (case MerkleComputation leaves (- 1) False of None \<Rightarrow> None | Some (root, mutated, _) \<Rightarrow> Some (root, mutated))"

definition ComputeMerkleBranch :: "bytes list \<Rightarrow> u32 \<Rightarrow> bytes list option" where
  "ComputeMerkleBranch leaves position =
     (case MerkleComputation leaves position True of None \<Rightarrow> None | Some (_, _, pbranch) \<Rightarrow> pbranch)"

fun ComputeMerkleRootFromBranch :: "bytes \<Rightarrow> bytes list \<Rightarrow> u32 \<Rightarrow> bytes" where
  "ComputeMerkleRootFromBranch hash [] nIndex = hash"
| "ComputeMerkleRootFromBranch hash (it # vMerkleBranch) nIndex =
     ComputeMerkleRootFromBranch (if nIndex AND 1 \<noteq> 0 then Hash [it, hash] else Hash [hash, it]) vMerkleBranch (drop_bit 1 nIndex)"

definition BlockMerkleRoot :: "CBlock \<Rightarrow> (bytes \<times> bool) option" where
  "BlockMerkleRoot block = ComputeMerkleRoot (map ComputeHash (vtx block))"

text \<open>A block without transactions has no leaf to set to zero: an access past the end.\<close>

definition BlockWitnessMerkleRoot :: "CBlock \<Rightarrow> (bytes \<times> bool) option" where
  "BlockWitnessMerkleRoot block =
     (case vtx block of
        [] \<Rightarrow> None
      | _ # txs \<Rightarrow> ComputeMerkleRoot (null_uint256 # map GetWitnessHash txs))"

definition BlockMerkleBranch :: "CBlock \<Rightarrow> u32 \<Rightarrow> bytes list option" where
  "BlockMerkleBranch block position = ComputeMerkleBranch (map ComputeHash (vtx block)) position"

section \<open>Specifications of trees\<close>

text \<open>The next level: neighbours are hashed together, and the last one with itself when their number is odd.\<close>

fun merkle_up :: "bytes list \<Rightarrow> bytes list" where
  "merkle_up [] = []"
| "merkle_up [a] = [merkle_hash a a]"
| "merkle_up (a # b # r) = merkle_hash a b # merkle_up r"

definition merkle_level :: "bytes list \<Rightarrow> nat \<Rightarrow> bytes list" where
  "merkle_level xs k = (merkle_up ^^ k) xs"

text \<open>The root: the level with a single hash.\<close>

function merkle_root :: "bytes list \<Rightarrow> bytes" where
  "merkle_root [] = null_uint256"
| "merkle_root [a] = a"
| "merkle_root (a # b # r) = merkle_root (merkle_up (a # b # r))"
  by pat_completeness auto
termination
proof (relation "measure length")
  have "length (merkle_up xs) = (length xs + 1) div 2" for xs by (induction xs rule: merkle_up.induct) auto
  then show "(merkle_up (a # b # r), a # b # r) \<in> measure length" for a b r by simp
qed simp

text \<open>Two equal hashes are neighbours in complete subtrees.\<close>

definition merkle_mutated :: "bytes list \<Rightarrow> bool" where
  "merkle_mutated xs \<longleftrightarrow> (\<exists>k i. (2 * i + 2) * 2 ^ k \<le> length xs \<and> merkle_level xs k ! (2 * i) = merkle_level xs k ! (2 * i + 1))"

text \<open>The other child of a node's parent; the last of an odd number of nodes is its own.\<close>

definition sibling :: "bytes list \<Rightarrow> nat \<Rightarrow> bytes" where
  "sibling xs i = xs ! (if odd i then i - 1 else if i + 1 < length xs then i + 1 else i)"

text \<open>The other child of each node on the path from a leaf to the root.\<close>

function merkle_path :: "bytes list \<Rightarrow> nat \<Rightarrow> bytes list" where
  "merkle_path xs i =
     (if length xs \<le> 1 then []
      else sibling xs i # merkle_path (merkle_up xs) (i div 2))"
  by pat_completeness auto
termination
proof (relation "measure (\<lambda>(xs, i). length xs)")
  have "length (merkle_up xs) = (length xs + 1) div 2" for xs by (induction xs rule: merkle_up.induct) auto
  then show "\<not> length xs \<le> 1 \<Longrightarrow> ((merkle_up xs, i div 2), xs, i) \<in> measure (\<lambda>(xs, i). length xs)" for xs and i :: nat by simp
qed simp

text \<open>The hashes in \<^verbatim>\<open>inner\<close> after \<open>c\<close> leaves: where \<open>c\<close> has a bit, the last complete node of that level.\<close>

definition inner_ok :: "bytes list \<Rightarrow> nat \<Rightarrow> bytes list \<Rightarrow> bool" where
  "inner_ok zs c inners \<longleftrightarrow> length inners = 32 \<and> (\<forall>k<32. odd (c div 2 ^ k) \<longrightarrow> inners ! k = merkle_level zs k ! (c div 2 ^ k - 1))"

definition siblings :: "bytes list \<Rightarrow> nat \<Rightarrow> nat \<Rightarrow> bytes list" where
  "siblings zs pos n = map (\<lambda>j. sibling (merkle_level zs j) (pos div 2 ^ j)) [0..<n]"

text \<open>
  The branch between two leaves: nothing before the leaf has been seen, and then the siblings up to the level at which its
  ancestor waits.
\<close>

definition match_ok :: "bytes list \<Rightarrow> nat \<Rightarrow> nat \<Rightarrow> nat \<Rightarrow> nat \<Rightarrow> int \<Rightarrow> bytes list \<Rightarrow> bool" where
  "match_ok zs pos c e l matchlevel ps \<longleftrightarrow>
     (if e \<le> pos then matchlevel = - 1 \<and> ps = []
      else (\<exists>k. l \<le> k \<and> k < 32 \<and> matchlevel = int k \<and> odd (c div 2 ^ k) \<and> pos div 2 ^ k = c div 2 ^ k - 1 \<and> ps = siblings zs pos k))"

text \<open>The branch while a hash climbs from level to level, now the node \<open>i\<close> of level \<open>l\<close>.\<close>

definition climb_ok :: "bytes list \<Rightarrow> nat \<Rightarrow> nat \<Rightarrow> nat \<Rightarrow> nat \<Rightarrow> nat \<Rightarrow> bool \<Rightarrow> int \<Rightarrow> bytes list option \<Rightarrow> bool" where
  "climb_ok zs pos c e l i matchh matchlevel pbranch \<longleftrightarrow>
     (case pbranch of
        None \<Rightarrow> True
      | Some ps \<Rightarrow> if matchh then pos div 2 ^ l = i \<and> ps = siblings zs pos l else match_ok zs pos c e l matchlevel ps)"

definition mutated_upto :: "bytes list \<Rightarrow> nat \<Rightarrow> bool" where
  "mutated_upto xs c \<longleftrightarrow> (\<exists>k i. (2 * i + 2) * 2 ^ k \<le> c \<and> merkle_level xs k ! (2 * i) = merkle_level xs k ! (2 * i + 1))"

text \<open>On the way up the right edge: the counter is the number of leaves rounded up to the level, and no level below is the root's.\<close>

definition edge_ok :: "bytes list \<Rightarrow> nat \<Rightarrow> nat \<Rightarrow> bool" where
  "edge_ok zs l count \<longleftrightarrow>
     count = 2 ^ l * length (merkle_level zs l) \<and> 0 < count \<and> count \<le> 2 ^ 31 \<and> l < 32 \<and> (\<forall>j<l. 1 < length (merkle_level zs j))"

text \<open>At the head of the sweep, where the level has an odd number of nodes.\<close>

definition head_ok :: "bytes list \<Rightarrow> nat \<Rightarrow> nat \<Rightarrow> nat \<Rightarrow> bool \<Rightarrow> int \<Rightarrow> bytes list option \<Rightarrow> bool" where
  "head_ok zs pos l count matchh matchlevel pbranch \<longleftrightarrow>
     edge_ok zs l count \<and> odd (length (merkle_level zs l)) \<and>
     climb_ok zs pos (length zs) (length zs) l (length (merkle_level zs l) - 1) matchh matchlevel pbranch \<and>
     (pbranch \<noteq> None \<longrightarrow> matchh \<or> matchlevel \<noteq> int l)"

text \<open>The pairs that are hashed for the root of \<open>xs\<close>, and a collision among those of two trees.\<close>

definition merkle_pairs :: "bytes list \<Rightarrow> (bytes \<times> bytes) set" where
  "merkle_pairs xs =
     {(merkle_level xs k ! (2 * i), merkle_level xs k ! (if 2 * i + 1 < length (merkle_level xs k) then 2 * i + 1 else 2 * i)) | k i.
        2 * i < length (merkle_level xs k) \<and> 1 < length (merkle_level xs k)}"

definition merkle_collision :: "bytes list \<Rightarrow> bytes list \<Rightarrow> bool" where
  "merkle_collision xs ys \<longleftrightarrow>
     (\<exists>p\<in>merkle_pairs xs \<union> merkle_pairs ys. \<exists>q\<in>merkle_pairs xs \<union> merkle_pairs ys.
        p \<noteq> q \<and> merkle_hash (fst p) (snd p) = merkle_hash (fst q) (snd q))"

abbreviation merkle_children :: "bytes list \<Rightarrow> nat \<Rightarrow> nat \<Rightarrow> bytes \<times> bytes" where
  "merkle_children xs k i \<equiv>
     (merkle_level xs k ! (2 * i), merkle_level xs k ! (if 2 * i + 1 < length (merkle_level xs k) then 2 * i + 1 else 2 * i))"

section \<open>The tree level by level\<close>

declare merkle_path.simps [simp del]

section \<open>Levels\<close>

lemma merkle_up_length [simp]: "length (merkle_up xs) = (length xs + 1) div 2"
  by (induction xs rule: merkle_up.induct) auto

lemma merkle_up_nth:
  "i < (length xs + 1) div 2 \<Longrightarrow> merkle_up xs ! i = merkle_hash (xs ! (2 * i)) (xs ! (if 2 * i + 1 < length xs then 2 * i + 1 else 2 * i))"
proof (induction xs arbitrary: i rule: merkle_up.induct)
  case (3 a b r)
  then show ?case by (cases i) auto
qed auto

lemma merkle_level_0 [simp]: "merkle_level xs 0 = xs"
  by (simp add: merkle_level_def)

lemma merkle_level_Suc: "merkle_level xs (Suc k) = merkle_up (merkle_level xs k)"
  by (simp add: merkle_level_def)

lemma ceiling_step:
  fixes n p :: nat
  assumes "0 < p"
  shows "((n + p - 1) div p + 1) div 2 = (n + 2 * p - 1) div (2 * p)"
proof -
  have "(n + p - 1) div p + 1 = (n + p - 1 + p) div p" using assms div_add_self2 [of p "n + p - 1"] by (simp only: not_gr_zero)
  also have "n + p - 1 + p = n + 2 * p - 1" using assms by simp
  finally show ?thesis by (simp add: div_mult2_eq mult.commute)
qed

lemma ceiling_dvd:
  fixes n p :: nat
  assumes "0 < p"
  shows "(n + p - 1) div p = (if p dvd n then n div p else n div p + 1)"
proof -
  have n: "n = p * (n div p) + n mod p" "n mod p < p" using assms by simp_all
  show ?thesis
  proof (cases "p dvd n")
    case True
    then show ?thesis using n assms by (auto intro!: div_nat_eqI simp: dvd_eq_mod_eq_0)
  next
    case False
    then have "0 < n mod p" by (auto simp: dvd_eq_mod_eq_0)
    have "p * (n div p + 1) \<le> n + p - 1" "n + p - 1 < p * Suc (n div p + 1)"
      using n \<open>0 < n mod p\<close> by (simp_all only: add_mult_distrib2 mult_Suc_right)
    then show ?thesis using False by (simp add: div_nat_eqI)
  qed
qed

lemma length_merkle_level: "length (merkle_level xs k) = (length xs + 2 ^ k - 1) div 2 ^ k"
  by (induction k) (simp_all add: merkle_level_Suc ceiling_step del: One_nat_def)

lemma length_merkle_level_dvd: "2 ^ k dvd length xs \<Longrightarrow> length (merkle_level xs k) = length xs div 2 ^ k"
  unfolding length_merkle_level by (subst ceiling_dvd) simp_all

lemma length_merkle_level_not_dvd: "\<not> 2 ^ k dvd length xs \<Longrightarrow> length (merkle_level xs k) = length xs div 2 ^ k + 1"
  unfolding length_merkle_level by (subst ceiling_dvd) simp_all

lemma complete_le: "m * 2 ^ k \<le> length xs \<Longrightarrow> m \<le> length (merkle_level xs k)"
proof -
  assume "m * 2 ^ k \<le> length xs"
  then have "m \<le> length xs div 2 ^ k" by (simp add: less_eq_div_iff_mult_less_eq)
  then show ?thesis using length_merkle_level_dvd [of k xs] length_merkle_level_not_dvd [of k xs] by (cases "2 ^ k dvd length xs") auto
qed

lemma node_pair:
  assumes "2 * i + 1 < length (merkle_level xs k)"
  shows "merkle_level xs (Suc k) ! i = merkle_hash (merkle_level xs k ! (2 * i)) (merkle_level xs k ! (2 * i + 1))"
  using assms by (simp add: merkle_level_Suc merkle_up_nth)

lemma node_last:
  assumes "2 * i + 1 = length (merkle_level xs k)"
  shows "merkle_level xs (Suc k) ! i = merkle_hash (merkle_level xs k ! (2 * i)) (merkle_level xs k ! (2 * i))"
  using assms by (simp add: merkle_level_Suc merkle_up_nth)

lemma merkle_root_up: "1 < length xs \<Longrightarrow> merkle_root (merkle_up xs) = merkle_root xs"
  by (cases xs rule: merkle_up.cases) auto

lemma merkle_root_level:
  "(\<And>j. j < k \<Longrightarrow> 1 < length (merkle_level xs j)) \<Longrightarrow> merkle_root (merkle_level xs k) = merkle_root xs"
  by (induction k) (auto simp: merkle_level_Suc merkle_root_up)

lemma merkle_path_level:
  "(\<And>j. j < k \<Longrightarrow> 1 < length (merkle_level xs j)) \<Longrightarrow>
     merkle_path xs i = map (\<lambda>j. sibling (merkle_level xs j) (i div 2 ^ j)) [0..<k] @ merkle_path (merkle_level xs k) (i div 2 ^ k)"
proof (induction k)
  case (Suc k)
  have "merkle_path (merkle_level xs k) (i div 2 ^ k) =
      sibling (merkle_level xs k) (i div 2 ^ k) # merkle_path (merkle_level xs (Suc k)) (i div 2 ^ Suc k)"
    using Suc.prems [of k] by (subst merkle_path.simps) (simp add: merkle_level_Suc div_mult2_eq [symmetric] mult.commute)
  with Suc show ?case by simp
qed simp

section \<open>Counters\<close>

lemma level_bit_iff: "level < 32 \<Longrightarrow> c < 2 ^ 32 \<Longrightarrow> level_bit (of_nat c) level \<longleftrightarrow> odd (c div 2 ^ level)"
  unfolding level_bit_def push_bit_of_1 and_exp_eq_0_iff_not_bit not_not by (simp add: bit_of_nat_iff bit_iff_odd [of c])

lemma div_pred: "2 ^ k dvd Suc c \<Longrightarrow> c div 2 ^ k = Suc c div 2 ^ k - 1"
  by (simp add: div_Suc)

lemma div_same: "\<not> 2 ^ k dvd Suc c \<Longrightarrow> Suc c div 2 ^ k = c div 2 ^ k"
  by (simp add: div_Suc dvd_eq_mod_eq_0)

lemma dvd_Suc_iff: "2 ^ k dvd (c :: nat) \<Longrightarrow> 2 ^ Suc k dvd c \<longleftrightarrow> even (c div 2 ^ k)"
  by (metis bot_nat_0.not_eq_extremum dvd_div_iff_mult power_Suc power_not_zero zero_less_numeral)

section \<open>The leaves\<close>

lemma siblings_Suc: "siblings zs pos (Suc l) = siblings zs pos l @ [sibling (merkle_level zs l) (pos div 2 ^ l)]"
  by (simp add: siblings_def)

text \<open>One step up from a right child.\<close>

lemma climb_step:
  assumes "climb_ok zs pos c e l (c div 2 ^ l) mh ml br" "odd (c div 2 ^ l)" "c div 2 ^ l < length (merkle_level zs l)"
    "branch_step br mh ml l (merkle_level zs l ! (c div 2 ^ l - 1)) (merkle_level zs l ! (c div 2 ^ l)) = (br', mh')"
  shows "climb_ok zs pos c e (Suc l) (c div 2 ^ Suc l) mh' ml br'"
proof (cases br)
  case None
  then show ?thesis using assms(4) by (auto simp: branch_step_def climb_ok_def)
next
  case (Some ps)
  let ?i = "c div 2 ^ l"
  have d: "x div 2 ^ Suc l = x div 2 ^ l div 2" for x :: nat by (simp only: power_Suc2 div_mult2_eq)
  consider (match) "mh" "pos div 2 ^ l = ?i" "ps = siblings zs pos l"
    | (here) "\<not> mh" "\<not> e \<le> pos" "ml = int l" "pos div 2 ^ l = ?i - 1" "ps = siblings zs pos l"
    | (later) "\<not> mh" "ml \<noteq> int l" "match_ok zs pos c e (Suc l) ml ps"
    using assms(1) Some
    by (cases "mh"; cases "ml = int l"; cases "e \<le> pos") (auto simp: climb_ok_def match_ok_def intro: Suc_leI order_neq_le_trans)
  then show ?thesis
  proof cases
    case match
    then show ?thesis using Some assms(2, 4) by (auto simp: branch_step_def climb_ok_def siblings_Suc sibling_def d simp del: power_Suc)
  next
    case here
    obtain m where "?i = 2 * m + 1" using assms(2) by (rule oddE)
    with here show ?thesis using Some assms(3, 4)
      by (auto simp: branch_step_def climb_ok_def siblings_Suc sibling_def d simp del: power_Suc)
  next
    case later
    then show ?thesis using Some assms(4) by (auto simp: branch_step_def climb_ok_def)
  qed
qed

lemma climb_node:
  assumes "odd (c div 2 ^ l)" "c div 2 ^ l < length (merkle_level zs l)"
  shows "merkle_hash (merkle_level zs l ! (c div 2 ^ l - 1)) (merkle_level zs l ! (c div 2 ^ l)) = merkle_level zs (Suc l) ! (c div 2 ^ Suc l)"
proof -
  obtain m where m: "c div 2 ^ l = 2 * m + 1" using assms(1) by (rule oddE)
  then have "c div 2 ^ Suc l = m" by (simp add: div_mult2_eq mult.commute [of 2])
  with m assms(2) node_pair [of m zs l] show ?thesis by simp
qed

lemma leaf_levels_stop:
  "l < 32 \<Longrightarrow> level_bit count l \<Longrightarrow> leaf_levels count inners ml l h mh mut br = Some (l, h, mh, mut, br)"
  by (subst leaf_levels.simps) simp

lemma leaf_levels_step:
  "l < 32 \<Longrightarrow> \<not> level_bit count l \<Longrightarrow> branch_step br mh ml l (inners ! l) h = (br', mh') \<Longrightarrow>
     leaf_levels count inners ml l h mh mut br =
     leaf_levels count inners ml (Suc l) (merkle_hash (inners ! l) h) mh' (mut \<or> inners ! l = h) br'"
  by (subst leaf_levels.simps) simp

lemma leaf_levels_spec:
  assumes "Suc c \<le> length zs" "length zs \<le> 2 ^ 31" "inner_ok zs c inners"
  shows "2 ^ l dvd Suc c \<Longrightarrow> climb_ok zs pos c (Suc c) l (c div 2 ^ l) mh ml br \<Longrightarrow>
    \<exists>l' mh' br' mut'. leaf_levels (of_nat (Suc c)) inners ml l (merkle_level zs l ! (c div 2 ^ l)) mh mut br =
        Some (l', merkle_level zs l' ! (c div 2 ^ l'), mh', mut', br') \<and>
      l' < 32 \<and> 2 ^ l' dvd Suc c \<and> odd (Suc c div 2 ^ l') \<and> climb_ok zs pos c (Suc c) l' (c div 2 ^ l') mh' ml br' \<and>
      (mut' \<longleftrightarrow> mut \<or> (\<exists>k\<ge>l. 2 ^ Suc k dvd Suc c \<and> merkle_level zs k ! (c div 2 ^ k - 1) = merkle_level zs k ! (c div 2 ^ k)))"
proof (induction "32 - l" arbitrary: l mh br mut rule: less_induct)
  case less
  have "2 ^ l \<le> Suc c" using less.prems(1) by (simp add: dvd_imp_le)
  then have "(2 :: nat) ^ l \<le> 2 ^ 31" using assms(1, 2) by linarith
  then have "l \<le> 31" by (rule power_le_imp_le_exp [of "2 :: nat", rotated]) simp
  then have l: "l < 32" by simp
  have bit: "level_bit (of_nat (Suc c)) l \<longleftrightarrow> odd (Suc c div 2 ^ l)" using l assms(1, 2) by (intro level_bit_iff) auto
  show ?case
  proof (cases "odd (Suc c div 2 ^ l)")
    case True
    have "\<not> 2 ^ Suc k dvd Suc c" if "l \<le> k" for k
      using True dvd_Suc_iff [OF less.prems(1)] that le_imp_power_dvd [of "Suc l" "Suc k" "2 :: nat"] dvd_trans by (metis Suc_le_mono)
    then have no: "\<not> (\<exists>k\<ge>l. 2 ^ Suc k dvd Suc c \<and> merkle_level zs k ! (c div 2 ^ k - 1) = merkle_level zs k ! (c div 2 ^ k))" by blast
    have "leaf_levels (of_nat (Suc c)) inners ml l (merkle_level zs l ! (c div 2 ^ l)) mh mut br =
        Some (l, merkle_level zs l ! (c div 2 ^ l), mh, mut, br)" using True l bit by (intro leaf_levels_stop) blast+
    with True l less.prems no show ?thesis by blast
  next
    case False
    let ?i = "c div 2 ^ l"
    have i: "?i = Suc c div 2 ^ l - 1" using div_pred [OF less.prems(1)] .
    have pos: "0 < Suc c div 2 ^ l" using \<open>2 ^ l \<le> Suc c\<close> by (simp add: div_greater_zero_iff)
    then have odd: "odd ?i" using False i by simp
    have "Suc c div 2 ^ l * 2 ^ l \<le> length zs" using assms(1) div_times_less_eq_dividend [of "Suc c" "2 ^ l"] by linarith
    then have lt: "?i < length (merkle_level zs l)" using complete_le [of "Suc c div 2 ^ l" l zs] pos i by linarith
    have inn: "inners ! l = merkle_level zs l ! (?i - 1)" using assms(3) l odd by (simp add: inner_ok_def)
    obtain br1 mh1 where bs: "branch_step br mh ml l (merkle_level zs l ! (?i - 1)) (merkle_level zs l ! ?i) = (br1, mh1)" by fastforce
    have dvd: "2 ^ Suc l dvd Suc c" using False dvd_Suc_iff [OF less.prems(1)] by simp
    let ?mut = "mut \<or> merkle_level zs l ! (?i - 1) = merkle_level zs l ! ?i"
    have step: "leaf_levels (of_nat (Suc c)) inners ml l (merkle_level zs l ! ?i) mh mut br =
        leaf_levels (of_nat (Suc c)) inners ml (Suc l) (merkle_level zs (Suc l) ! (c div 2 ^ Suc l)) mh1 ?mut br1"
      using leaf_levels_step [OF l, of "of_nat (Suc c)" br mh ml inners "merkle_level zs l ! ?i" br1 mh1 mut] bit False bs
      unfolding inn climb_node [OF odd lt] by blast
    have ex: "(\<exists>k\<ge>l. P k) \<longleftrightarrow> P l \<or> (\<exists>k\<ge>Suc l. P k)" for P by (metis Suc_leD le_eq_less_or_eq Suc_leI)
    have "32 - Suc l < 32 - l" using l by simp
    from less.hyps [OF this dvd climb_step [OF less.prems(2) odd lt bs], of ?mut] show ?thesis
      unfolding step ex [of "\<lambda>k. 2 ^ Suc k dvd Suc c \<and> merkle_level zs k ! (c div 2 ^ k - 1) = merkle_level zs k ! (c div 2 ^ k)"]
      using dvd by (simp del: power_Suc)
  qed
qed

lemma no_higher_power:
  assumes "2 ^ l dvd (c :: nat)" "odd (c div 2 ^ l)" "l < k"
  shows "\<not> 2 ^ k dvd c"
  using assms dvd_Suc_iff [OF assms(1)] le_imp_power_dvd [of "Suc l" k "2 :: nat"] dvd_trans by (metis Suc_leI)

lemma inner_ok_store:
  assumes "inner_ok zs c inners" "l < 32" "2 ^ l dvd Suc c" "odd (Suc c div 2 ^ l)"
  shows "inner_ok zs (Suc c) (inners[l := merkle_level zs l ! (c div 2 ^ l)])"
  unfolding inner_ok_def
proof (intro conjI allI impI)
  show "length (inners[l := merkle_level zs l ! (c div 2 ^ l)]) = 32" using assms(1) by (simp add: inner_ok_def)
  fix k :: nat
  assume k: "k < 32" "odd (Suc c div 2 ^ k)"
  consider "k < l" | "k = l" | "l < k" by linarith
  then show "inners[l := merkle_level zs l ! (c div 2 ^ l)] ! k = merkle_level zs k ! (Suc c div 2 ^ k - 1)"
  proof cases
    case 1
    then have "2 ^ Suc k dvd Suc c" "2 ^ k dvd Suc c" using assms(3) le_imp_power_dvd [of _ l "2 :: nat"] dvd_trans by (metis Suc_leI, metis less_imp_le)
    then show ?thesis using dvd_Suc_iff [of k "Suc c"] k by blast
  next
    case 2
    then show ?thesis using assms div_pred [OF assms(3)] by (simp add: inner_ok_def)
  next
    case 3
    then have "Suc c div 2 ^ k = c div 2 ^ k" using no_higher_power [OF assms(3, 4)] by (intro div_same) blast
    with 3 k assms(1) show ?thesis by (simp add: inner_ok_def)
  qed
qed

lemma match_ok_store:
  assumes "climb_ok zs pos c (Suc c) l (c div 2 ^ l) mh ml (Some ps)" "l < 32" "2 ^ l dvd Suc c" "odd (Suc c div 2 ^ l)"
  shows "match_ok zs pos (Suc c) (Suc c) 0 (if mh then int l else ml) ps"
proof (cases mh)
  case True
  then have p: "pos div 2 ^ l = c div 2 ^ l" "ps = siblings zs pos l" using assms(1) by (simp_all add: climb_ok_def)
  have e: "c div 2 ^ l = Suc c div 2 ^ l - 1" using div_pred [OF assms(3)] .
  have "\<not> Suc c \<le> pos"
  proof
    assume "Suc c \<le> pos"
    then have "Suc c div 2 ^ l \<le> pos div 2 ^ l" by (rule div_le_mono)
    with p e assms(4) show False by (cases "Suc c div 2 ^ l") simp_all
  qed
  with True p e assms show ?thesis by (auto simp: match_ok_def)
next
  case False
  have "odd (Suc c div 2 ^ k) \<and> Suc c div 2 ^ k = c div 2 ^ k" if "l \<le> k" "odd (c div 2 ^ k)" for k
  proof (cases "k = l")
    case True
    then show ?thesis using div_pred [OF assms(3)] that assms(4) by (cases "Suc c div 2 ^ l") simp_all
  next
    case False
    then have "Suc c div 2 ^ k = c div 2 ^ k" using no_higher_power [OF assms(3, 4), of k] that by (intro div_same) simp
    with that show ?thesis by simp
  qed
  with False assms(1) show ?thesis by (auto simp: climb_ok_def match_ok_def split: if_splits)
qed

lemma mutated_upto_Suc:
  "mutated_upto zs (Suc c) \<longleftrightarrow>
     mutated_upto zs c \<or> (\<exists>k\<ge>0. 2 ^ Suc k dvd Suc c \<and> merkle_level zs k ! (c div 2 ^ k - 1) = merkle_level zs k ! (c div 2 ^ k))"
proof -
  have eq: "(\<exists>i. (2 * i + 2) * 2 ^ k = Suc c \<and> P (2 * i) (2 * i + 1)) \<longleftrightarrow> 2 ^ Suc k dvd Suc c \<and> P (c div 2 ^ k - 1) (c div 2 ^ k)" for k P
  proof
    assume "\<exists>i. (2 * i + 2) * 2 ^ k = Suc c \<and> P (2 * i) (2 * i + 1)"
    then obtain i where i: "(2 * i + 2) * 2 ^ k = Suc c" "P (2 * i) (2 * i + 1)" by blast
    then have d: "2 ^ Suc k dvd Suc c" "Suc c div 2 ^ k = 2 * i + 2" "2 ^ k dvd Suc c"
      by (metis add_mult_distrib2 dvd_triv_right mult.assoc mult.commute mult_2 nat_mult_1_right power_Suc, simp_all flip: i(1))
    with i(2) div_pred [OF d(3)] show "2 ^ Suc k dvd Suc c \<and> P (c div 2 ^ k - 1) (c div 2 ^ k)" by simp
  next
    assume a: "2 ^ Suc k dvd Suc c \<and> P (c div 2 ^ k - 1) (c div 2 ^ k)"
    then obtain m where m: "Suc c = 2 ^ Suc k * m" by blast
    then have "0 < m" by (cases m) simp_all
    then obtain i where i: "m = Suc i" by (cases m) simp_all
    have "2 ^ k dvd Suc c" "Suc c div 2 ^ k = 2 * i + 2" using m i by (simp_all add: algebra_simps)
    with div_pred [of k c] a m i show "\<exists>i. (2 * i + 2) * 2 ^ k = Suc c \<and> P (2 * i) (2 * i + 1)"
      by (intro exI [of _ i]) (simp add: algebra_simps)
  qed
  have "mutated_upto zs (Suc c) \<longleftrightarrow>
      mutated_upto zs c \<or> (\<exists>k i. (2 * i + 2) * 2 ^ k = Suc c \<and> merkle_level zs k ! (2 * i) = merkle_level zs k ! (2 * i + 1))"
    unfolding mutated_upto_def le_Suc_eq by blast
  then show ?thesis unfolding eq [of _ "\<lambda>i j. merkle_level zs _ ! i = merkle_level zs _ ! j"] by simp
qed

lemma branch_step_None: "branch_step br mh ml l a h = (br', mh') \<Longrightarrow> br = None \<longleftrightarrow> br' = None"
  by (auto simp: branch_step_def split: option.splits if_splits)

lemma leaf_levels_None: "leaf_levels count inners ml l h mh mut br = Some (l', h', mh', mut', br') \<Longrightarrow> br = None \<longleftrightarrow> br' = None"
proof (induction count inners ml l h mh mut br rule: leaf_levels.induct)
  case (1 count inners ml l h mh mut br)
  obtain br1 mh1 where b: "branch_step br mh ml l (inners ! l) h = (br1, mh1)" by fastforce
  have "br1 = None \<longleftrightarrow> br' = None" if "\<not> 32 \<le> l" "\<not> level_bit count l"
    using 1(1) [OF that b [symmetric]] 1(2) that b by (simp add: leaf_levels.simps [of count inners ml l])
  then show ?case using 1(2) branch_step_None [OF b] by (auto simp: leaf_levels.simps [of count inners ml l] split: if_splits)
qed

lemma merkle_leaves_spec:
  assumes "length zs \<le> 2 ^ 31"
  shows "leaves = drop c zs \<Longrightarrow> c \<le> length zs \<Longrightarrow> inner_ok zs c inners \<Longrightarrow>
    (\<And>ps. br = Some ps \<Longrightarrow> match_ok zs (unat pos) c c 0 ml ps) \<Longrightarrow>
    \<exists>inners' ml' br'. merkle_leaves leaves pos (of_nat c) inners ml (mutated_upto zs c) br =
        Some (of_nat (length zs), inners', ml', mutated_upto zs (length zs), br') \<and>
      inner_ok zs (length zs) inners' \<and> (br = None \<longleftrightarrow> br' = None) \<and>
      (\<forall>ps. br' = Some ps \<longrightarrow> match_ok zs (unat pos) (length zs) (length zs) 0 ml' ps)"
proof (induction leaves arbitrary: c inners ml br)
  case Nil
  then have "c = length zs" by simp
  then show ?case using Nil by simp
next
  case (Cons leaf leaves)
  then have c: "c < length zs" by (metis drop_all leI list.distinct(1))
  then have drop: "leaf = zs ! c" "leaves = drop (Suc c) zs" using Cons.prems(1) by (simp_all add: Cons_nth_drop_Suc [symmetric])
  let ?mh = "of_nat c = pos"
  have mh: "?mh \<longleftrightarrow> unat pos = c" 
    using c assms by (subst word_unat_eq_iff) (auto simp: unat_of_nat)
  have "climb_ok zs (unat pos) c (Suc c) 0 (c div 2 ^ 0) ?mh ml br"
    using Cons.prems(4) mh by (cases br) (auto simp: climb_ok_def match_ok_def siblings_def split: if_splits)
  from leaf_levels_spec [OF _ assms Cons.prems(3) _ this, of "mutated_upto zs c"] c obtain l mh' br' mut' where
    r: "leaf_levels (of_nat (Suc c)) inners ml 0 leaf ?mh (mutated_upto zs c) br = Some (l, merkle_level zs l ! (c div 2 ^ l), mh', mut', br')"
      "l < 32" "2 ^ l dvd Suc c" "odd (Suc c div 2 ^ l)" "climb_ok zs (unat pos) c (Suc c) l (c div 2 ^ l) mh' ml br'"
      "mut' \<longleftrightarrow> mutated_upto zs (Suc c)"
    unfolding mutated_upto_Suc by (auto simp: drop(1) simp del: power_Suc of_nat_Suc)
  have m: "match_ok zs (unat pos) (Suc c) (Suc c) 0 (if mh' then int l else ml) ps" if "br' = Some ps" for ps
    using match_ok_store [OF _ r(2-4)] r(5) that by simp
  have none: "br = None \<longleftrightarrow> br' = None" using leaf_levels_None [OF r(1)] .
  have "merkle_leaves (leaf # leaves) pos (of_nat c) inners ml (mutated_upto zs c) br =
      merkle_leaves leaves pos (of_nat (Suc c)) (inners[l := merkle_level zs l ! (c div 2 ^ l)]) (if mh' then int l else ml) (mutated_upto zs (Suc c)) br'"
    using r(1, 6) by (simp add: add.commute)
  with Cons.IH [OF drop(2) _ inner_ok_store [OF Cons.prems(3) r(2-4)] m] c none show ?case by simp
qed

section \<open>The sweep\<close>

lemma push_bit_of_nat: "push_bit l (1 :: u32) = of_nat (2 ^ l)"
  by simp

lemma of_nat_eq_iff_u32: "a < 2 ^ 32 \<Longrightarrow> b < 2 ^ 32 \<Longrightarrow> of_nat a = (of_nat b :: u32) \<longleftrightarrow> a = b"
  by (subst word_unat_eq_iff) (auto simp: unat_of_nat)

lemma skip_levels_spec:
  assumes "0 < c" "c \<le> 2 ^ 31"
  shows "2 ^ l dvd c \<Longrightarrow> \<exists>l'. skip_levels (of_nat c) l = Some l' \<and> l' < 32 \<and> 2 ^ l' dvd c \<and> odd (c div 2 ^ l')"
proof (induction "32 - l" arbitrary: l rule: less_induct)
  case less
  have "2 ^ l \<le> c" using less.prems assms(1) by (simp add: dvd_imp_le)
  then have "(2 :: nat) ^ l \<le> 2 ^ 31" using assms by linarith
  then have "l \<le> 31" by (rule power_le_imp_le_exp [of "2 :: nat", rotated]) simp
  then have l: "l < 32" by simp
  have bit: "level_bit (of_nat c) l \<longleftrightarrow> odd (c div 2 ^ l)" using l assms by (intro level_bit_iff) auto
  show ?case
  proof (cases "odd (c div 2 ^ l)")
    case True
    then show ?thesis using l bit less.prems by (simp add: skip_levels.simps [of _ l])
  next
    case False
    then have "2 ^ Suc l dvd c" using dvd_Suc_iff [OF less.prems] by simp
    with less.hyps [of "Suc l"] l False bit show ?thesis by (subst skip_levels.simps) (simp del: power_Suc)
  qed
qed

lemma sweep_levels_stop:
  "l < 32 \<Longrightarrow> level_bit count l \<Longrightarrow> sweep_levels count inners ml l h mh br = Some (l, h, mh, br)"
  by (subst sweep_levels.simps) simp

lemma sweep_levels_step:
  "l < 32 \<Longrightarrow> \<not> level_bit count l \<Longrightarrow> branch_step br mh ml l (inners ! l) h = (br', mh') \<Longrightarrow>
     sweep_levels count inners ml l h mh br = sweep_levels count inners ml (Suc l) (merkle_hash (inners ! l) h) mh' br'"
  by (subst sweep_levels.simps) simp

lemma edge_bit:
  assumes "edge_ok zs l count"
  shows "level_bit (of_nat count) l \<longleftrightarrow> odd (length (merkle_level zs l))"
  using assms level_bit_iff [of l count] by (simp add: edge_ok_def)

lemma edge_up:
  assumes "edge_ok zs l count" "even (length (merkle_level zs l))"
  shows "edge_ok zs (Suc l) count"
proof -
  let ?n = "length (merkle_level zs l)"
  have n: "length (merkle_level zs (Suc l)) = ?n div 2" using assms(2) by (simp add: merkle_level_Suc)
  have c: "count = 2 ^ l * ?n" "0 < count" "count \<le> 2 ^ 31" using assms(1) by (auto simp: edge_ok_def)
  then have "?n \<noteq> 0" by (metis mult_0_right less_numeral_extra(3))
  moreover have "?n \<noteq> 1" using assms(2) by auto
  ultimately have gt: "1 < ?n" by linarith
  have count: "count = 2 ^ Suc l * (?n div 2)" using c(1) assms(2) by (simp add: mult.assoc [symmetric] mult.commute [of 2])
  then have "2 ^ Suc l \<le> count" using c(2) by (metis dvd_imp_le dvd_triv_left)
  then have "(2 :: nat) ^ Suc l \<le> 2 ^ 31" using c(3) by linarith
  then have "Suc l \<le> 31" by (rule power_le_imp_le_exp [of "2 :: nat", rotated]) simp
  moreover have "\<forall>j<Suc l. 1 < length (merkle_level zs j)" using assms(1) gt by (auto simp: edge_ok_def less_Suc_eq)
  ultimately show ?thesis using c n count by (simp add: edge_ok_def)
qed

lemma length_edge:
  assumes "\<not> 2 ^ l dvd length zs"
  shows "length (merkle_level zs l) - 1 = length zs div 2 ^ l" "length zs div 2 ^ l < length (merkle_level zs l)"
    "even (length (merkle_level zs l)) \<longleftrightarrow> odd (length zs div 2 ^ l)"
  using length_merkle_level_not_dvd [OF assms] by simp_all

lemma sweep_levels_spec:
  assumes "inner_ok zs (length zs) inners"
  shows "edge_ok zs l count \<Longrightarrow> \<not> 2 ^ l dvd length zs \<Longrightarrow>
    climb_ok zs pos (length zs) (length zs) l (length zs div 2 ^ l) mh ml br \<Longrightarrow>
    \<exists>l' mh' br'. sweep_levels (of_nat count) inners ml l (merkle_level zs l ! (length zs div 2 ^ l)) mh br =
        Some (l', merkle_level zs l' ! (length zs div 2 ^ l'), mh', br') \<and> l \<le> l' \<and> \<not> 2 ^ l' dvd length zs \<and>
      edge_ok zs l' count \<and> odd (length (merkle_level zs l')) \<and>
      climb_ok zs pos (length zs) (length zs) l' (length zs div 2 ^ l') mh' ml br' \<and> (br = None \<longleftrightarrow> br' = None)"
proof (induction "32 - l" arbitrary: l mh br rule: less_induct)
  case less
  let ?i = "length zs div 2 ^ l"
  have l: "l < 32" using less.prems(1) by (simp add: edge_ok_def)
  show ?case
  proof (cases "odd (length (merkle_level zs l))")
    case True
    then show ?thesis using l edge_bit [OF less.prems(1)] less.prems by (simp add: sweep_levels_stop)
  next
    case False
    then have odd: "odd ?i" using length_edge(3) [OF less.prems(2)] by simp
    have lt: "?i < length (merkle_level zs l)" using length_edge(2) [OF less.prems(2)] .
    have inn: "inners ! l = merkle_level zs l ! (?i - 1)" using assms l odd by (simp add: inner_ok_def)
    obtain br1 mh1 where bs: "branch_step br mh ml l (merkle_level zs l ! (?i - 1)) (merkle_level zs l ! ?i) = (br1, mh1)" by fastforce
    have step: "sweep_levels (of_nat count) inners ml l (merkle_level zs l ! ?i) mh br =
        sweep_levels (of_nat count) inners ml (Suc l) (merkle_level zs (Suc l) ! (length zs div 2 ^ Suc l)) mh1 br1"
      using sweep_levels_step [OF l, of "of_nat count" br mh ml inners "merkle_level zs l ! ?i" br1 mh1] edge_bit [OF less.prems(1)] False bs
      unfolding inn climb_node [OF odd lt] by blast
    have nd: "\<not> 2 ^ Suc l dvd length zs" using less.prems(2) le_imp_power_dvd [of l "Suc l" "2 :: nat"] dvd_trans by (metis le_SucI le_refl)
    have e: "edge_ok zs (Suc l) count" using edge_up less.prems(1) False by blast
    have "32 - Suc l < 32 - l" using l by simp
    from less.hyps [OF this e nd climb_step [OF less.prems(3) odd lt bs]] branch_step_None [OF bs] show ?thesis
      unfolding step by (metis Suc_leD)
  qed
qed

lemma head_done:
  assumes "head_ok zs pos l (2 ^ l) mh ml br"
  shows "merkle_level zs l ! (length (merkle_level zs l) - 1) = merkle_root zs"
    "pos < length zs \<Longrightarrow> br = Some ps \<Longrightarrow> ps = merkle_path zs pos"
proof -
  have e: "edge_ok zs l (2 ^ l)" using assms by (simp add: head_ok_def)
  then have one: "length (merkle_level zs l) = 1" by (simp add: edge_ok_def)
  then obtain r where r: "merkle_level zs l = [r]" by (auto simp: length_Suc_conv)
  have gt: "1 < length (merkle_level zs j)" if "j < l" for j using e that unfolding edge_ok_def by blast
  from merkle_root_level [of l zs, OF gt] r show "merkle_level zs l ! (length (merkle_level zs l) - 1) = merkle_root zs" by simp
  assume pos: "pos < length zs" "br = Some ps"
  have "length zs \<le> 2 ^ l"
  proof (rule ccontr)
    assume "\<not> length zs \<le> 2 ^ l"
    then have "2 * 2 ^ l \<le> length zs + 2 ^ l - 1" by simp
    then have "2 \<le> (length zs + 2 ^ l - 1) div 2 ^ l" by (simp add: less_eq_div_iff_mult_less_eq)
    with one length_merkle_level [of zs l] show False by simp
  qed
  have mh
  proof (rule ccontr)
    assume "\<not> mh"
    then obtain k where k: "l \<le> k" "ml = int k" "odd (length zs div 2 ^ k)" "k \<noteq> l"
      using assms pos by (auto simp: head_ok_def climb_ok_def match_ok_def)
    then have "(2 :: nat) ^ l < 2 ^ k" by simp
    then have "length zs < 2 ^ k" using \<open>length zs \<le> 2 ^ l\<close> by linarith
    then have "length zs div 2 ^ k = 0" by simp
    with k(3) show False by simp
  qed
  then have "ps = siblings zs pos l" using assms pos by (simp add: head_ok_def climb_ok_def)
  moreover have "merkle_path (merkle_level zs l) (pos div 2 ^ l) = []" using one by (subst merkle_path.simps) simp
  ultimately show "ps = merkle_path zs pos" using merkle_path_level [of l zs pos, OF gt] by (simp add: siblings_def)
qed

text \<open>An odd level that is not the root's: its last node is hashed with itself.\<close>

lemma head_double:
  assumes "head_ok zs pos l count mh ml br" "count \<noteq> 2 ^ l"
    "br' = (case br of None \<Rightarrow> None | Some ps \<Rightarrow> Some (if mh then ps @ [merkle_level zs l ! (length (merkle_level zs l) - 1)] else ps))"
  shows "edge_ok zs (Suc l) (count + 2 ^ l)" "\<not> 2 ^ Suc l dvd length zs"
    "climb_ok zs pos (length zs) (length zs) (Suc l) (length zs div 2 ^ Suc l) mh ml br'"
    "merkle_hash (merkle_level zs l ! (length (merkle_level zs l) - 1)) (merkle_level zs l ! (length (merkle_level zs l) - 1)) =
     merkle_level zs (Suc l) ! (length zs div 2 ^ Suc l)"
proof -
  let ?n = "length (merkle_level zs l)"
  have e: "count = 2 ^ l * ?n" "count \<le> 2 ^ 31" "l < 32" "\<forall>j<l. 1 < length (merkle_level zs j)" and odd: "odd ?n"
    using assms(1) by (auto simp: head_ok_def edge_ok_def)
  obtain m where m: "?n = 2 * m + 1" using odd by (rule oddE)
  then have "m \<noteq> 0" using assms(2) e(1) by auto
  have up: "length (merkle_level zs (Suc l)) = m + 1" using m by (simp add: merkle_level_Suc)
  have count: "count + 2 ^ l = 2 ^ Suc l * (m + 1)" using e(1) m by (simp add: algebra_simps)
  have "2 ^ l * 2 \<le> count" using e(1) m \<open>m \<noteq> 0\<close> by simp
  then have "(2 :: nat) ^ Suc l \<le> 2 ^ 31" using e(2) by (simp only: power_Suc2)
  then have l: "Suc l \<le> 31" by (rule power_le_imp_le_exp [of "2 :: nat", rotated]) simp
  have "2 ^ l * (2 * m + 1) \<le> 2 ^ l * (2 * 2 ^ (31 - Suc l))" using e(1, 2) m l by (simp flip: power_Suc power_add)
  then have "2 * m + 1 \<le> 2 * 2 ^ (31 - Suc l)" by (simp only: nat_mult_le_cancel1 zero_less_power zero_less_numeral)
  then have "m + 1 \<le> 2 ^ (31 - Suc l)" by linarith
  then have "2 ^ Suc l * (m + 1) \<le> 2 ^ Suc l * 2 ^ (31 - Suc l)" by (rule mult_le_mono2)
  also have "\<dots> = 2 ^ 31" using l by (simp only: power_add [symmetric] le_add_diff_inverse)
  finally have le: "count + 2 ^ l \<le> 2 ^ 31" using count by simp
  have "\<forall>j<Suc l. 1 < length (merkle_level zs j)" using e(4) m \<open>m \<noteq> 0\<close> by (auto simp: less_Suc_eq)
  with le count up l show "edge_ok zs (Suc l) (count + 2 ^ l)" by (simp add: edge_ok_def)
  show nd: "\<not> 2 ^ Suc l dvd length zs"
  proof (cases "2 ^ l dvd length zs")
    case True
    then show ?thesis using dvd_Suc_iff [OF True] length_merkle_level_dvd [OF True] odd by simp
  next
    case False
    then show ?thesis using le_imp_power_dvd [of l "Suc l" "2 :: nat"] dvd_trans by (metis le_SucI le_refl)
  qed
  have i: "length zs div 2 ^ Suc l = m" using length_edge(1) [OF nd] up by simp
  show "merkle_hash (merkle_level zs l ! (?n - 1)) (merkle_level zs l ! (?n - 1)) = merkle_level zs (Suc l) ! (length zs div 2 ^ Suc l)"
    using node_last [of m zs l] m i by simp
  have d: "x div 2 ^ Suc l = x div 2 ^ l div 2" for x :: nat by (simp only: power_Suc2 div_mult2_eq)
  show "climb_ok zs pos (length zs) (length zs) (Suc l) (length zs div 2 ^ Suc l) mh ml br'"
  proof (cases br)
    case (Some ps)
    have c: "if mh then pos div 2 ^ l = 2 * m \<and> ps = siblings zs pos l else match_ok zs pos (length zs) (length zs) l ml ps"
        "mh \<or> ml \<noteq> int l" using assms(1) Some m by (auto simp: head_ok_def climb_ok_def)
    show ?thesis
    proof (cases mh)
      case True
      then show ?thesis using c(1) Some m unfolding i assms(3) climb_ok_def by (simp add: siblings_Suc sibling_def d del: power_Suc)
    next
      case False
      then have "match_ok zs pos (length zs) (length zs) (Suc l) ml ps"
        using c by (auto simp: match_ok_def intro: Suc_leI order_neq_le_trans split: if_splits)
      then show ?thesis using False Some unfolding assms(3) climb_ok_def by simp
    qed
  qed (simp add: assms(3) climb_ok_def)
qed

lemma merkle_sweep_spec:
  assumes "inner_ok zs (length zs) inners"
  shows "32 - l \<le> fuel \<Longrightarrow> head_ok zs pos l count mh ml br \<Longrightarrow>
    \<exists>br'. merkle_sweep fuel (of_nat count) inners ml l (merkle_level zs l ! (length (merkle_level zs l) - 1)) mh br =
        Some (merkle_root zs, br') \<and> (br = None \<longleftrightarrow> br' = None) \<and> (pos < length zs \<longrightarrow> (\<forall>ps. br' = Some ps \<longrightarrow> ps = merkle_path zs pos))"
proof (induction fuel arbitrary: l count mh br)
  case 0
  then show ?case by (simp add: head_ok_def edge_ok_def)
next
  case (Suc fuel)
  have b: "l < 32" "count < 2 ^ 32" using Suc.prems(2) by (simp_all add: head_ok_def edge_ok_def)
  have "(2 :: nat) ^ l < 2 ^ 32" using b(1) by (rule power_strict_increasing) simp
  then have eq: "of_nat count = push_bit l (1 :: u32) \<longleftrightarrow> count = 2 ^ l" unfolding push_bit_of_nat using b(2) by (rule of_nat_eq_iff_u32 [rotated])
  show ?case
  proof (cases "count = 2 ^ l")
    case True
    then have h: "head_ok zs pos l (2 ^ l) mh ml br" using Suc.prems(2) by simp
    have "merkle_sweep (Suc fuel) (of_nat count) inners ml l (merkle_root zs) mh br = Some (merkle_root zs, br)"
      using True b(1) eq by (subst merkle_sweep.simps) simp
    then show ?thesis unfolding head_done(1) [OF h] using head_done(2) [OF h] by blast
  next
    case False
    define br1 where "br1 = (case br of None \<Rightarrow> None | Some ps \<Rightarrow> Some (if mh then ps @ [merkle_level zs l ! (length (merkle_level zs l) - 1)] else ps))"
    note hd = head_double [OF Suc.prems(2) False br1_def]
    obtain l' mh' br' where r:
        "sweep_levels (of_nat (count + 2 ^ l)) inners ml (Suc l) (merkle_level zs (Suc l) ! (length zs div 2 ^ Suc l)) mh br1 =
           Some (l', merkle_level zs l' ! (length zs div 2 ^ l'), mh', br')" "Suc l \<le> l'" "\<not> 2 ^ l' dvd length zs"
        "edge_ok zs l' (count + 2 ^ l)" "odd (length (merkle_level zs l'))"
        "climb_ok zs pos (length zs) (length zs) l' (length zs div 2 ^ l') mh' ml br'" "br1 = None \<longleftrightarrow> br' = None"
      using sweep_levels_spec [OF assms hd(1-3)] by blast
    note le = length_edge [OF r(3)]
    have "ml \<noteq> int l'" if "\<not> mh'" "br' \<noteq> None"
      using r(5, 6) that le(3) by (auto simp: climb_ok_def match_ok_def split: if_splits)
    then have head: "head_ok zs pos l' (count + 2 ^ l) mh' ml br'" using r(4-6) le(1) by (auto simp: head_ok_def)
    have "merkle_sweep (Suc fuel) (of_nat count) inners ml l (merkle_level zs l ! (length (merkle_level zs l) - 1)) mh br =
        merkle_sweep fuel (of_nat (count + 2 ^ l)) inners ml l' (merkle_level zs l' ! (length (merkle_level zs l') - 1)) mh' br'"
      using b(1) eq False r(1) unfolding le(1) by (subst merkle_sweep.simps) (simp add: hd(4) [simplified] br1_def [simplified, symmetric])
    moreover have "br = None \<longleftrightarrow> br' = None" using r(7) by (cases br) (simp_all add: br1_def)
    ultimately show ?thesis using Suc.IH [OF _ head] Suc.prems(1) r(2) by simp
  qed
qed

lemma MerkleComputation_spec:
  assumes "length leaves \<le> 2 ^ 31" "leaves \<noteq> []"
  shows "\<exists>br. MerkleComputation leaves pos with_branch = Some (merkle_root leaves, merkle_mutated leaves, br) \<and>
    (br = None \<longleftrightarrow> \<not> with_branch) \<and> (unat pos < length leaves \<longrightarrow> (\<forall>ps. br = Some ps \<longrightarrow> ps = merkle_path leaves (unat pos)))"
proof -
  let ?n = "length leaves"
  define br0 :: "bytes list option" where "br0 = (if with_branch then Some [] else None)"
  have "inner_ok leaves 0 (replicate 32 null_uint256)" by (simp add: inner_ok_def)
  moreover have "match_ok leaves (unat pos) 0 0 0 (- 1) ps" if "br0 = Some ps" for ps using that by (auto simp: match_ok_def br0_def split: if_splits)
  moreover have "\<not> mutated_upto leaves 0" by (simp add: mutated_upto_def)
  ultimately obtain inners ml br where m:
      "merkle_leaves leaves pos 0 (replicate 32 null_uint256) (- 1) False br0 = Some (of_nat ?n, inners, ml, mutated_upto leaves ?n, br)"
      "inner_ok leaves ?n inners" "br0 = None \<longleftrightarrow> br = None" "\<forall>ps. br = Some ps \<longrightarrow> match_ok leaves (unat pos) ?n ?n 0 ml ps"
    using merkle_leaves_spec [OF assms(1), of leaves 0 "replicate 32 null_uint256" br0 pos "- 1"] by fastforce
  obtain l where l: "skip_levels (of_nat ?n) 0 = Some l" "l < 32" "2 ^ l dvd ?n" "odd (?n div 2 ^ l)"
    using skip_levels_spec [of ?n 0] assms by auto
  note len = length_merkle_level_dvd [OF l(3)]
  have gt: "1 < length (merkle_level leaves j)" if "j < l" for j
  proof -
    have d: "2 ^ Suc j dvd ?n" "2 ^ j dvd ?n" using l(3) that le_imp_power_dvd [of _ l "2 :: nat"] dvd_trans by (metis Suc_leI, metis less_imp_le)
    have "2 ^ Suc j \<le> ?n" using d(1) assms(2) by (simp add: dvd_imp_le)
    then have "2 \<le> ?n div 2 ^ j" by (simp add: less_eq_div_iff_mult_less_eq)
    then show ?thesis using length_merkle_level_dvd [OF d(2)] by simp
  qed
  have edge: "edge_ok leaves l ?n" using gt l assms len by (simp add: edge_ok_def)
  have "climb_ok leaves (unat pos) ?n ?n l (?n div 2 ^ l - 1) (ml = int l) ml br"
  proof (cases br)
    case (Some ps)
    then have k: "match_ok leaves (unat pos) ?n ?n 0 ml ps" using m(4) by blast
    have "l \<le> k" if "odd (?n div 2 ^ k)" for k
    proof (rule ccontr)
      assume "\<not> l \<le> k"
      then have "2 ^ Suc k dvd ?n" "2 ^ k dvd ?n" using l(3) le_imp_power_dvd [of _ l "2 :: nat"] dvd_trans by (metis not_less_eq_eq, metis nat_le_linear)
      then show False using that dvd_Suc_iff [of k ?n] by blast
    qed
    with k Some show ?thesis by (auto simp: climb_ok_def match_ok_def split: if_splits)
  qed (simp add: climb_ok_def)
  then have "head_ok leaves (unat pos) l ?n (ml = int l) ml br" using edge l(4) len by (simp add: head_ok_def)
  from merkle_sweep_spec [OF m(2) _ this, of 32] obtain br' where s:
      "merkle_sweep 32 (of_nat ?n) inners ml l (inners ! l) (ml = int l) br = Some (merkle_root leaves, br')" "br = None \<longleftrightarrow> br' = None"
      "unat pos < ?n \<longrightarrow> (\<forall>ps. br' = Some ps \<longrightarrow> ps = merkle_path leaves (unat pos))"
    using m(2) l(2, 4) len by (auto simp: inner_ok_def)
  have "mutated_upto leaves ?n = merkle_mutated leaves" by (simp add: mutated_upto_def merkle_mutated_def)
  with m(1, 3) l(1) s assms(2) show ?thesis by (auto simp: MerkleComputation_def br0_def split: if_splits)
qed

section \<open>Branches\<close>

lemma merkle_hash_Hash: "merkle_hash a b = Hash [a, b]"
  by (simp add: merkle_hash_def Hash_def)

lemma word_and_1: "w AND 1 \<noteq> 0 \<longleftrightarrow> odd (unat w)" for w :: u32
  using bit_unsigned_iff [where 'a = nat, of w 0] by (simp add: and_one_eq bit_0 even_iff_mod_2_eq_zero [symmetric])

lemma root_from_path:
  "i < length xs \<Longrightarrow> unat w = i \<Longrightarrow> ComputeMerkleRootFromBranch (xs ! i) (merkle_path xs i) w = merkle_root xs"
proof (induction xs i arbitrary: w rule: merkle_path.induct)
  case (1 xs i)
  show ?case
  proof (cases "length xs \<le> 1")
    case True
    then obtain a where "xs = [a]" using 1(2) by (cases xs) auto
    then show ?thesis using 1(2) by (simp add: merkle_path.simps)
  next
    case False
    have u: "unat (drop_bit 1 w) = i div 2" using 1(3) by (simp add: drop_bit_eq_div unat_div_distrib)
    have lt: "i div 2 < length (merkle_up xs)" using 1(2) by simp
    have up: "merkle_up xs ! (i div 2) = (if odd i then Hash [sibling xs i, xs ! i] else Hash [xs ! i, sibling xs i])"
    proof (cases "odd i")
      case True
      then obtain m where "i = 2 * m + 1" by (rule oddE)
      then show ?thesis using 1(2) by (simp add: merkle_up_nth sibling_def merkle_hash_Hash)
    next
      case False
      then obtain m where "i = 2 * m" by (auto elim: evenE)
      then show ?thesis using 1(2) by (simp add: merkle_up_nth sibling_def merkle_hash_Hash)
    qed
    have "ComputeMerkleRootFromBranch (xs ! i) (merkle_path xs i) w =
        ComputeMerkleRootFromBranch (merkle_up xs ! (i div 2)) (merkle_path (merkle_up xs) (i div 2)) (drop_bit 1 w)"
      using False 1(3) up by (subst merkle_path.simps) (simp add: word_and_1)
    also have "\<dots> = merkle_root (merkle_up xs)" using 1(1) [OF False lt u] .
    also have "\<dots> = merkle_root xs" using False by (intro merkle_root_up) simp
    finally show ?thesis .
  qed
qed

section \<open>A root fixes its leaves\<close>

lemma children_in_pairs:
  assumes "2 * i < length (merkle_level xs k)" "1 < length (merkle_level xs k)"
  shows "merkle_children xs k i \<in> merkle_pairs xs"
    "merkle_level xs (Suc k) ! i = merkle_hash (fst (merkle_children xs k i)) (snd (merkle_children xs k i))"
  using assms by (auto simp: merkle_pairs_def merkle_level_Suc merkle_up_nth)

lemma no_collision:
  assumes "\<not> merkle_collision xs ys" "p \<in> merkle_pairs xs \<union> merkle_pairs ys" "q \<in> merkle_pairs xs \<union> merkle_pairs ys"
    "merkle_hash (fst p) (snd p) = merkle_hash (fst q) (snd q)"
  shows "p = q"
  using assms by (auto simp: merkle_collision_def)

lemma equal_children:
  assumes "\<not> merkle_collision xs ys" "2 * i < length (merkle_level zs k)" "1 < length (merkle_level zs k)" "zs = xs \<or> zs = ys"
    "2 * j < length (merkle_level ws k)" "1 < length (merkle_level ws k)" "ws = xs \<or> ws = ys"
    "merkle_level zs (Suc k) ! i = merkle_level ws (Suc k) ! j"
  shows "merkle_children zs k i = merkle_children ws k j"
  using no_collision [OF assms(1)] children_in_pairs [OF assms(2, 3)] children_in_pairs [OF assms(5, 6)] assms(4, 7, 8)
  by (smt (verit) UnCI)

text \<open>Without equal neighbours a complete subtree never has the hash of the incomplete one at the right edge.\<close>

lemma complete_neq_incomplete:
  assumes "\<not> merkle_collision xs ys" "zs = xs \<or> zs = ys" "\<not> merkle_mutated zs"
  shows "\<not> 2 ^ k dvd length zs \<Longrightarrow> i < length zs div 2 ^ k \<Longrightarrow> merkle_level zs k ! i \<noteq> merkle_level zs k ! (length zs div 2 ^ k)"
proof (induction k arbitrary: i)
  case (Suc k)
  define n where "n = length zs div 2 ^ k"
  define q where "q = n div 2"
  have nq: "length zs div 2 ^ Suc k = q" unfolding n_def q_def by (simp only: power_Suc2 div_mult2_eq)
  then have i: "i < q" using Suc.prems(2) by simp
  have le: "n \<le> length (merkle_level zs k)"
    using length_merkle_level_dvd [of k zs] length_merkle_level_not_dvd [of k zs] unfolding n_def by (cases "2 ^ k dvd length zs") auto
  have ineq: "2 * i + 1 < n" "2 * q \<le> n" using i unfolding q_def by linarith+
  have "(2 * i + 2) * 2 ^ k \<le> n * 2 ^ k" using ineq(1) by (intro mult_le_mono1) linarith
  also have "\<dots> \<le> length zs" unfolding n_def by (rule div_times_less_eq_dividend)
  finally have neq: "merkle_level zs k ! (2 * i) \<noteq> merkle_level zs k ! (2 * i + 1)" using assms(3) by (auto simp: merkle_mutated_def)
  show ?case
  proof
    assume eq: "merkle_level zs (Suc k) ! i = merkle_level zs (Suc k) ! (length zs div 2 ^ Suc k)"
    have "q < length (merkle_level zs (Suc k))" using length_edge(2) [OF Suc.prems(1)] nq by simp
    then have ql: "2 * q < length (merkle_level zs k)" by (simp add: merkle_level_Suc)
    have ch: "merkle_children zs k i = merkle_children zs k q"
      using eq ineq le ql nq by (intro equal_children [OF assms(1) _ _ assms(2) _ _ assms(2)]) auto
    show False
    proof (cases "2 * q + 1 < length (merkle_level zs k)")
      case False
      with ch ineq le neq show False by auto
    next
      case True
      have nd: "\<not> 2 ^ k dvd length zs"
      proof
        assume d: "2 ^ k dvd length zs"
        then have "odd n" using dvd_Suc_iff [OF d] Suc.prems(1) unfolding n_def by blast
        then have "n = 2 * q + 1" unfolding q_def by simp
        with True length_merkle_level_dvd [OF d] show False unfolding n_def by simp
      qed
      then have "length (merkle_level zs k) = n + 1" using length_merkle_level_not_dvd [OF nd] unfolding n_def by simp
      with True ineq(2) q_def have "n = 2 * q + 1" by linarith
      with ch True ineq le have "merkle_level zs k ! (2 * i + 1) = merkle_level zs k ! n" by auto
      with Suc.IH [OF nd, of "2 * i + 1"] ineq(1) show False unfolding n_def by blast
    qed
  qed
qed simp

lemma neighbours_differ:
  assumes "\<not> merkle_collision xs ys" "zs = xs \<or> zs = ys" "\<not> merkle_mutated zs" "2 * i + 1 < length (merkle_level zs k)"
  shows "merkle_level zs k ! (2 * i) \<noteq> merkle_level zs k ! (2 * i + 1)"
proof (cases "2 * i + 1 < length zs div 2 ^ k")
  case True
  then have "(2 * i + 2) * 2 ^ k \<le> length zs" by (metis Suc_leI add_2_eq_Suc' less_eq_div_iff_mult_less_eq zero_less_numeral zero_less_power add_Suc_right One_nat_def add.right_neutral)
  then show ?thesis using assms(3) by (auto simp: merkle_mutated_def)
next
  case False
  have nd: "\<not> 2 ^ k dvd length zs" using False assms(4) length_merkle_level_dvd [of k zs] by auto
  then have "2 * i + 1 = length zs div 2 ^ k" using False assms(4) length_merkle_level_not_dvd [OF nd] by linarith
  then show ?thesis using complete_neq_incomplete [OF assms(1-3) nd, of "2 * i"] by simp
qed

lemma half_up_cases:
  fixes a b :: nat
  assumes "(a + 1) div 2 = (b + 1) div 2" "a \<noteq> b"
  obtains i where "a = 2 * i + 1" "b = 2 * i + 2" | i where "b = 2 * i + 1" "a = 2 * i + 2"
  using assms by (cases "even a"; cases "even b") (auto elim!: evenE oddE intro: that)

lemma double_less_iff: "2 * i < n \<longleftrightarrow> i < (n + 1) div 2" for i n :: nat
  by (cases "even n") (auto elim!: evenE oddE)

lemma level_down:
  assumes "\<not> merkle_collision xs ys" "\<not> merkle_mutated xs" "\<not> merkle_mutated ys" "merkle_level xs (Suc k) = merkle_level ys (Suc k)"
    "1 < length (merkle_level xs k)" "1 < length (merkle_level ys k)"
  shows "merkle_level xs k = merkle_level ys k"
proof -
  let ?x = "merkle_level xs k" and ?y = "merkle_level ys k"
  have len: "(length ?x + 1) div 2 = (length ?y + 1) div 2" using arg_cong [OF assms(4), of length] by (simp add: merkle_level_Suc)
  have ch: "merkle_children xs k i = merkle_children ys k i" if "2 * i < length ?x" for i
  proof -
    have "2 * i < length ?y" using that len unfolding double_less_iff by simp
    then show ?thesis using assms(4-6) that by (intro equal_children [OF assms(1)]) auto
  qed
  have leq: "length ?x = length ?y"
  proof (rule ccontr)
    assume "length ?x \<noteq> length ?y"
    then consider i where "length ?x = 2 * i + 1" "length ?y = 2 * i + 2" | i where "length ?y = 2 * i + 1" "length ?x = 2 * i + 2"
      using half_up_cases [OF len] by blast
    then show False
    proof cases
      case 1
      then show False using ch [of i] neighbours_differ [OF assms(1) _ assms(3), of i k] by auto
    next
      case 2
      then show False using ch [of i] neighbours_differ [OF assms(1) _ assms(2), of i k] by auto
    qed
  qed
  show ?thesis
  proof (rule nth_equalityI [OF leq])
    fix j assume j: "j < length ?x"
    then have "2 * (j div 2) < length ?x" by linarith
    from ch [OF this] j leq show "?x ! j = ?y ! j" by (cases "even j") (auto elim!: oddE split: if_splits)
  qed
qed

lemma level_zero:
  assumes "\<not> merkle_collision xs ys" "\<not> merkle_mutated xs" "\<not> merkle_mutated ys"
  shows "merkle_level xs k = merkle_level ys k \<Longrightarrow>
    (\<And>j. j < k \<Longrightarrow> 1 < length (merkle_level xs j) \<and> 1 < length (merkle_level ys j)) \<Longrightarrow> xs = ys"
  using level_down [OF assms] by (induction k) auto

text \<open>The height of a tree.\<close>

lemma level_single:
  assumes "length xs \<le> 2 ^ d" "2 ^ d < 2 * length xs"
  shows "merkle_level xs d = [merkle_root xs]" "j < d \<Longrightarrow> 1 < length (merkle_level xs j)"
proof -
  show gt: "1 < length (merkle_level xs j)" if "j < d" for j
  proof -
    have "(2 :: nat) ^ Suc j \<le> 2 ^ d" using that by (intro power_increasing) auto
    then have "2 ^ j < length xs" using assms(2) by simp
    then have "2 * 2 ^ j \<le> length xs + 2 ^ j - 1" by simp
    then have "2 \<le> (length xs + 2 ^ j - 1) div 2 ^ j" by (simp add: less_eq_div_iff_mult_less_eq)
    then show ?thesis by (simp add: length_merkle_level)
  qed
  have "(length xs + 2 ^ d - 1) div 2 ^ d = 1" using assms by (intro div_nat_eqI) auto
  then have "length (merkle_level xs d) = 1" by (simp add: length_merkle_level)
  then obtain r where r: "merkle_level xs d = [r]" by (auto simp: length_Suc_conv)
  with merkle_root_level [of d xs, OF gt] show "merkle_level xs d = [merkle_root xs]" by simp
qed

lemma ComputeMerkleRoot_spec:
  assumes "length leaves \<le> 2 ^ 31"
  shows "ComputeMerkleRoot leaves = Some (merkle_root leaves, merkle_mutated leaves)"
proof (cases "leaves = []")
  case True
  then show ?thesis by (simp add: ComputeMerkleRoot_def MerkleComputation_def merkle_mutated_def)
next
  case False
  then obtain br where "MerkleComputation leaves (- 1) False = Some (merkle_root leaves, merkle_mutated leaves, br)"
    using MerkleComputation_spec [OF assms, of "- 1" False] by blast
  then show ?thesis by (simp add: ComputeMerkleRoot_def)
qed

lemma root_fixes_leaves:
  assumes "ComputeMerkleRoot xs = Some (r, False)" "ComputeMerkleRoot ys = Some (r, False)" "2 ^ d \<le> (2 :: nat) ^ 31"
    "length xs \<le> 2 ^ d" "2 ^ d < 2 * length xs" "length ys \<le> 2 ^ d" "2 ^ d < 2 * length ys"
  shows "xs = ys \<or> merkle_collision xs ys"
proof (rule disjCI)
  assume nc: "\<not> merkle_collision xs ys"
  have len: "length xs \<le> 2 ^ 31" "length ys \<le> 2 ^ 31" using assms(3-7) by linarith+
  have r: "merkle_root xs = r" "merkle_root ys = r" "\<not> merkle_mutated xs" "\<not> merkle_mutated ys"
    using ComputeMerkleRoot_spec [OF len(1)] ComputeMerkleRoot_spec [OF len(2)] assms(1, 2) by simp_all
  show "xs = ys"
    using level_single [OF assms(4, 5)] level_single [OF assms(6, 7)] r(1, 2) by (intro level_zero [OF nc r(3, 4), of d]) auto
qed

lemma not_mutated_three: "\<not> merkle_mutated [[1], [2], [3]]"
proof
  assume "merkle_mutated [[1], [2], [3]]"
  then obtain k i where ki: "(2 * i + 2) * 2 ^ k \<le> length [[1 :: 8 word], [2], [3]]" "merkle_level [[1], [2], [3]] k ! (2 * i) = merkle_level [[1], [2], [3]] k ! (2 * i + 1)"
    unfolding merkle_mutated_def by blast
  have "k = 0"
  proof (cases k)
    case (Suc j)
    have "1 * 1 \<le> (i + 1) * 2 ^ j" by (intro mult_le_mono) auto
    with ki(1) Suc show ?thesis by (simp add: algebra_simps)
  qed simp
  with ki show False by (cases i) simp_all
qed

section \<open>Properties\<close>

text \<open>
  C3: The root that the constant-space computation returns is that of the tree built level by level, where the last of an
  odd number of hashes is paired with itself, and its flag says exactly whether two neighbouring complete subtrees have the
  same hash.  The computation returns for up to 2147483648 leaves: no shift exceeds the width of the counter and no access the
  array of 32 hashes.
\<close>

theorem ComputeMerkleRoot_equals_levels:
  assumes "length leaves \<le> 2 ^ 31"
  shows "ComputeMerkleRoot leaves = Some (merkle_root leaves, merkle_mutated leaves)"
  by (rule ComputeMerkleRoot_spec [OF assms])

theorem ComputeMerkleRoot_equals_levels_witness:
  "ComputeMerkleRoot [[1], [2], [3]] = Some (Hash [Hash [[1], [2]], Hash [[3], [3]]], False)"
  using ComputeMerkleRoot_equals_levels [of "[[1], [2], [3]]"] not_mutated_three by (simp add: merkle_hash_Hash)

text \<open>
  C38: A branch proves its leaf: the branch computed for a position leads with \<^verbatim>\<open>ComputeMerkleRootFromBranch\<close> from the leaf there to the root.
  It is the list of the siblings on the path.
\<close>

theorem merkle_branch_verifies:
  assumes "length leaves \<le> 2 ^ 31" "unat position < length leaves"
  shows "ComputeMerkleBranch leaves position = Some (merkle_path leaves (unat position)) \<and>
    ComputeMerkleRootFromBranch (leaves ! unat position) (merkle_path leaves (unat position)) position = fst (the (ComputeMerkleRoot leaves))"
proof -
  have ne: "leaves \<noteq> []" using assms(2) by auto
  obtain br where br: "MerkleComputation leaves position True = Some (merkle_root leaves, merkle_mutated leaves, br)"
      "br \<noteq> None" "\<forall>ps. br = Some ps \<longrightarrow> ps = merkle_path leaves (unat position)"
    using MerkleComputation_spec [OF assms(1) ne, of position True] assms(2) by auto
  then show ?thesis using root_from_path [OF assms(2) refl] ComputeMerkleRoot_spec [OF assms(1)] by (auto simp: ComputeMerkleBranch_def)
qed

theorem merkle_branch_verifies_witness:
  "ComputeMerkleBranch [[1], [2], [3]] 2 = Some [[3], Hash [[1], [2]]] \<and>
   ComputeMerkleRootFromBranch [3] [[3], Hash [[1], [2]]] 2 = fst (the (ComputeMerkleRoot [[1], [2], [3]]))"
proof -
  have "merkle_path [[1], [2], [3]] 2 = [[3], Hash [[1], [2]]]"
    by (simp add: merkle_path.simps sibling_def merkle_hash_Hash)
  then show ?thesis using merkle_branch_verifies [of "[[1], [2], [3]]" 2] by simp
qed

text \<open>
  C10: A root fixes the leaves.  Two lists of leaves whose trees have the same height and the same root, neither of them
  flagged as mutated, are equal, unless two different pairs that are hashed for these roots have the same hash.
  So the flag detects every list that repeats leaves to get another list's root.
\<close>

theorem merkle_root_binding:
  assumes "ComputeMerkleRoot xs = Some (r, False)" "ComputeMerkleRoot ys = Some (r, False)" "2 ^ d \<le> (2 :: nat) ^ 31"
    "length xs \<le> 2 ^ d" "2 ^ d < 2 * length xs" "length ys \<le> 2 ^ d" "2 ^ d < 2 * length ys"
  shows "xs = ys \<or> merkle_collision xs ys"
  by (rule root_fixes_leaves [OF assms])

theorem merkle_root_binding_witness:
  "\<exists>xs r. ComputeMerkleRoot xs = Some (r, False) \<and> length xs = 3 \<and> (xs = [[1], [2], [3]] \<or> merkle_collision xs [[1], [2], [3]])"
proof -
  have c: "ComputeMerkleRoot [[1], [2], [3]] = Some (merkle_root [[1], [2], [3]], False)"
    using ComputeMerkleRoot_spec [of "[[1], [2], [3]]"] not_mutated_three by simp
  from merkle_root_binding [OF this this, of 2] c show ?thesis by (intro exI [of _ "[[1], [2], [3]]"]) auto
qed

end
