(* ===== verification/BlockCheck.thy ===== *)
theory BlockCheck
  imports VersionBits Merkle
begin

text \<open>
  The checks of headers and blocks that need no coins (\<^verbatim>\<open>CheckBlockHeader\<close>, \<^verbatim>\<open>CheckBlock\<close>, \<^verbatim>\<open>ContextualCheckBlockHeader\<close>,
  \<^verbatim>\<open>ContextualCheckBlock\<close>, \<^verbatim>\<open>AcceptBlockHeader\<close> of \<^verbatim>\<open>src/src/validation.cpp\<close>), the witness commitment, checkpoints
  (\<^verbatim>\<open>src/src/checkpoints.cpp\<close>) and the weight of a block.

  The member \<^verbatim>\<open>fChecked\<close> of a block, which lives in memory only, is passed and returned beside the block.  Log messages are left
  out; so is \<^verbatim>\<open>CheckBlockIndex\<close>, which only asserts when a debugging option asks for it.
\<close>

unbundle bit_operations_syntax

section \<open>Hexadecimal strings\<close>

definition hexmap :: string where
  "hexmap = ''0123456789abcdef''"

definition HexStr :: "bytes \<Rightarrow> string" where
  "HexStr data = concat (map (\<lambda>val. [hexmap ! unat (drop_bit 4 val), hexmap ! unat (val AND 15)]) data)"

definition uint256_GetHex :: "bytes \<Rightarrow> string" where
  "uint256_GetHex data = HexStr (rev data)"

section \<open>Parameters\<close>

text \<open>The checkpoints are a map from heights to hashes, here in ascending order of the heights.\<close>

record CChainParams =
  consensus :: ConsensusParams
  mapCheckpoints :: "(int \<times> bytes) list"

fun last_checkpoint_loop :: "BlockMap \<Rightarrow> (int \<times> bytes) list \<Rightarrow> block_ptr option" where
  "last_checkpoint_loop m [] = None"
| "last_checkpoint_loop m (i # is) = (if m (snd i) \<noteq> None then Some (snd i) else last_checkpoint_loop m is)"

definition GetLastCheckpoint :: "BlockMap \<Rightarrow> (int \<times> bytes) list \<Rightarrow> block_ptr option" where
  "GetLastCheckpoint m checkpoints = last_checkpoint_loop m (rev checkpoints)"

definition IsWitnessEnabled :: "ConsensusParams \<Rightarrow> bool" where
  "IsWitnessEnabled params = nSegwitEnabled params"

definition GetBlockWeight :: "CBlock \<Rightarrow> nat" where
  "GetBlockWeight block = length (Serialize_CBlock False block) * (WITNESS_SCALE_FACTOR - 1) + length (Serialize_CBlock True block)"

section \<open>Checks without context\<close>

definition CheckBlockHeader :: "(nat \<Rightarrow> bytes \<Rightarrow> bytes) \<Rightarrow> 'a CBlockHeader_scheme \<Rightarrow> CValidationState \<Rightarrow> ConsensusParams \<Rightarrow> bool
    \<Rightarrow> bool \<times> CValidationState" where
  "CheckBlockHeader sph block state consensusParams fCheckPOW =
     (if fCheckPOW \<and> \<not> CheckProofOfWork (CBlockHeader_GetHash sph block) (nBits block) consensusParams
      then DoS 50 False REJECT_INVALID ''high-hash'' False ''proof of work failed'' state
      else (True, state))"

fun check_transactions_loop :: "CTransaction list \<Rightarrow> CValidationState \<Rightarrow> bool \<times> CValidationState" where
  "check_transactions_loop [] state = (True, state)"
| "check_transactions_loop (tx # txs) state =
     (case CheckTransaction tx state False of
        (True, state') \<Rightarrow> check_transactions_loop txs state'
      | (False, state') \<Rightarrow>
          Invalid False (chRejectCode state') (strRejectReason state')
            (''Transaction check failed (tx hash '' @ uint256_GetHex (ComputeHash tx) @ '') '' @ strDebugMessage state') state')"

text \<open>The part of \<^verbatim>\<open>CheckBlock\<close> after the header and the merkle root.\<close>

definition check_block_contents :: "CBlock \<Rightarrow> CValidationState \<Rightarrow> bool \<times> CValidationState" where
  "check_block_contents block state =
     (if vtx block = [] \<or> length (vtx block) * WITNESS_SCALE_FACTOR > MAX_BLOCK_WEIGHT \<or>
         length (Serialize_CBlock False block) * WITNESS_SCALE_FACTOR > MAX_BLOCK_WEIGHT
      then DoS 100 False REJECT_INVALID ''bad-blk-length'' False ''size limits failed'' state
      else if vtx block = [] \<or> \<not> IsCoinBase (vtx block ! 0)
      then DoS 100 False REJECT_INVALID ''bad-cb-missing'' False ''first tx is not coinbase'' state
      else if list_ex IsCoinBase (tl (vtx block))
      then DoS 100 False REJECT_INVALID ''bad-cb-multiple'' False ''more than one coinbase'' state
      else
        (case check_transactions_loop (vtx block) state of
           (False, state') \<Rightarrow> (False, state')
         | (True, state') \<Rightarrow>
             let nSigOps = foldl (\<lambda>n tx. n + GetLegacySigOpCount tx) (0 :: u32) (vtx block)
             in if int (unat (nSigOps * 4)) > MAX_BLOCK_SIGOPS_COST
                then DoS 100 False REJECT_INVALID ''bad-blk-sigops'' False ''out-of-bounds SigOpCount'' state'
                else (True, state')))"

definition check_merkle_root :: "CBlock \<Rightarrow> CValidationState \<Rightarrow> (bool \<times> CValidationState) option" where
  "check_merkle_root block state =
     (case BlockMerkleRoot block of
        None \<Rightarrow> None
      | Some (hashMerkleRoot2, mutated) \<Rightarrow>
          Some (if hashMerkleRoot block \<noteq> hashMerkleRoot2
                then DoS 100 False REJECT_INVALID ''bad-txnmrklroot'' True ''hashMerkleRoot mismatch'' state
                else if mutated then DoS 100 False REJECT_INVALID ''bad-txns-duplicate'' True ''duplicate transaction'' state
                else (True, state)))"

text \<open>The result is the Boolean, the state and the member \<^verbatim>\<open>fChecked\<close>; \<^const>\<open>None\<close> is undefined behaviour of the merkle root.\<close>

definition CheckBlock :: "(nat \<Rightarrow> bytes \<Rightarrow> bytes) \<Rightarrow> CBlock \<Rightarrow> bool \<Rightarrow> CValidationState \<Rightarrow> ConsensusParams \<Rightarrow> bool \<Rightarrow> bool
    \<Rightarrow> (bool \<times> CValidationState \<times> bool) option" where
  "CheckBlock sph block fChecked state consensusParams fCheckPOW fCheckMerkleRoot =
     (if fChecked then Some (True, state, fChecked)
      else
        (case CheckBlockHeader sph block state consensusParams fCheckPOW of
           (False, state1) \<Rightarrow> Some (False, state1, fChecked)
         | (True, state1) \<Rightarrow>
             (case (if fCheckMerkleRoot then check_merkle_root block state1 else Some (True, state1)) of
                None \<Rightarrow> None
              | Some (False, state2) \<Rightarrow> Some (False, state2, fChecked)
              | Some (True, state2) \<Rightarrow>
                  (case check_block_contents block state2 of
                     (False, state3) \<Rightarrow> Some (False, state3, fChecked)
                   | (True, state3) \<Rightarrow> Some (True, state3, fCheckPOW \<and> fCheckMerkleRoot)))))"

section \<open>Witness commitments\<close>

definition is_commitment :: "bytes \<Rightarrow> bool" where
  "is_commitment script \<longleftrightarrow>
     length script \<ge> 38 \<and> unat (script ! 0) = OP_RETURN \<and> script ! 1 = 0x24 \<and> script ! 2 = 0xaa \<and> script ! 3 = 0x21 \<and>
     script ! 4 = 0xa9 \<and> script ! 5 = 0xed"

fun commitment_loop :: "CTxOut list \<Rightarrow> int \<Rightarrow> int \<Rightarrow> int" where
  "commitment_loop [] k commitpos = commitpos"
| "commitment_loop (txout # txouts) k commitpos =
     commitment_loop txouts (k + 1) (if is_commitment (scriptPubKey txout) then k else commitpos)"

definition GetWitnessCommitmentIndex :: "CBlock \<Rightarrow> int" where
  "GetWitnessCommitmentIndex block = (case vtx block of [] \<Rightarrow> - 1 | tx # _ \<Rightarrow> commitment_loop (vout tx) 0 (- 1))"

text \<open>\<^const>\<open>None\<close> is an access to the input of a transaction without inputs.\<close>

definition UpdateUncommittedBlockStructures :: "CBlock \<Rightarrow> ConsensusParams \<Rightarrow> CBlock option" where
  "UpdateUncommittedBlockStructures block consensusParams =
     (if GetWitnessCommitmentIndex block \<noteq> - 1 \<and> IsWitnessEnabled consensusParams \<and> \<not> HasWitness (vtx block ! 0) then
        (case vin (vtx block ! 0) of
           [] \<Rightarrow> None
         | txin # txins \<Rightarrow>
             Some (block\<lparr>vtx := (vtx block)[0 := (vtx block ! 0)\<lparr>vin := txin\<lparr>scriptWitness := [replicate 32 0]\<rparr> # txins\<rparr>]\<rparr>))
      else Some block)"

definition GenerateCoinbaseCommitment :: "CBlock \<Rightarrow> ConsensusParams \<Rightarrow> (bytes \<times> CBlock) option" where
  "GenerateCoinbaseCommitment block consensusParams =
     (case (if nSegwitEnabled consensusParams \<and> GetWitnessCommitmentIndex block = - 1 then
              (case BlockWitnessMerkleRoot block of
                 None \<Rightarrow> None
               | Some (witnessroot, _) \<Rightarrow>
                   let commitment = [word_of_nat OP_RETURN, 0x24, 0xaa, 0x21, 0xa9, 0xed] @ merkle_hash witnessroot (replicate 32 0);
                       tx = vtx block ! 0
                   in Some (commitment,
                        block\<lparr>vtx := (vtx block)[0 := tx\<lparr>vout := vout tx @ [\<lparr>nValue = 0, scriptPubKey = commitment\<rparr>]\<rparr>]\<rparr>))
            else Some ([], block)) of
        None \<Rightarrow> None
      | Some (commitment, block') \<Rightarrow>
          (case UpdateUncommittedBlockStructures block' consensusParams of
             None \<Rightarrow> None
           | Some block'' \<Rightarrow> Some (commitment, block'')))"

section \<open>Checks with the previous headers\<close>

abbreviation (input) MAX_FUTURE_BLOCK_TIME :: int where "MAX_FUTURE_BLOCK_TIME \<equiv> 2 * 60 * 60"
abbreviation (input) REJECT_CHECKPOINT :: u32 where "REJECT_CHECKPOINT \<equiv> 0x43"

definition ContextualCheckBlockHeader :: "BlockMap \<Rightarrow> bool \<Rightarrow> 'a CBlockHeader_scheme \<Rightarrow> CValidationState \<Rightarrow> CChainParams \<Rightarrow> block_ptr \<Rightarrow> int
    \<Rightarrow> fault + bool \<times> CValidationState" where
  "ContextualCheckBlockHeader m fCheckpointsEnabled block state params pindexPrev nAdjustedTime =
     (case m pindexPrev of
        None \<Rightarrow> Inl Null_pointer
      | Some prev \<Rightarrow>
          (case GetNextWorkRequired m (Some pindexPrev) block (consensus params) of
             None \<Rightarrow> Inl Assertion
           | Some bits \<Rightarrow>
               if nBits block \<noteq> bits then Inr (DoS 100 False REJECT_INVALID ''bad-diffbits'' False ''incorrect proof of work'' state)
               else if fCheckpointsEnabled \<and>
                 (case GetLastCheckpoint m (mapCheckpoints params) of
                    None \<Rightarrow> False
                  | Some c \<Rightarrow> bi_nHeight prev + 1 < bi_nHeight (the (m c)))
               then Inr (DoS 100 False REJECT_CHECKPOINT ''bad-fork-prior-to-checkpoint'' False [] state)
               else
                 (case GetMedianTimePast m pindexPrev of
                    None \<Rightarrow> Inl Null_pointer
                  | Some mtp \<Rightarrow>
                      if GetBlockTime block \<le> mtp
                      then Inr (Invalid False REJECT_INVALID ''time-too-old'' ''block's timestamp is too early'' state)
                      else if GetBlockTime block > nAdjustedTime + MAX_FUTURE_BLOCK_TIME
                      then Inr (Invalid False REJECT_INVALID ''time-too-new'' ''block timestamp too far in the future'' state)
                      else Inr (True, state))))"

text \<open>
  The part of \<^verbatim>\<open>ContextualCheckBlock\<close> on witness data: whether the block commits to its witnesses, or the state that
  rejects it.
\<close>

definition check_witness_commitment :: "CBlock \<Rightarrow> ConsensusParams \<Rightarrow> CValidationState \<Rightarrow> fault + CValidationState + bool" where
  "check_witness_commitment block consensusParams state =
     (if IsWitnessEnabled consensusParams \<and> GetWitnessCommitmentIndex block \<noteq> - 1 then
        (case BlockWitnessMerkleRoot block of
           None \<Rightarrow> Inl Null_pointer
         | Some (hashWitness, malleated) \<Rightarrow>
             (case vin (vtx block ! 0) of
                [] \<Rightarrow> Inl Null_pointer
              | txin # _ \<Rightarrow>
                  if length (scriptWitness txin) \<noteq> 1 \<or> length (scriptWitness txin ! 0) \<noteq> 32 then
                    Inr (Inl (snd (DoS 100 False REJECT_INVALID ''bad-witness-nonce-size'' True
                          ''ContextualCheckBlock : invalid witness nonce size'' state)))
                  else if merkle_hash hashWitness (scriptWitness txin ! 0) \<noteq>
                    take 32 (drop 6 (scriptPubKey (vout (vtx block ! 0) ! nat (GetWitnessCommitmentIndex block)))) then
                    Inr (Inl (snd (DoS 100 False REJECT_INVALID ''bad-witness-merkle-match'' True
                          ''ContextualCheckBlock : witness merkle commitment mismatch'' state)))
                  else Inr (Inr True)))
      else Inr (Inr False))"

definition ContextualCheckBlock :: "BlockMap \<Rightarrow> CBlock \<Rightarrow> CValidationState \<Rightarrow> ConsensusParams \<Rightarrow> block_ptr option
    \<Rightarrow> fault + bool \<times> CValidationState" where
  "ContextualCheckBlock m block state consensusParams pindexPrev =
     (case (case pindexPrev of None \<Rightarrow> Some 0 | Some p \<Rightarrow> map_option (\<lambda>prev. int (bi_nHeight prev) + 1) (m p)) of
        None \<Rightarrow> Inl Null_pointer
      | Some nHeight \<Rightarrow>
          (case (if nCSVEnabled consensusParams then (case pindexPrev of None \<Rightarrow> None | Some p \<Rightarrow> GetMedianTimePast m p)
                 else Some (GetBlockTime block)) of
             None \<Rightarrow> Inl Null_pointer
           | Some nLockTimeCutoff \<Rightarrow>
               if list_ex (\<lambda>tx. \<not> IsFinalTx tx nHeight nLockTimeCutoff) (vtx block)
               then Inr (DoS 10 False REJECT_INVALID ''bad-txns-nonfinal'' False ''non-final transaction'' state)
               else if vtx block = [] \<or> vin (vtx block ! 0) = [] then Inl Null_pointer
               else
                 let expect = push_int64 [] nHeight; sig0 = scriptSig (vin (vtx block ! 0) ! 0) in
                 if nBIP34Enabled consensusParams \<and> (length sig0 < length expect \<or> take (length expect) sig0 \<noteq> expect)
                 then Inr (DoS 100 False REJECT_INVALID ''bad-cb-height'' False ''block height mismatch in coinbase'' state)
                 else
                   (case check_witness_commitment block consensusParams state of
                      Inl e \<Rightarrow> Inl e
                    | Inr (Inl state') \<Rightarrow> Inr (False, state')
                    | Inr (Inr fHaveWitness) \<Rightarrow>
                        if \<not> fHaveWitness \<and> list_ex HasWitness (vtx block)
                        then Inr (DoS 100 False REJECT_INVALID ''unexpected-witness'' True
                               ''ContextualCheckBlock : unexpected witness data found'' state)
                        else if GetBlockWeight block > MAX_BLOCK_WEIGHT
                        then Inr (DoS 100 False REJECT_INVALID ''bad-blk-weight'' False ''ContextualCheckBlock : weight limit failed'' state)
                        else Inr (True, state))))"

section \<open>Accepting headers\<close>

text \<open>The result is the Boolean, the state, the block index entry set through \<^verbatim>\<open>ppindex\<close> and the block index.\<close>

definition AcceptBlockHeader :: "(nat \<Rightarrow> bytes \<Rightarrow> bytes) \<Rightarrow> bool \<Rightarrow> int \<Rightarrow> CBlockHeader \<Rightarrow> CValidationState \<Rightarrow> CChainParams \<Rightarrow> block_index_state
    \<Rightarrow> fault + bool \<times> CValidationState \<times> block_ptr option \<times> block_index_state" where
  "AcceptBlockHeader sph fCheckpointsEnabled nAdjustedTime block state chainparams s =
     (let hash = CBlockHeader_GetHash sph block;
          add = (\<lambda>state'. case AddToBlockIndex sph block s of
                   None \<Rightarrow> Inl Null_pointer
                 | Some (pindex, s') \<Rightarrow> Inr (True, state', Some pindex, s'))
      in if hash = hashGenesisBlock (consensus chainparams) then add state
         else
           (case mapBlockIndex s hash of
              Some pindex \<Rightarrow>
                if nStatus pindex AND BLOCK_FAILED_MASK \<noteq> 0
                then Inr (case Invalid False 0 ''duplicate'' [] state of (r, state') \<Rightarrow> (r, state', Some hash, s))
                else Inr (True, state, Some hash, s)
            | None \<Rightarrow>
                (case CheckBlockHeader sph block state (consensus chainparams) True of
                   (False, state1) \<Rightarrow> Inr (False, state1, None, s)
                 | (True, state1) \<Rightarrow>
                     (case mapBlockIndex s (hashPrevBlock block) of
                        None \<Rightarrow> Inr (case DoS 10 False 0 ''prev-blk-not-found'' False [] state1 of (r, state') \<Rightarrow> (r, state', None, s))
                      | Some prev \<Rightarrow>
                          if nStatus prev AND BLOCK_FAILED_MASK \<noteq> 0
                          then Inr (case DoS 100 False REJECT_INVALID ''bad-prevblk'' False [] state1 of (r, state') \<Rightarrow> (r, state', None, s))
                          else
                            (case ContextualCheckBlockHeader (mapBlockIndex s) fCheckpointsEnabled block state1 chainparams (hashPrevBlock block) nAdjustedTime of
                               Inl e \<Rightarrow> Inl e
                             | Inr (False, state2) \<Rightarrow> Inr (False, state2, None, s)
                             | Inr (True, state2) \<Rightarrow> add state2)))))"

fun ProcessNewBlockHeaders :: "(nat \<Rightarrow> bytes \<Rightarrow> bytes) \<Rightarrow> bool \<Rightarrow> int \<Rightarrow> CBlockHeader list \<Rightarrow> CValidationState \<Rightarrow> CChainParams \<Rightarrow> block_ptr option
    \<Rightarrow> block_index_state \<Rightarrow> fault + bool \<times> CValidationState \<times> block_ptr option \<times> block_index_state" where
  "ProcessNewBlockHeaders sph cp time [] state chainparams ppindex s = Inr (True, state, ppindex, s)"
| "ProcessNewBlockHeaders sph cp time (header # headers) state chainparams ppindex s =
     (case AcceptBlockHeader sph cp time header state chainparams s of
        Inl e \<Rightarrow> Inl e
      | Inr (False, state', _, s') \<Rightarrow> Inr (False, state', ppindex, s')
      | Inr (True, state', pindex, s') \<Rightarrow> ProcessNewBlockHeaders sph cp time headers state' chainparams pindex s')"

section \<open>Specifications of reachable indexes\<close>

text \<open>
  The block indexes that accepted and rejected headers lead to.  A header does not hash to its own parent's hash, and one with
  the hash of the genesis block has no known parent: both would be collisions of the hash function.
\<close>

inductive headers_reachable :: "(nat \<Rightarrow> bytes \<Rightarrow> bytes) \<Rightarrow> CChainParams \<Rightarrow> block_index_state \<Rightarrow> bool" for sph params where
  headers_empty: "headers_reachable sph params \<lparr>mapBlockIndex = Map.empty, pindexBestHeader = None, setDirtyBlockIndex = {}\<rparr>"
| headers_accept:
    "headers_reachable sph params s \<Longrightarrow> hashPrevBlock block \<noteq> CBlockHeader_GetHash sph block \<Longrightarrow>
     (CBlockHeader_GetHash sph block = hashGenesisBlock (consensus params) \<Longrightarrow> mapBlockIndex s (hashPrevBlock block) = None) \<Longrightarrow>
     AcceptBlockHeader sph checkpoints_enabled adjusted_time block state params s = Inr (r, state', p, s') \<Longrightarrow>
     headers_reachable sph params s'"

text \<open>Every block but the genesis block has a parent and the proof of work for its target, at most the easiest one.\<close>

definition headers_ok :: "CChainParams \<Rightarrow> BlockMap \<Rightarrow> bool" where
  "headers_ok params m \<longleftrightarrow>
     (\<forall>p x. m p = Some x \<longrightarrow> p \<noteq> hashGenesisBlock (consensus params) \<longrightarrow>
        pprev x \<noteq> None \<and> CheckProofOfWork p (bi_nBits x) (consensus params))"

definition example_coinbase :: CTransaction where
  "example_coinbase =
     \<lparr>vin = [\<lparr>prevout = COutPoint (replicate 32 0) 0xffffffff, scriptSig = [0x51, 0], nSequence = 0xffffffff, scriptWitness = []\<rparr>],
      vout = [\<lparr>nValue = 50, scriptPubKey = [0x51]\<rparr>], nVersion = 1, nLockTime = 0\<rparr>"

definition example_block :: CBlock where
  "example_block =
     \<lparr>hdr_nVersion = 1, hashPrevBlock = [1], hashMerkleRoot = ComputeHash example_coinbase, nTime = 1001, nBits = 0x207fffff, nNonce = 0,
      vtx = [example_coinbase]\<rparr>"

section \<open>New entries\<close>

lemma median_times_extend:
  assumes "tree_ok m" "m h = None"
  shows "(\<And>p. k = Some p \<Longrightarrow> m p \<noteq> None) \<Longrightarrow> median_times (m(h \<mapsto> x)) n k acc = median_times m n k acc"
proof (induction n arbitrary: k acc)
  case (Suc n)
  show ?case
  proof (cases k)
    case (Some p)
    then obtain y where y: "m p = Some y" using Suc.prems by blast
    then have "p \<noteq> h" using assms(2) by auto
    moreover have "m q \<noteq> None" if "pprev y = Some q" for q using tree_ok_parent(2) [OF assms(1) y that] by auto
    ultimately show ?thesis using Suc.IH [of "pprev y"] Some y by simp
  qed simp
qed simp

lemma GetMedianTimePast_extend:
  assumes "tree_ok m" "m h = None" "m p \<noteq> None"
  shows "GetMedianTimePast (m(h \<mapsto> x)) p = GetMedianTimePast m p"
  using median_times_extend [OF assms(1, 2), of "Some p" x] assms(3) by (simp add: GetMedianTimePast_def)

lemma times_ok_extend:
  assumes "tree_ok m" "times_ok m" "m h = None" "\<And>q. pprev x = Some q \<Longrightarrow> m q \<noteq> None \<and> the (GetMedianTimePast m q) < CBlockIndex_GetBlockTime x"
  shows "times_ok (m(h \<mapsto> x))"
  unfolding times_ok_def
proof (intro allI impI)
  fix p y q t
  assume a: "(m(h \<mapsto> x)) p = Some y" "pprev y = Some q" "GetMedianTimePast (m(h \<mapsto> x)) q = Some t"
  show "t < CBlockIndex_GetBlockTime y"
  proof (cases "p = h")
    case True
    with a(1, 2) have xq: "y = x" "pprev x = Some q" by simp_all
    have q: "m q \<noteq> None" "the (GetMedianTimePast m q) < CBlockIndex_GetBlockTime x" using assms(4) [OF xq(2)] by auto
    then have "GetMedianTimePast m q = Some t" using a(3) GetMedianTimePast_extend [OF assms(1, 3) q(1)] by simp
    with q(2) xq(1) show ?thesis by simp
  next
    case False
    with a(1) have y: "m p = Some y" by simp
    then have "m q \<noteq> None" using tree_ok_parent(2) [OF assms(1) y a(2)] by auto
    then have "GetMedianTimePast m q = Some t" using a(3) GetMedianTimePast_extend [OF assms(1, 3), of q x] by simp
    with assms(2) y a(2) show ?thesis by (simp add: times_ok_def)
  qed
qed

lemma link_to_prev_fields: "link_to_prev m q x = Some y \<Longrightarrow> bi_nTime y = bi_nTime x \<and> bi_nBits y = bi_nBits x"
  by (auto simp: link_to_prev_def BuildSkip_def split: option.splits)

lemma complete_entry_fields: "complete_entry m x = Some y \<Longrightarrow> bi_nTime y = bi_nTime x \<and> bi_nBits y = bi_nBits x"
  by (auto simp: complete_entry_def RaiseValidity_def Let_def split: option.splits if_splits)

lemma AddToBlockIndex_fields:
  assumes "AddToBlockIndex sph block s = Some (h, s')" "mapBlockIndex s (CBlockHeader_GetHash sph block) = None" "mapBlockIndex s' h = Some x"
  shows "bi_nTime x = nTime block" "bi_nBits x = nBits block"
proof -
  obtain y z where "link_to_prev ((mapBlockIndex s)(CBlockHeader_GetHash sph block \<mapsto> CBlockIndex_new block)) (hashPrevBlock block) (CBlockIndex_new block) = Some y"
      "complete_entry ((mapBlockIndex s)(CBlockHeader_GetHash sph block \<mapsto> CBlockIndex_new block)) y = Some z" "x = z"
    using assms by (auto simp: AddToBlockIndex_def Let_def split: option.splits if_splits)
  with link_to_prev_fields complete_entry_fields show "bi_nTime x = nTime block" "bi_nBits x = nBits block"
    by (fastforce simp: CBlockIndex_new_def)+
qed

text \<open>What an accepted new header has passed, and the entry it gets.\<close>

lemma AddToBlockIndex_headers_ok:
  assumes inv: "block_index_ok s" "times_ok (mapBlockIndex s)" "headers_ok params (mapBlockIndex s)"
    and new: "mapBlockIndex s (CBlockHeader_GetHash sph block) = None" and prev: "hashPrevBlock block \<noteq> CBlockHeader_GetHash sph block"
    and add: "AddToBlockIndex sph block s = Some (p, s')"
    and time: "\<And>t. mapBlockIndex s (hashPrevBlock block) \<noteq> None \<Longrightarrow> GetMedianTimePast (mapBlockIndex s) (hashPrevBlock block) = Some t \<Longrightarrow> t < GetBlockTime block"
    and pow: "CBlockHeader_GetHash sph block \<noteq> hashGenesisBlock (consensus params) \<Longrightarrow>
      mapBlockIndex s (hashPrevBlock block) \<noteq> None \<and> CheckProofOfWork (CBlockHeader_GetHash sph block) (nBits block) (consensus params)"
  shows "block_index_ok s' \<and> times_ok (mapBlockIndex s') \<and> headers_ok params (mapBlockIndex s')"
proof -
  let ?h = "CBlockHeader_GetHash sph block" and ?m = "mapBlockIndex s"
  have tree: "tree_ok ?m" using inv(1) by (simp add: block_index_ok_def)
  obtain x where x: "AddToBlockIndex sph block s = Some (?h, insert_entry s ?h x)" "pprev x = (if ?m (hashPrevBlock block) = None then None else Some (hashPrevBlock block))"
    by (rule AddToBlockIndex_new [OF inv(1) new prev])
  with add have s': "s' = insert_entry s ?h x" "p = ?h" by auto
  then have m': "mapBlockIndex s' = ?m(?h \<mapsto> x)" by (simp add: insert_entry_def)
  have f: "bi_nTime x = nTime block" "bi_nBits x = nBits block" using AddToBlockIndex_fields [OF add new, of x] m' s'(2) by simp_all
  have "block_index_ok s'"
    by (rule AddToBlockIndex_ok [OF inv(1) prev]) (use add in simp)
  moreover have "times_ok (mapBlockIndex s')"
    unfolding m'
  proof (rule times_ok_extend [OF tree inv(2) new])
    fix q assume q: "pprev x = Some q"
    then have q': "?m q \<noteq> None" "q = hashPrevBlock block" using x(2) by (auto split: if_splits)
    then obtain t where "GetMedianTimePast ?m q = Some t" using GetMedianTimePast_total [OF tree, of q] by auto
    with time q' f(1) show "?m q \<noteq> None \<and> the (GetMedianTimePast ?m q) < CBlockIndex_GetBlockTime x"
      by (auto simp: CBlockIndex_GetBlockTime_def GetBlockTime_def)
  qed
  moreover have "?h = hashGenesisBlock (consensus params) \<or> pprev x \<noteq> None \<and> CheckProofOfWork ?h (bi_nBits x) (consensus params)"
    by (cases "?h = hashGenesisBlock (consensus params)") (use pow f(2) x(2) in auto)
  then have "headers_ok params (mapBlockIndex s')" using inv(3) unfolding m' by (auto simp: headers_ok_def)
  ultimately show ?thesis by blast
qed

lemma DoS_result [simp]: "fst (DoS level result code reason corruption debug state) = result"
  by (simp add: DoS_def Let_def)

lemma ContextualCheckBlockHeader_time:
  assumes "ContextualCheckBlockHeader m cp block state params p adjusted = Inr (True, state')"
  shows "m p \<noteq> None" "GetMedianTimePast m p = Some t \<Longrightarrow> t < GetBlockTime block" "GetBlockTime block \<le> adjusted + MAX_FUTURE_BLOCK_TIME"
    "GetNextWorkRequired m (Some p) block (consensus params) = Some (nBits block)"
  using assms by (auto simp: ContextualCheckBlockHeader_def Invalid_def DoS_def Let_def split: option.splits if_splits)

lemma AcceptBlockHeader_ok:
  assumes inv: "block_index_ok s" "times_ok (mapBlockIndex s)" "headers_ok params (mapBlockIndex s)"
    and prev: "hashPrevBlock block \<noteq> CBlockHeader_GetHash sph block"
      "CBlockHeader_GetHash sph block = hashGenesisBlock (consensus params) \<Longrightarrow> mapBlockIndex s (hashPrevBlock block) = None"
    and acc: "AcceptBlockHeader sph cp time block state params s = Inr (r, state', p, s')"
  shows "block_index_ok s' \<and> times_ok (mapBlockIndex s') \<and> headers_ok params (mapBlockIndex s')"
proof -
  let ?h = "CBlockHeader_GetHash sph block" and ?m = "mapBlockIndex s"
  consider (same) "s' = s"
    | (genesis) "?m ?h = None" "?h = hashGenesisBlock (consensus params)" "\<exists>q. AddToBlockIndex sph block s = Some (q, s')"
    | (new) st st' where "?m ?h = None" "?h \<noteq> hashGenesisBlock (consensus params)" "CheckProofOfWork ?h (nBits block) (consensus params)"
        "ContextualCheckBlockHeader ?m cp block st params (hashPrevBlock block) time = Inr (True, st')"
        "\<exists>q. AddToBlockIndex sph block s = Some (q, s')"
    using acc
    by (cases "?m ?h")
      (auto simp: AcceptBlockHeader_def CheckBlockHeader_def AddToBlockIndex_def [of sph block s] Let_def DoS_def Invalid_def
         split: option.splits if_splits sum.splits prod.splits bool.splits)
  then show ?thesis
  proof cases
    case same
    with inv show ?thesis by simp
  next
    case genesis
    then show ?thesis using AddToBlockIndex_headers_ok [OF inv genesis(1) prev(1)] prev(2) by blast
  next
    case new
    then show ?thesis
      using AddToBlockIndex_headers_ok [OF inv new(1) prev(1)] ContextualCheckBlockHeader_time [OF new(4)] by blast
  qed
qed

lemma headers_reachable_ok:
  "headers_reachable sph params s \<Longrightarrow> block_index_ok s \<and> times_ok (mapBlockIndex s) \<and> headers_ok params (mapBlockIndex s)"
proof (induction rule: headers_reachable.induct)
  case headers_empty
  show ?case by (simp add: block_index_ok_def tree_ok_def best_header_ok_def times_ok_def headers_ok_def)
next
  case (headers_accept s block cp time state r state' p s')
  then show ?case using AcceptBlockHeader_ok by blast
qed

section \<open>Accepted blocks\<close>

lemma DoS_rejects: "DoS level False code reason corruption debug state \<noteq> (True, state')"
  by (simp add: DoS_def Let_def)

lemma check_transactions_accept:
  "check_transactions_loop txs state = (True, state') \<Longrightarrow> \<forall>tx\<in>set txs. \<exists>st. CheckTransaction tx st False = (True, st)"
proof (induction txs arbitrary: state)
  case (Cons tx txs)
  obtain r st where c: "CheckTransaction tx state False = (r, st)" by fastforce
  then have r: "r" using Cons.prems by (cases r) (simp_all add: Invalid_def DoS_rejects)
  then have "st = state" using c by (auto simp: CheckTransaction_def DoS_def Let_def split: if_splits option.splits)
  then show ?case using Cons c r by auto
qed simp

lemma check_block_contents_accept:
  assumes "check_block_contents block state = (True, state')"
  shows "vtx block \<noteq> []" "length (vtx block) * 4 \<le> 4000000" "IsCoinBase (vtx block ! 0)" "\<forall>tx\<in>set (tl (vtx block)). \<not> IsCoinBase tx"
    "\<forall>tx\<in>set (vtx block). \<exists>st. CheckTransaction tx st False = (True, st)"
proof -
  show "vtx block \<noteq> []" "length (vtx block) * 4 \<le> 4000000" "IsCoinBase (vtx block ! 0)" "\<forall>tx\<in>set (tl (vtx block)). \<not> IsCoinBase tx"
    using assms by (auto simp: check_block_contents_def DoS_rejects list_ex_iff Let_def split: if_splits)
  have "\<exists>st'. check_transactions_loop (vtx block) state = (True, st')"
    using assms by (auto simp: check_block_contents_def DoS_rejects Let_def split: if_splits prod.splits bool.splits)
  then show "\<forall>tx\<in>set (vtx block). \<exists>st. CheckTransaction tx st False = (True, st)" using check_transactions_accept by blast
qed

lemma CheckBlock_accept:
  assumes "CheckBlock sph block False state params pow True = Some (True, state', checked)"
  shows "BlockMerkleRoot block = Some (hashMerkleRoot block, False)" "\<exists>st st'. check_block_contents block st = (True, st')"
    "pow \<Longrightarrow> CheckProofOfWork (CBlockHeader_GetHash sph block) (nBits block) params"
  using assms
  by (auto simp: CheckBlock_def CheckBlockHeader_def check_merkle_root_def DoS_rejects
      split: if_splits prod.splits bool.splits option.splits)

section \<open>The witness commitment\<close>

lemma commitment_loop_append: "commitment_loop (xs @ ys) k c = commitment_loop ys (k + int (length xs)) (commitment_loop xs k c)"
  by (induction xs arbitrary: k c) (auto simp: add.assoc add.commute)

lemma BlockWitnessMerkleRoot_cong: "tl (vtx b) = tl (vtx b') \<Longrightarrow> vtx b \<noteq> [] \<Longrightarrow> vtx b' \<noteq> [] \<Longrightarrow> BlockWitnessMerkleRoot b = BlockWitnessMerkleRoot b'"
  by (cases "vtx b"; cases "vtx b'") (simp_all add: BlockWitnessMerkleRoot_def)

lemma length_merkle_hash [simp]: "length (merkle_hash a b) = 32"
  by (simp add: merkle_hash_Hash Hash_spec)

section \<open>The height in the coinbase\<close>

lemma push_height_cases:
  assumes "0 \<le> h" "h < 2 ^ 31"
  obtains "h \<le> 16" "push_int64 [] h = [word_of_int (if h = 0 then 0 else h + 0x50)]"
  | "16 < h" "push_int64 [] h = word_of_nat (length (serialize h)) # serialize h" "1 \<le> length (serialize h)" "length (serialize h) \<le> 4"
proof (cases "h \<le> 16")
  case True
  then show thesis using assms by (intro that(1)) (auto simp: push_int64_def)
next
  case False
  have "serialize h \<noteq> []"
  proof
    assume "serialize h = []"
    then have "set_vch (serialize h) = 0" by (simp add: set_vch_def)
    with set_vch_serialize [of h] assms False show False by simp
  qed
  moreover have "length (serialize h) \<le> Suc 3" using assms by (intro length_serialize_le) simp
  ultimately show thesis using False by (intro that(2)) (auto simp: push_int64_def push_vector_def Suc_le_eq)
qed

lemma push_height_prefix:
  assumes "0 \<le> h" "h < 2 ^ 31" "0 \<le> h'" "h' < 2 ^ 31"
    "take (length (push_int64 [] h)) sig = push_int64 [] h" "take (length (push_int64 [] h')) sig = push_int64 [] h'"
  shows "h = h'"
proof -
  have "push_int64 [] h \<noteq> []" by (rule push_height_cases [OF assms(1, 2)]) simp_all
  then obtain b bs where sig: "sig = b # bs" using assms(5) by (cases sig) simp_all
  have small: "unat b = nat (if h = 0 then 0 else h + 0x50)" if "h \<le> 16" "push_int64 [] h = [word_of_int (if h = 0 then 0 else h + 0x50)]"
      "take (length (push_int64 [] h)) sig = push_int64 [] h" "0 \<le> h" for h
    using that sig by (auto simp: unsigned_of_int take_bit_int_eq_self take_bit_nat_eq_self nat_take_bit_eq)
  have big: "unat b = length (serialize h)" "take (unat b) bs = serialize h"
    if "push_int64 [] h = word_of_nat (length (serialize h)) # serialize h" "length (serialize h) \<le> 4"
      "take (length (push_int64 [] h)) sig = push_int64 [] h" for h
    using that sig by (auto simp: unat_of_nat)
  from push_height_cases [OF assms(1, 2)] show ?thesis
  proof cases
    case h: 1
    from push_height_cases [OF assms(3, 4)] show ?thesis
    proof cases
      case 1
      then show ?thesis using small [OF h assms(5, 1)] small [OF 1 assms(6, 3)] assms(1, 3) by (auto split: if_splits)
    next
      case 2
      then show ?thesis using small [OF h assms(5, 1)] big(1) [OF 2(2, 4) assms(6)] assms(1) by (auto split: if_splits)
    qed
  next
    case h: 2
    from push_height_cases [OF assms(3, 4)] show ?thesis
    proof cases
      case 1
      then show ?thesis using small [OF 1 assms(6, 3)] big(1) [OF h(2, 4) assms(5)] h(3, 4) assms(3) by (auto split: if_splits)
    next
      case 2
      then have "serialize h = serialize h'" using big(2) [OF h(2, 4) assms(5)] big(2) [OF 2(2, 4) assms(6)] by simp
      moreover have "set_vch (serialize h) = h" "set_vch (serialize h') = h'" using assms(1-4) by (simp_all add: set_vch_serialize)
      ultimately show ?thesis by metis
    qed
  qed
qed

section \<open>An example\<close>

lemma example_sigops: "GetSigOpCount False [0x51, 0] = 0" "GetSigOpCount False [0x51] = 0"
  by (simp_all add: GetSigOpCount_def GetSigOpCount_loop.simps GetOp_def GetOp2.simps Let_def)

lemma example_coinbase_fields:
  "IsCoinBase example_coinbase" "\<not> HasWitness example_coinbase" "GetLegacySigOpCount example_coinbase = 0"
  by (simp_all add: example_coinbase_def IsCoinBase_def COutPoint_IsNull_def IsNull_uint256_def list_all_iff HasWitness_def GetLegacySigOpCount_def example_sigops)

lemma length_example_coinbase: "length (SerializeTransaction w example_coinbase) = 63"
  using example_coinbase_fields(2)
  by (simp add: SerializeTransaction_def Let_def)
     (simp add: example_coinbase_def Serialize_vector_def Serialize_CTxIn_def Serialize_CTxOut_def Serialize_COutPoint_def
      Serialize_bytes_def WriteCompactSize_def Serialize_int32_def Serialize_int64_def Serialize_uint256_def ser_writedata8_def ser_writedata32_def ser_writedata64_def)

lemma length_serialize_example: "length (Serialize_CBlock w (b\<lparr>vtx := [example_coinbase]\<rparr>)) \<le> 80 + length (hashPrevBlock b) + length (hashMerkleRoot b)"
  by (simp add: Serialize_CBlock_def Serialize_CBlockHeader_def Serialize_vector_def length_example_coinbase WriteCompactSize_def
      Serialize_int32_def Serialize_uint256_def ser_writedata8_def ser_writedata32_def)

lemma CheckTransaction_example: "CheckTransaction example_coinbase state False = (True, state)"
  using length_example_coinbase [of False]
  by (simp add: CheckTransaction_def example_coinbase_fields) (simp add: example_coinbase_def MoneyRange_def MAX_MONEY_def wrap64_id int64_range_def)

lemma not_mutated_one: "\<not> merkle_mutated [x]"
proof -
  have "2 \<le> (2 * i + 2) * (2 :: nat) ^ k" for i k using mult_le_mono [of 2 "2 * i + 2" 1 "2 ^ k"] by simp
  then show ?thesis unfolding merkle_mutated_def by (metis One_nat_def Suc_1 length_Cons list.size(3) not_less_eq_eq order_trans)
qed

lemma example_block_accepted: "\<exists>st. CheckBlock example_sph example_block False CValidationState_new params False True = Some (True, st, False)"
proof -
  have "ComputeMerkleRoot [ComputeHash example_coinbase] = Some (ComputeHash example_coinbase, False)"
    using ComputeMerkleRoot_spec [of "[ComputeHash example_coinbase]"] by (simp add: not_mutated_one)
  then have m: "check_merkle_root example_block st = Some (True, st)" for st by (simp add: check_merkle_root_def BlockMerkleRoot_def example_block_def)
  have "length (ComputeHash example_coinbase) = 32" by (simp add: ComputeHash_def SerializeHash_spec)
  then have "length (Serialize_CBlock False example_block) \<le> 200"
    using length_serialize_example [of False example_block] by (simp add: example_block_def)
  then have "check_block_contents example_block st = (True, st)" for st
    by (simp add: check_block_contents_def example_coinbase_fields CheckTransaction_example example_block_def Let_def)
  then show ?thesis by (simp add: CheckBlock_def CheckBlockHeader_def m)
qed

lemma example_genesis:
  "hashPrevBlock (example_header (replicate 32 0) 1) \<noteq> CBlockHeader_GetHash example_sph (example_header (replicate 32 0) 1)"
proof -
  have "WriteLE32 1 = [1, 0, 0, 0]" by code_simp
  then have "CBlockHeader_GetHash example_sph (example_header (replicate 32 0) 1) ! 3 = 1" by (simp add: example_hash)
  then show ?thesis by (metis CBlockHeader.select_convs(2) nth_replicate numeral_less_iff semiring_norm(76) semiring_norm(81) zero_neq_one)
qed

section \<open>Properties\<close>

text \<open>
  C2: Whatever headers arrive, in whatever order, the block index stays a tree with right heights, skip pointers, times and
  accumulated work (\<^const>\<open>block_index_ok\<close>), every block in it but the genesis block has a parent and proof of work, and every
  block is later than the median time of the eleven blocks before it, which the states of deployments rely on.
\<close>

theorem accepted_headers_invariant:
  assumes "headers_reachable sph params s"
  shows "block_index_ok s \<and> times_ok (mapBlockIndex s) \<and>
    (\<forall>p x. mapBlockIndex s p = Some x \<longrightarrow> p \<noteq> hashGenesisBlock (consensus params) \<longrightarrow>
       pprev x \<noteq> None \<and> CheckProofOfWork p (bi_nBits x) (consensus params))"
  using headers_reachable_ok [OF assms] by (simp add: headers_ok_def)

theorem accepted_headers_invariant_witness:
  "\<exists>s. mapBlockIndex (s :: block_index_state) \<noteq> Map.empty \<and> block_index_ok s \<and> times_ok (mapBlockIndex s)"
proof -
  let ?g = "example_header (replicate 32 0) 1" and ?e = "\<lparr>mapBlockIndex = Map.empty, pindexBestHeader = None, setDirtyBlockIndex = {}\<rparr>"
  let ?h = "CBlockHeader_GetHash example_sph ?g"
  let ?params = "\<lparr>consensus = CMainParams_consensus ?h, mapCheckpoints = []\<rparr>"
  obtain s where s: "AddToBlockIndex example_sph ?g ?e = Some (?h, s)" "mapBlockIndex s ?h \<noteq> None"
    by (rule AddToBlockIndex_ok [OF _ example_genesis]) (use headers_reachable_ok [OF headers_empty] in blast)+
  then have "AcceptBlockHeader example_sph True 0 ?g CValidationState_new ?params ?e = Inr (True, CValidationState_new, Some ?h, s)"
    by (simp add: AcceptBlockHeader_def Let_def CMainParams_consensus_def)
  from headers_accept [OF headers_empty example_genesis _ this] have "headers_reachable example_sph ?params s" by simp
  from accepted_headers_invariant [OF this] s(2) show ?thesis by (intro exI [of _ s]) auto
qed

text \<open>
  C12: A header fixes the transactions of its block.  Two blocks that \<^verbatim>\<open>CheckBlock\<close> accepts with the same merkle root in
  their headers, and as many transactions up to the height of the tree, have the same transaction ids in the same order,
  unless two different pairs hashed for the root collide.
\<close>

theorem CheckBlock_fixes_transactions:
  assumes "CheckBlock sph b False state params pow True = Some (True, st, c)" "CheckBlock sph b' False state' params pow' True = Some (True, st', c')"
    "hashMerkleRoot b = hashMerkleRoot b'" "length (vtx b) \<le> 2 ^ d" "2 ^ d < 2 * length (vtx b)" "length (vtx b') \<le> 2 ^ d" "2 ^ d < 2 * length (vtx b')"
  shows "map ComputeHash (vtx b) = map ComputeHash (vtx b') \<or> merkle_collision (map ComputeHash (vtx b)) (map ComputeHash (vtx b'))"
proof -
  obtain s1 s2 where "check_block_contents b s1 = (True, s2)" using CheckBlock_accept(2) [OF assms(1)] by blast
  then have "length (vtx b) * 4 \<le> 4000000" by (rule check_block_contents_accept(2))
  then have "2 ^ d \<le> (2 :: nat) ^ 31" using assms(5) by simp
  then show ?thesis
    using CheckBlock_accept(1) [OF assms(1)] CheckBlock_accept(1) [OF assms(2)] assms(3-7)
    by (intro root_fixes_leaves [where d = d and r = "hashMerkleRoot b"]) (simp_all add: BlockMerkleRoot_def)
qed

theorem CheckBlock_fixes_transactions_witness:
  "\<exists>st. CheckBlock example_sph example_block False CValidationState_new (CMainParams_consensus []) False True = Some (True, st, False) \<and>
     (map ComputeHash (vtx example_block) = [ComputeHash example_coinbase] \<or> merkle_collision (map ComputeHash (vtx example_block)) [ComputeHash example_coinbase])"
proof -
  have v: "vtx example_block = [example_coinbase]" by (simp add: example_block_def)
  obtain st where st: "CheckBlock example_sph example_block False CValidationState_new (CMainParams_consensus []) False True = Some (True, st, False)"
    using example_block_accepted by blast
  from CheckBlock_fixes_transactions [OF st st refl, of 0] st show ?thesis by (auto simp: v)
qed

text \<open>
  C39: A block template that \<^verbatim>\<open>GenerateCoinbaseCommitment\<close> completes passes the check of the witness commitment: the commitment
  is found as the last output of the coinbase, the nonce it relies on is put in place, and the witness root does not depend on
  the coinbase that was changed.  The other transactions stay as they are.
\<close>

theorem GenerateCoinbaseCommitment_accepted:
  assumes "vtx block = tx # txs" "vin tx \<noteq> []" "\<not> HasWitness tx" "GetWitnessCommitmentIndex block = - 1" "nSegwitEnabled params" "length txs < 2 ^ 31"
  shows "\<exists>commitment block'. GenerateCoinbaseCommitment block params = Some (commitment, block') \<and> tl (vtx block') = txs \<and>
    GetWitnessCommitmentIndex block' = int (length (vout tx)) \<and> check_witness_commitment block' params state = Inr (Inr True)"
proof -
  let ?leaves = "null_uint256 # map GetWitnessHash txs"
  obtain txin txins where vin: "vin tx = txin # txins" using assms(2) by (cases "vin tx") auto
  have root: "BlockWitnessMerkleRoot b = Some (merkle_root ?leaves, merkle_mutated ?leaves)" if "tl (vtx b) = txs" "vtx b \<noteq> []" for b
    using that assms(6) ComputeMerkleRoot_spec [of ?leaves] by (cases "vtx b") (auto simp: BlockWitnessMerkleRoot_def)
  let ?script = "[word_of_nat OP_RETURN, 0x24, 0xaa, 0x21, 0xa9, 0xed] @ merkle_hash (merkle_root ?leaves) (replicate 32 0)"
  let ?tx = "tx\<lparr>vout := vout tx @ [\<lparr>nValue = 0, scriptPubKey = ?script\<rparr>]\<rparr>"
  let ?tx' = "?tx\<lparr>vin := txin\<lparr>scriptWitness := [replicate 32 0]\<rparr> # txins\<rparr>"
  have com: "is_commitment ?script" by (simp add: is_commitment_def)
  have idx: "GetWitnessCommitmentIndex (block\<lparr>vtx := t # txs\<rparr>) = int (length (vout tx))" if "vout t = vout ?tx" for t
    using com that by (simp add: GetWitnessCommitmentIndex_def commitment_loop_append del: append_Cons)
  have "GenerateCoinbaseCommitment block params = Some (?script, block\<lparr>vtx := ?tx' # txs\<rparr>)"
    using assms vin root [of block] idx [of ?tx]
    by (simp add: GenerateCoinbaseCommitment_def UpdateUncommittedBlockStructures_def IsWitnessEnabled_def HasWitness_def Let_def)
  moreover have "check_witness_commitment (block\<lparr>vtx := ?tx' # txs\<rparr>) params state = Inr (Inr True)"
    using assms(5) idx [of ?tx'] root [of "block\<lparr>vtx := ?tx' # txs\<rparr>"]
    by (simp add: check_witness_commitment_def IsWitnessEnabled_def nth_append)
  ultimately show ?thesis using idx [of ?tx'] by (intro exI [of _ ?script] exI [of _ "block\<lparr>vtx := ?tx' # txs\<rparr>"]) simp
qed

theorem GenerateCoinbaseCommitment_accepted_witness:
  "\<exists>commitment block'. GenerateCoinbaseCommitment example_block (CMainParams_consensus []) = Some (commitment, block') \<and>
     check_witness_commitment block' (CMainParams_consensus []) CValidationState_new = Inr (Inr True)"
proof -
  have "vin example_coinbase \<noteq> []" "GetWitnessCommitmentIndex example_block = - 1"
    by (simp_all add: example_block_def example_coinbase_def GetWitnessCommitmentIndex_def is_commitment_def)
  then show ?thesis
    using GenerateCoinbaseCommitment_accepted [of example_block example_coinbase "[]" "CMainParams_consensus []" CValidationState_new] example_coinbase_fields(2)
    by (auto simp: example_block_def CMainParams_consensus_def)
qed

text \<open>
  C40: Coinbases of different heights differ: two blocks that \<^verbatim>\<open>ContextualCheckBlock\<close> accepts on previous blocks of any two block
  indexes and that have the same coinbase transaction have the same height.  This is what makes up for the check against
  overwriting older transactions, which is commented out.
\<close>

theorem coinbases_of_heights_differ:
  assumes "ContextualCheckBlock m b state params (Some p) = Inr (True, st)" "ContextualCheckBlock m' b' state' params (Some p') = Inr (True, st')"
    "nBIP34Enabled params" "m p = Some x" "m' p' = Some x'" "bi_nHeight x < 2 ^ 31 - 1" "bi_nHeight x' < 2 ^ 31 - 1" "vtx b ! 0 = vtx b' ! 0"
  shows "bi_nHeight x = bi_nHeight x'"
proof -
  let ?sig = "scriptSig (vin (vtx b ! 0) ! 0)"
  have "take (length (push_int64 [] (int (bi_nHeight x) + 1))) ?sig = push_int64 [] (int (bi_nHeight x) + 1)"
      "take (length (push_int64 [] (int (bi_nHeight x') + 1))) ?sig = push_int64 [] (int (bi_nHeight x') + 1)"
    using assms(1-5, 8) by (auto simp: ContextualCheckBlock_def Let_def DoS_rejects split: option.splits if_splits)
  from push_height_prefix [OF _ _ _ _ this] assms(6, 7) show ?thesis by simp
qed

theorem coinbases_of_heights_differ_witness:
  "\<exists>st. ContextualCheckBlock signal_tree example_block CValidationState_new (CMainParams_consensus []) (Some [1]) = Inr (True, st) \<and>
     bi_nHeight signal_block1 = 0"
proof -
  have c: "GetWitnessCommitmentIndex example_block = - 1"
    by (simp add: example_block_def example_coinbase_def GetWitnessCommitmentIndex_def is_commitment_def)
  have "length (ComputeHash example_coinbase) = 32" by (simp add: ComputeHash_def SerializeHash_spec)
  then have "length (Serialize_CBlock w example_block) \<le> 200" for w
    using length_serialize_example [of w example_block] by (simp add: example_block_def)
  from this [of True] this [of False] have w: "GetBlockWeight example_block \<le> 4000000" by (simp add: GetBlockWeight_def)
  have f: "vtx example_block = [example_coinbase]" "nLockTime example_coinbase = 0" "vin example_coinbase \<noteq> []" "scriptSig (vin example_coinbase ! 0) = [0x51, 0]"
    by (simp_all add: example_block_def example_coinbase_def)
  have p: "nBIP34Enabled (CMainParams_consensus [])" "nCSVEnabled (CMainParams_consensus [])" by (simp_all add: CMainParams_consensus_def)
  have "push_int64 [] 1 = [0x51]" by (simp add: push_int64_def)
  then have a: "ContextualCheckBlock signal_tree example_block CValidationState_new (CMainParams_consensus []) (Some [1]) = Inr (True, CValidationState_new)"
    using w by (simp add: ContextualCheckBlock_def p signal_tree_median f IsFinalTx_def check_witness_commitment_def c example_coinbase_fields(2) Let_def)
  from coinbases_of_heights_differ [OF a a p(1) signal_tree_nodes(1) signal_tree_nodes(1)] a show ?thesis by simp
qed

end
