(* ===== verification/Spec2Isabelle.thy ===== *)
theory Spec2Isabelle
  imports SoftForks ScriptTemplates BlockCheck
begin

text \<open>
  A verification development for the consensus core of the Sucrecoin node: scripts and their
  interpreter, hashes, serialization, transactions and blocks, signature hashes, the set of unspent
  coins, the block index, difficulty, deployments, merkle trees and the checks of blocks.  File
  names below are relative to \<^verbatim>\<open>src/src\<close>.

  \<^bold>\<open>How the parts interact.\<close>  A header that arrives is checked for its proof of work, compared with the
  difficulty and the median time of its predecessors and put into the block index, a tree of headers
  with skip pointers and accumulated work.  A block is checked against the merkle root in its header,
  and its witnesses against the commitment in its coinbase.  A transaction is checked on its own, then
  against the coins it spends, which come from a stack of caches over a database.  Each input is
  verified by running its scripts; the signature opcodes ask a checker, which hashes the parts of the
  transaction that the signature covers.

  \<^bold>\<open>Conventions.\<close>  A byte is a word of 8 bits and \<^verbatim>\<open>uint32_t\<close>, \<^verbatim>\<open>uint64_t\<close> and \<^verbatim>\<open>size_t\<close> counters that can wrap
  are words of their width.  \<^verbatim>\<open>int64_t\<close> is an integer, with the wrap-around written out where the
  code adds.  A \<^verbatim>\<open>uint256\<close> is the list of its 32 bytes.  A class is a record, and a method takes and
  returns it.  A failed assertion, an exception, a null pointer or an error code is a value of a sum or
  option type, so that a theorem that a function returns says that none of these happens.  Pointers
  into the block index are keys of a map.

  \<^bold>\<open>Bytes and serialization.\<close>
  \<^item> \<^verbatim>\<open>Prelude\<close>, \<^verbatim>\<open>Common\<close>: machine types and \<^verbatim>\<open>crypto/common.h\<close>, with the round trips of its accessors.
  \<^item> \<^verbatim>\<open>Serialize\<close>: \<^verbatim>\<open>serialize.h\<close> and the reads of \<^verbatim>\<open>streams.h\<close>.  The locale \<^verbatim>\<open>codec\<close> is the contract of a
    writer and a reader (what was written is read back, and nothing else is consumed) and
    \<^verbatim>\<open>canonical_codec\<close> adds that nothing else is accepted.  Both are interpreted for integers, compact
    sizes, variable-length integers and byte vectors, and in \<^verbatim>\<open>Transaction\<close> for outpoints, inputs,
    outputs, transactions and blocks.
  \<^item> \<^verbatim>\<open>Transaction\<close>: \<^verbatim>\<open>primitives/transaction.h\<close>, \<^verbatim>\<open>primitives/block.h\<close> and their implementations, with
    round trips and exact output sums.
  \<^item> \<^verbatim>\<open>MoneyStr\<close>: \<^verbatim>\<open>utilmoneystr.cpp\<close>; a printed amount is read back.

  \<^bold>\<open>Hashes.\<close>
  \<^item> \<^verbatim>\<open>Hasher\<close>: the buffering that the hash classes share.  The locale \<^verbatim>\<open>block_hash\<close> fixes a block size and
    a transform, and \<^verbatim>\<open>hasher_class\<close> adds the reference compression; the result that splitting a
    message into writes does not matter is proved there once.
  \<^item> \<^verbatim>\<open>Sha256\<close>, \<^verbatim>\<open>Sha512\<close>, \<^verbatim>\<open>Sha1\<close>, \<^verbatim>\<open>Ripemd160\<close>: the files of \<^verbatim>\<open>crypto/\<close>.  The unrolled transforms equal the
    round-by-round definitions of the standards, and both locales are interpreted on each class.
  \<^item> \<^verbatim>\<open>Hash\<close>: \<^verbatim>\<open>hash.h\<close>, \<^verbatim>\<open>hash.cpp\<close> and the HMAC classes.  The sixteen functions of the X16R chain
    (the C files of \<^verbatim>\<open>crypto/\<close>) are not modelled; the chain takes them as a parameter.

  \<^bold>\<open>Scripts.\<close>
  \<^item> \<^verbatim>\<open>Script\<close>: \<^verbatim>\<open>script/script.h\<close>, \<^verbatim>\<open>script/script.cpp\<close>; parsing of opcodes and the unique minimal encoding of
    numbers.
  \<^item> \<^verbatim>\<open>Interpreter\<close>: \<^verbatim>\<open>script/interpreter.cpp\<close>, each opcode with all its error branches, \<^verbatim>\<open>VerifyScript\<close> and
    witness programs.  The signature checker is an argument, as it is a virtual class in the code.
  \<^item> \<^verbatim>\<open>ScriptLimits\<close>: no assertion fails and the limits on elements and stacks hold.
  \<^item> \<^verbatim>\<open>SoftForks\<close>: what is accepted under some flags is accepted under weaker ones.
  \<^item> \<^verbatim>\<open>ScriptTemplates\<close>: strict DER, the greedy matching of multisignatures, pay-to-public-key-hash.
  \<^item> \<^verbatim>\<open>SigHash\<close>: the signature hashes and \<^verbatim>\<open>TransactionSignatureChecker\<close>; the serializer equals the
    algorithm that copies and edits the transaction.  The elliptic curve check is a parameter.

  \<^bold>\<open>Coins and transactions.\<close>
  \<^item> \<^verbatim>\<open>Coins\<close>: \<^verbatim>\<open>coins.h\<close>, \<^verbatim>\<open>coins.cpp\<close> and the batches of \<^verbatim>\<open>txdb.cpp\<close>.  A stack of caches over the database
    refines a stack of maps, and a crash between two batches loses nothing.  The database is a map,
    and when a batch is big enough to be written is a parameter.
  \<^item> \<^verbatim>\<open>TxVerify\<close>: \<^verbatim>\<open>consensus/tx_verify.cpp\<close> and \<^verbatim>\<open>consensus/validation.h\<close>; the checks are characterised exactly.

  \<^bold>\<open>Chain and blocks.\<close>
  \<^item> \<^verbatim>\<open>ArithUint256\<close>: \<^verbatim>\<open>arith_uint256.h\<close>, \<^verbatim>\<open>arith_uint256.cpp\<close>; the limbs compute with the numbers they stand for.
  \<^item> \<^verbatim>\<open>Chain\<close>: \<^verbatim>\<open>chain.h\<close>, \<^verbatim>\<open>chain.cpp\<close> and \<^verbatim>\<open>AddToBlockIndex\<close> of \<^verbatim>\<open>validation.cpp\<close>; an invariant of every
    reachable index, ancestors through skip pointers, forks and locators.
  \<^item> \<^verbatim>\<open>Pow\<close>: \<^verbatim>\<open>pow.cpp\<close>; the difficulty is defined after every block and can be met.
  \<^item> \<^verbatim>\<open>VersionBits\<close>: \<^verbatim>\<open>versionbits.cpp\<close> and \<^verbatim>\<open>ComputeBlockVersion\<close>; the cached computation equals the definition
    by periods.
  \<^item> \<^verbatim>\<open>Merkle\<close>: \<^verbatim>\<open>consensus/merkle.cpp\<close>; the constant-space computation equals the tree built by levels.
  \<^item> \<^verbatim>\<open>BlockCheck\<close>: \<^verbatim>\<open>CheckBlockHeader\<close>, \<^verbatim>\<open>CheckBlock\<close>, the contextual checks, \<^verbatim>\<open>AcceptBlockHeader\<close> and the witness
    commitment of \<^verbatim>\<open>validation.cpp\<close>.

  \<^bold>\<open>Bounds.\<close>  The levels of a merkle tree are cut off at 32, the width of the counter and the size of the array
  in the code; beyond, the model gives no result, and up to 2147483648 leaves it is proved to give one.
  Walks in the block index that the code writes as loops over pointers are either bounded by the height or
  partial functions with None for a loop that does not end, and the theorems about
  them say that they end on every index that can be reached.  The exception is the loop of
  \<^verbatim>\<open>GetStateStatisticsFor\<close>, which is defined but has no theorem: the code follows a null pointer in the first
  period.

  \<^bold>\<open>Not modelled.\<close>  Connecting and disconnecting blocks with their undo data, the memory pool, the
  asset code, the wallet, the network, the RPC interface, the user interface, locks and threads, and
  logging.  The C hash functions of X16R and the elliptic curve check are parameters,
  and so is what the database decides.
\<close>

end
